(* ===== verification/UK_Prelude.thy ===== *)
theory UK_Prelude
  imports Main "HOL-Library.Word"
begin

text \<open>
  Shared foundations of the development.

  \<^item> Rust's \<open>Result\<close> as a sum type with the \<open>?\<close> operator (\<open>and_then\<close>), \<open>map_err\<close> and
    guards; the collection \<open>result_simps\<close> drives every decoder proof.
  \<^item> The same for functions that change a state, with the collection \<open>io_simps\<close>.
  \<^item> The unsigned machine integers as words, the big-endian reads and writes of the
    \<open>bytes\<close> buffers and their inversion lemmas.
  \<^item> The contracts of the wire codecs as locales: \<open>codec\<close> for decoders that leave the
    rest of the buffer, \<open>payload_codec\<close> for decoders that must consume it.
  Buffers (\<open>impl Buf\<close>, \<open>impl BufMut\<close>) are byte lists: a decoder returns the value and
  the remaining bytes, an encoder returns the bytes it appends.
\<close>

unbundle bit_operations_syntax

named_theorems result_simps

section \<open>Machine integers\<close>

type_synonym byte = "8 word"
type_synonym u8 = "8 word"
type_synonym u16 = "16 word"
type_synonym u32 = "32 word"
type_synonym u64 = "64 word"
type_synonym u128 = "128 word"

text \<open>A \<open>[u8; 32]\<close> array (a nonce, an exporter value, a tag) is the number its bytes spell in
  network order, so that its length is part of its type.\<close>

type_synonym bytes32 = "256 word"

lemma unat_less_pow: "unat (w :: 'a::len word) < 2 ^ LENGTH('a)"
  by (rule unsigned_less)

section \<open>Results\<close>

fun and_then :: "'e + 'a \<Rightarrow> ('a \<Rightarrow> 'e + 'b) \<Rightarrow> 'e + 'b" where
  "and_then (Inl e) f = Inl e"
| "and_then (Inr a) f = f a"

definition ensure :: "bool \<Rightarrow> 'e \<Rightarrow> 'e + unit" where
  "ensure b e = (if b then Inr () else Inl e)"

fun map_err :: "('e \<Rightarrow> 'f) \<Rightarrow> 'e + 'a \<Rightarrow> 'f + 'a" where
  "map_err g (Inl e) = Inl (g e)"
| "map_err g (Inr a) = Inr a"

fun is_ok :: "'e + 'a \<Rightarrow> bool" where
  "is_ok (Inl e) = False"
| "is_ok (Inr a) = True"

definition ok_or :: "'e \<Rightarrow> 'a option \<Rightarrow> 'e + 'a" where
  "ok_or e x = (case x of None \<Rightarrow> Inl e | Some a \<Rightarrow> Inr a)"

lemma and_then_eq_Inr [result_simps]:
  "and_then m f = Inr b \<longleftrightarrow> (\<exists>a. m = Inr a \<and> f a = Inr b)"
  by (cases m) auto

lemma and_then_eq_Inl:
  "and_then m f = Inl e \<longleftrightarrow> m = Inl e \<or> (\<exists>a. m = Inr a \<and> f a = Inl e)"
  by (cases m) auto

lemma ensure_eq_Inr [result_simps]: "ensure b e = Inr u \<longleftrightarrow> b"
  by (simp add: ensure_def)

lemma ensure_eq_Inl [result_simps]: "ensure b e = Inl e' \<longleftrightarrow> \<not> b \<and> e' = e"
  by (auto simp: ensure_def)

lemma ensure_simps [simp]: "ensure True e = Inr ()" "ensure False e = Inl e"
  by (simp_all add: ensure_def)

lemma map_err_eq_Inr [result_simps]: "map_err g m = Inr a \<longleftrightarrow> m = Inr a"
  by (cases m) auto

lemma map_err_eq_Inl [result_simps]: "map_err g m = Inl e \<longleftrightarrow> (\<exists>e'. m = Inl e' \<and> e = g e')"
  by (cases m) auto

lemma ok_or_eq_Inr [result_simps]: "ok_or e x = Inr a \<longleftrightarrow> x = Some a"
  by (cases x) (auto simp: ok_or_def)

lemma ok_or_simps [simp]: "ok_or e None = Inl e" "ok_or e (Some a) = Inr a"
  by (simp_all add: ok_or_def)

lemma is_ok_iff: "is_ok m \<longleftrightarrow> (\<exists>a. m = Inr a)"
  by (cases m) auto

lemma and_then_cong [fundef_cong]:
  "m = m' \<Longrightarrow> (\<And>a. m' = Inr a \<Longrightarrow> f a = g a) \<Longrightarrow> and_then m f = and_then m' g"
  by (cases m') auto

section \<open>Results that thread a state\<close>

text \<open>A function on \<open>&mut self\<close> (or on a stream) that may fail: it returns its result together with the
  state it leaves, also when it fails. \<open>io_then\<close> is \<open>?\<close> for such functions.\<close>

named_theorems io_simps

definition io_ok :: "'a \<Rightarrow> 's \<Rightarrow> ('e + 'a) \<times> 's" where
  "io_ok a s = (Inr a, s)"

definition io_err :: "'e \<Rightarrow> 's \<Rightarrow> ('e + 'a) \<times> 's" where
  "io_err e s = (Inl e, s)"

definition io_then :: "('s \<Rightarrow> ('e + 'a) \<times> 's) \<Rightarrow> ('a \<Rightarrow> 's \<Rightarrow> ('e + 'b) \<times> 's) \<Rightarrow> 's \<Rightarrow> ('e + 'b) \<times> 's" where
  "io_then m f s = (case m s of (Inl e, s') \<Rightarrow> (Inl e, s') | (Inr a, s') \<Rightarrow> f a s')"

lemma io_ok_Inr [io_simps]: "io_ok a s = (Inr b, s') \<longleftrightarrow> b = a \<and> s' = s"
  by (auto simp: io_ok_def)

lemma io_err_Inr [io_simps]: "io_err e s = (Inr b, s') \<longleftrightarrow> False"
  by (simp add: io_err_def)

lemma io_then_Inr [io_simps]:
  "io_then m f s = (Inr b, s') \<longleftrightarrow> (\<exists>a s1. m s = (Inr a, s1) \<and> f a s1 = (Inr b, s'))"
  by (auto simp: io_then_def split: prod.splits sum.splits)

lemma refuse_Inr [io_simps]: "io_then m (\<lambda>_. io_err e) s = (Inr b, s') \<longleftrightarrow> False"
  by (auto simp: io_then_def io_err_def split: prod.splits sum.splits)

lemma checked_Inr [io_simps]:
  "(case x of Inr t \<Rightarrow> io_ok (g t) | Inl e \<Rightarrow> io_then (m e) (\<lambda>_. io_err e)) s = (Inr b, s') \<longleftrightarrow>
     (\<exists>t. x = Inr t \<and> b = g t \<and> s' = s)"
  by (cases x) (simp_all add: io_ok_Inr refuse_Inr)

section \<open>Big-endian bytes\<close>

text \<open>\<open>to_be_bytes\<close> on the low \<open>n\<close> bytes of a number, and \<open>from_be_bytes\<close>.\<close>

fun be_bytes :: "nat \<Rightarrow> nat \<Rightarrow> byte list" where
  "be_bytes 0 v = []"
| "be_bytes (Suc n) v = be_bytes n (v div 256) @ [word_of_nat v]"

definition be_nat :: "byte list \<Rightarrow> nat" where
  "be_nat bs = foldl (\<lambda>acc b. acc * 256 + unat b) 0 bs"

lemma length_be_bytes [simp]: "length (be_bytes n v) = n"
  by (induction n arbitrary: v) auto

lemma be_nat_Nil [simp]: "be_nat [] = 0"
  by (simp add: be_nat_def)

lemma be_nat_snoc [simp]: "be_nat (bs @ [b]) = be_nat bs * 256 + unat b"
  by (simp add: be_nat_def)

lemma unat_byte_less: "unat (b :: byte) < 256"
  using unat_less_pow [of b] by simp

lemma unat_word_of_nat_byte: "unat (word_of_nat v :: byte) = v mod 256"
  by (simp add: unsigned_of_nat take_bit_eq_mod)

lemma be_nat_be_bytes: "be_nat (be_bytes n v) = v mod 256 ^ n"
proof (induction n arbitrary: v)
  case 0
  then show ?case by simp
next
  case (Suc n)
  have "v mod (256 * 256 ^ n) = 256 * (v div 256 mod 256 ^ n) + v mod 256"
    by (rule mod_mult2_eq)
  with Suc show ?case by (simp add: unat_word_of_nat_byte)
qed

lemma be_nat_less: "be_nat bs < 256 ^ length bs"
proof (induction bs rule: rev_induct)
  case Nil
  then show ?case by simp
next
  case (snoc b bs)
  then show ?case using unat_byte_less [of b] by simp
qed

lemma be_bytes_be_nat: "be_bytes (length bs) (be_nat bs) = bs"
proof (induction bs rule: rev_induct)
  case Nil
  then show ?case by simp
next
  case (snoc b bs)
  have "(be_nat bs * 256 + unat b) div 256 = be_nat bs"
    using unat_byte_less [of b] by simp
  moreover have "(word_of_nat (be_nat bs * 256 + unat b) :: byte) = b"
  proof -
    have "(256 :: byte) = 0" by simp
    then have "(of_nat (be_nat bs) :: byte) * 256 = 0" by (metis mult_zero_right)
    then show ?thesis by simp
  qed
  ultimately show ?case using snoc by simp
qed

lemma be_nat_Cons: "be_nat (b # bs) = unat b * 256 ^ length bs + be_nat bs"
proof (induction bs rule: rev_induct)
  case Nil
  then show ?case by (simp add: be_nat_def)
next
  case (snoc c bs)
  have "be_nat (b # bs @ [c]) = be_nat (b # bs) * 256 + unat c"
    using be_nat_snoc [of "b # bs" c] by simp
  with snoc show ?case by (simp add: algebra_simps)
qed

definition put_u16 :: "u16 \<Rightarrow> byte list" where
  "put_u16 w = be_bytes 2 (unat w)"

definition put_u32 :: "u32 \<Rightarrow> byte list" where
  "put_u32 w = be_bytes 4 (unat w)"

definition put_u64 :: "u64 \<Rightarrow> byte list" where
  "put_u64 w = be_bytes 8 (unat w)"

definition put_u128 :: "u128 \<Rightarrow> byte list" where
  "put_u128 w = be_bytes 16 (unat w)"

definition get_u128 :: "byte list \<Rightarrow> u128" where
  "get_u128 src = word_of_nat (be_nat (take 16 src))"

definition put_b32 :: "bytes32 \<Rightarrow> byte list" where
  "put_b32 w = be_bytes 32 (unat w)"

definition get_b32 :: "byte list \<Rightarrow> bytes32" where
  "get_b32 src = word_of_nat (be_nat (take 32 src))"

definition get_u16 :: "byte list \<Rightarrow> u16" where
  "get_u16 src = word_of_nat (be_nat (take 2 src))"

definition get_u32 :: "byte list \<Rightarrow> u32" where
  "get_u32 src = word_of_nat (be_nat (take 4 src))"

definition get_u64 :: "byte list \<Rightarrow> u64" where
  "get_u64 src = word_of_nat (be_nat (take 8 src))"

lemma length_put [simp]:
  "length (put_u16 w) = 2" "length (put_u32 v) = 4" "length (put_u64 u) = 8"
  "length (put_u128 t) = 16" "length (put_b32 a) = 32"
  by (simp_all add: put_u16_def put_u32_def put_u64_def put_u128_def put_b32_def)

lemma unat_word_of_nat_be:
  assumes "length bs * 8 \<le> LENGTH('a::len)"
  shows "unat (word_of_nat (be_nat bs) :: 'a word) = be_nat bs"
proof -
  have "be_nat bs < 2 ^ (length bs * 8)"
    using be_nat_less [of bs] by (simp add: power_mult mult.commute [of _ 8])
  also have "\<dots> \<le> 2 ^ LENGTH('a)"
    using assms by (intro power_increasing) auto
  finally show ?thesis by (simp add: unsigned_of_nat take_bit_eq_mod)
qed

lemma get_put_u16 [simp]: "get_u16 (put_u16 w @ rest) = w"
  using unat_less_pow [of w] by (simp add: get_u16_def put_u16_def be_nat_be_bytes)

lemma get_put_u32 [simp]: "get_u32 (put_u32 w @ rest) = w"
  using unat_less_pow [of w] by (simp add: get_u32_def put_u32_def be_nat_be_bytes)

lemma get_put_u64 [simp]: "get_u64 (put_u64 w @ rest) = w"
  using unat_less_pow [of w] by (simp add: get_u64_def put_u64_def be_nat_be_bytes)

lemma get_put_u128 [simp]: "get_u128 (put_u128 w @ rest) = w"
  using unat_less_pow [of w] by (simp add: get_u128_def put_u128_def be_nat_be_bytes)

lemma get_put_b32 [simp]: "get_b32 (put_b32 w @ rest) = w"
  using unat_less_pow [of w] by (simp add: get_b32_def put_b32_def be_nat_be_bytes)

lemma get_put_exact [simp]:
  "get_u16 (put_u16 w) = w" "get_u32 (put_u32 v) = v" "get_u64 (put_u64 u) = u"
  "get_u128 (put_u128 t) = t" "get_b32 (put_b32 a) = a"
  using get_put_u16 [of w "[]"] get_put_u32 [of v "[]"] get_put_u64 [of u "[]"]
    get_put_u128 [of t "[]"] get_put_b32 [of a "[]"]
  by simp_all

lemma put_get_u16: "2 \<le> length src \<Longrightarrow> put_u16 (get_u16 src) = take 2 src"
  using be_bytes_be_nat [of "take 2 src"] unat_word_of_nat_be [of "take 2 src", where 'a = 16]
  by (simp add: put_u16_def get_u16_def min_absorb2)

lemma put_get_u32: "4 \<le> length src \<Longrightarrow> put_u32 (get_u32 src) = take 4 src"
  using be_bytes_be_nat [of "take 4 src"] unat_word_of_nat_be [of "take 4 src", where 'a = 32]
  by (simp add: put_u32_def get_u32_def min_absorb2)

lemma put_get_u64: "8 \<le> length src \<Longrightarrow> put_u64 (get_u64 src) = take 8 src"
  using be_bytes_be_nat [of "take 8 src"] unat_word_of_nat_be [of "take 8 src", where 'a = 64]
  by (simp add: put_u64_def get_u64_def min_absorb2)

lemma put_get_u128: "16 \<le> length src \<Longrightarrow> put_u128 (get_u128 src) = take 16 src"
  using be_bytes_be_nat [of "take 16 src"] unat_word_of_nat_be [of "take 16 src", where 'a = 128]
  by (simp add: put_u128_def get_u128_def min_absorb2)

lemma put_get_b32: "32 \<le> length src \<Longrightarrow> put_b32 (get_b32 src) = take 32 src"
  using be_bytes_be_nat [of "take 32 src"] unat_word_of_nat_be [of "take 32 src", where 'a = 256]
  by (simp add: put_b32_def get_b32_def min_absorb2)

lemma put_b32_inject [simp]: "put_b32 v = put_b32 w \<longleftrightarrow> v = w"
  by (metis append_Nil2 get_put_b32)

lemma put_u64_inject [simp]: "put_u64 v = put_u64 w \<longleftrightarrow> v = w"
  by (metis append_Nil2 get_put_u64)

lemma put_u16_inject [simp]: "put_u16 v = put_u16 w \<longleftrightarrow> v = w"
  by (metis append_Nil2 get_put_u16)

section \<open>Sizes\<close>

text \<open>
  The supported platforms have a 64-bit \<open>usize\<close>; the conversions from and to \<open>u64\<close> keep
  the failing branch of \<open>try_from\<close>. Buffer lengths are natural numbers.
\<close>

definition usize_bits :: nat where
  "usize_bits = 64"

definition usize_try_from :: "u64 \<Rightarrow> nat option" where
  "usize_try_from v = (if unat v < 2 ^ usize_bits then Some (unat v) else None)"

definition u64_try_from_len :: "nat \<Rightarrow> u64 option" where
  "u64_try_from_len n = (if n < 2 ^ 64 then Some (word_of_nat n) else None)"

lemma usize_try_from_Some [simp]: "usize_try_from v = Some (unat v)"
  using unat_less_pow [of v] by (simp add: usize_try_from_def usize_bits_def)

lemma unat_u64_of_nat: "n < 2 ^ 64 \<Longrightarrow> unat (word_of_nat n :: u64) = n"
  by (simp add: unsigned_of_nat take_bit_eq_mod)

lemma u64_try_from_len_Some:
  "u64_try_from_len n = Some v \<longleftrightarrow> unat v = n"
proof
  assume "u64_try_from_len n = Some v"
  then show "unat v = n"
    by (auto simp: u64_try_from_len_def unat_u64_of_nat split: if_splits)
next
  assume "unat v = n"
  then show "u64_try_from_len n = Some v"
    using unat_less_pow [of v] by (auto simp: u64_try_from_len_def)
qed

section \<open>Time\<close>

text \<open>Instants of the monotonic clock and durations count nanoseconds; the natural-number
  difference is \<open>saturating_duration_since\<close>.\<close>

type_synonym instant = nat
type_synonym duration = nat

definition as_secs :: "duration \<Rightarrow> nat" where
  "as_secs d = d div 1000000000"

definition from_secs :: "nat \<Rightarrow> duration" where
  "from_secs n = n * 1000000000"

section \<open>Evaluation on binary numerals\<close>

text \<open>The byte-order conversions and the size tests run on integers, so that evaluation never
  counts in successors.\<close>

fun be_bytes_int :: "nat \<Rightarrow> int \<Rightarrow> byte list" where
  "be_bytes_int 0 v = []"
| "be_bytes_int (Suc n) v = be_bytes_int n (v div 256) @ [word_of_int v]"

lemma be_bytes_int: "be_bytes n v = be_bytes_int n (int v)"
  by (induction n arbitrary: v) (simp_all add: zdiv_int)

lemma be_nat_int: "int (be_nat bs) = foldl (\<lambda>acc b. acc * 256 + uint b) 0 bs"
proof -
  have "int (foldl (\<lambda>acc b. acc * 256 + unat b) a bs) = foldl (\<lambda>acc b. acc * 256 + uint b) (int a) bs" for a
    by (induction bs arbitrary: a) simp_all
  then show ?thesis by (simp add: be_nat_def)
qed

lemma put_code [code]:
  "put_u16 w = be_bytes_int 2 (uint w)"
  "put_u32 v = be_bytes_int 4 (uint v)"
  "put_u64 u = be_bytes_int 8 (uint u)"
  "put_u128 t = be_bytes_int 16 (uint t)"
  "put_b32 a = be_bytes_int 32 (uint a)"
  by (simp_all add: put_u16_def put_u32_def put_u64_def put_u128_def put_b32_def be_bytes_int)

lemma get_code [code]:
  "get_u16 src = word_of_int (foldl (\<lambda>acc b. acc * 256 + uint b) 0 (take 2 src))"
  "get_u32 src = word_of_int (foldl (\<lambda>acc b. acc * 256 + uint b) 0 (take 4 src))"
  "get_u64 src = word_of_int (foldl (\<lambda>acc b. acc * 256 + uint b) 0 (take 8 src))"
  "get_u128 src = word_of_int (foldl (\<lambda>acc b. acc * 256 + uint b) 0 (take 16 src))"
  "get_b32 src = word_of_int (foldl (\<lambda>acc b. acc * 256 + uint b) 0 (take 32 src))"
  by (simp_all add: get_u16_def get_u32_def get_u64_def get_u128_def get_b32_def be_nat_int [symmetric])

lemma as_secs_code [code]: "as_secs d = nat (int d div 1000000000)"
  by (simp add: as_secs_def nat_div_distrib)

lemma from_secs_code [code]: "from_secs n = nat (int n * 1000000000)"
  by (simp add: from_secs_def nat_mult_distrib)

lemma usize_try_from_code [code]: "usize_try_from v = Some (unat v)"
  by simp

lemma u64_try_from_len_code [code]:
  "u64_try_from_len n = (if int n < 18446744073709551616 then Some (word_of_int (int n)) else None)"
  by (simp add: u64_try_from_len_def)

section \<open>Contracts of the wire codecs\<close>

text \<open>
  A canonical codec: decoding succeeds exactly on the encodings of acceptable values
  followed by arbitrary bytes. Round trip, uniqueness of the wire form and freedom from
  ambiguity of concatenations all follow from the one law.
\<close>

locale codec =
  fixes enc :: "'a \<Rightarrow> 'e + byte list"
    and dec :: "byte list \<Rightarrow> 'e + ('a \<times> byte list)"
    and acceptable :: "'a \<Rightarrow> bool"
  assumes dec_iff: "dec src = Inr (a, rest) \<longleftrightarrow>
      acceptable a \<and> (\<exists>bs. enc a = Inr bs \<and> src = bs @ rest)"
begin

lemma roundtrip: "enc a = Inr bs \<Longrightarrow> acceptable a \<Longrightarrow> dec (bs @ rest) = Inr (a, rest)"
  by (auto simp: dec_iff)

lemma canonical: "dec src = Inr (a, rest) \<Longrightarrow> \<exists>bs. enc a = Inr bs \<and> src = bs @ rest"
  by (auto simp: dec_iff)

lemma prefix_free:
  assumes "enc a = Inr xs" and "enc b = Inr ys" and "acceptable a" and "acceptable b"
    and "xs @ r = ys @ s"
  shows "a = b \<and> r = s"
proof -
  have "dec (xs @ r) = Inr (a, r)" and "dec (ys @ s) = Inr (b, s)"
    using assms roundtrip by blast+
  with assms(5) show ?thesis by simp
qed

lemma enc_inject: "enc a = Inr bs \<Longrightarrow> enc b = Inr bs \<Longrightarrow> acceptable a \<Longrightarrow> acceptable b \<Longrightarrow> a = b"
  using prefix_free by blast

lemma dec_length: "dec src = Inr (a, rest) \<Longrightarrow> length rest \<le> length src"
  by (auto simp: dec_iff)

end

text \<open>
  A codec that can be fed incrementally: the only error that more input can repair is
  \<open>more\<close> (\<open>Truncated\<close>). Proper prefixes of an encoding then always ask for more.
\<close>

locale stream_codec = codec enc dec acceptable
  for enc :: "'a \<Rightarrow> 'e + byte list"
    and dec :: "byte list \<Rightarrow> 'e + ('a \<times> byte list)"
    and acceptable :: "'a \<Rightarrow> bool" +
  fixes more :: 'e
  assumes error_stable: "dec src = Inl e \<Longrightarrow> e \<noteq> more \<Longrightarrow> dec (src @ xs) = Inl e"
begin

lemma success_stable: "dec src = Inr (a, rest) \<Longrightarrow> dec (src @ xs) = Inr (a, rest @ xs)"
  by (auto simp: dec_iff)

lemma prefix_needs_more:
  assumes "enc a = Inr bs" and "acceptable a" and "k < length bs"
  shows "dec (take k bs) = Inl more"
proof (cases "dec (take k bs)")
  case (Inl e)
  show ?thesis
  proof (rule ccontr)
    assume "dec (take k bs) \<noteq> Inl more"
    with Inl have "dec (take k bs @ drop k bs) = Inl e"
      using error_stable by blast
    with roundtrip [OF assms(1,2), of "[]"] show False by simp
  qed
next
  case (Inr p)
  obtain b r where "p = (b, r)" by (cases p)
  with Inr have "dec (take k bs @ drop k bs) = Inr (b, r @ drop k bs)"
    using success_stable by blast
  with roundtrip [OF assms(1,2), of "[]"] assms(3) show ?thesis by simp
qed

lemma bind_error_stable:
  assumes "and_then (dec src) g = Inl e" and "e \<noteq> more"
    and "\<And>a r. dec src = Inr (a, r) \<Longrightarrow> g (a, r) = Inl e \<Longrightarrow> f (a, r @ xs) = Inl e"
  shows "and_then (dec (src @ xs)) f = Inl e"
proof (cases "dec src")
  case (Inl e')
  with assms error_stable [of src e' xs] show ?thesis by simp
next
  case (Inr p)
  obtain a r where "p = (a, r)" by (cases p)
  with Inr assms success_stable [of src a r xs] show ?thesis by simp
qed

lemma needs_more_prefix: "dec (src @ xs) = Inl more \<Longrightarrow> dec src = Inl more"
  using error_stable [of src] success_stable [of src] by (cases "dec src") fastforce+

end

text \<open>A codec for a whole payload: trailing bytes are an error.\<close>

locale payload_codec =
  fixes penc :: "'a \<Rightarrow> 'e + byte list"
    and pdec :: "byte list \<Rightarrow> 'f + 'a"
  assumes pdec_iff: "pdec src = Inr a \<longleftrightarrow> penc a = Inr src"
begin

lemma payload_roundtrip: "penc a = Inr bs \<Longrightarrow> pdec bs = Inr a"
  by (simp add: pdec_iff)

lemma payload_canonical: "pdec xs = Inr a \<Longrightarrow> pdec ys = Inr a \<Longrightarrow> xs = ys"
  by (simp add: pdec_iff)

lemma payload_inject: "penc a = Inr bs \<Longrightarrow> penc b = Inr bs \<Longrightarrow> a = b"
  by (metis Inr_inject pdec_iff)

lemma payload_no_trailing:
  assumes "penc a = Inr bs" and "rest \<noteq> []"
  shows "pdec (bs @ rest) \<noteq> Inr a"
  using assms by (simp add: pdec_iff)

end

end
