(* ===== verification/Varint.thy ===== *)
theory Varint
  imports UK_Prelude
begin

text \<open>
  \<open>crates/uk-proto/src/error.rs\<close>, \<open>varint.rs\<close> and \<open>flow.rs\<close>: the protocol errors, the
  QUIC-style variable-length integer with its strict (minimal) decoder, and the flow id
  classification. The main fact is that decoding succeeds exactly on the shortest
  encoding, so that a value has one wire form.
\<close>

section \<open>Protocol errors\<close>

datatype protocol_error =
    UnsupportedVersion u8
  | UnsupportedFlag u16
  | OversizedFrame u64 u64
  | Truncated
  | InvalidVarint
  | InvalidTarget string
  | UnknownFrameType u8
  | InvalidFrame string
  | InvalidSettings string
  | InvalidTcpPayload string
  | InvalidUdpPayload string
  | InvalidErrorPayload string

section \<open>Variable-length integers\<close>

definition MAX_VARINT :: u64 where
  "MAX_VARINT = push_bit 62 1 - 1"

definition encoded_len :: "u64 \<Rightarrow> protocol_error + nat" where
  "encoded_len value =
     (if value \<le> 63 then Inr 1
      else if value \<le> 16383 then Inr 2
      else if value \<le> 1073741823 then Inr 4
      else if value \<le> MAX_VARINT then Inr 8
      else Inl InvalidVarint)"

definition varint_encode :: "u64 \<Rightarrow> protocol_error + byte list" where
  "varint_encode value = and_then (encoded_len value) (\<lambda>len.
     if len = 1 then Inr [ucast value]
     else if len = 2 then Inr (put_u16 (ucast value OR 0x4000))
     else if len = 4 then Inr (put_u32 (ucast value OR 0x80000000))
     else Inr (put_u64 (value OR 0xc000000000000000)))"

definition varint_decode :: "byte list \<Rightarrow> protocol_error + (u64 \<times> byte list)" where
  "varint_decode src =
     (if src = [] then Inl Truncated
      else let first = hd src;
               len = push_bit (unat (drop_bit 6 first)) (1 :: nat)
           in if length src < len then Inl Truncated
              else let value =
                         (if len = 1 then ucast (hd src AND 0x3f)
                          else if len = 2 then ucast (get_u16 src AND 0x3fff)
                          else if len = 4 then ucast (get_u32 src AND 0x3fffffff)
                          else get_u64 src AND 0x3fffffffffffffff)
                   in and_then (encoded_len value) (\<lambda>n.
                        if n \<noteq> len then Inl InvalidVarint else Inr (value, drop len src)))"

section \<open>Flow ids\<close>

definition FIRST_CLIENT_FLOW_ID :: u64 where
  "FIRST_CLIENT_FLOW_ID = 1"

definition FLOW_ID_STEP :: u64 where
  "FLOW_ID_STEP = 2"

definition is_client_initiated_flow_id :: "u64 \<Rightarrow> bool" where
  "is_client_initiated_flow_id flow_id \<longleftrightarrow> flow_id \<noteq> 0 \<and> flow_id \<le> MAX_VARINT \<and> flow_id mod 2 = 1"

definition is_server_initiated_flow_id :: "u64 \<Rightarrow> bool" where
  "is_server_initiated_flow_id flow_id \<longleftrightarrow> flow_id \<noteq> 0 \<and> flow_id \<le> MAX_VARINT \<and> flow_id mod 2 = 0"

section \<open>The encoder and the decoder as arithmetic\<close>

lemma MAX_VARINT_eq: "MAX_VARINT = 4611686018427387903"
  by (simp add: MAX_VARINT_def push_bit_eq_mult)

lemma encoded_len_cases:
  "encoded_len v = Inr n \<Longrightarrow>
     n = 1 \<and> unat v < 2 ^ 6 \<or> n = 2 \<and> 2 ^ 6 \<le> unat v \<and> unat v < 2 ^ 14
     \<or> n = 4 \<and> 2 ^ 14 \<le> unat v \<and> unat v < 2 ^ 30
     \<or> n = 8 \<and> 2 ^ 30 \<le> unat v \<and> unat v < 2 ^ 62"
  by (auto simp: encoded_len_def MAX_VARINT_eq word_le_nat_alt split: if_splits)

lemma encoded_len_Inr_iff: "(\<exists>n. encoded_len v = Inr n) \<longleftrightarrow> unat v < 2 ^ 62"
  by (auto simp: encoded_len_def MAX_VARINT_eq word_le_nat_alt)

lemma encoded_len_eq_Inl: "encoded_len v = Inl e \<longleftrightarrow> e = InvalidVarint \<and> 2 ^ 62 \<le> unat v"
  by (auto simp: encoded_len_def MAX_VARINT_eq word_le_nat_alt)

text \<open>The width class of an encoding: \<open>0 \<dots> 3\<close> for 1, 2, 4 and 8 bytes.\<close>

definition width_class :: "nat \<Rightarrow> nat" where
  "width_class len = (if len = 1 then 0 else if len = 2 then 1 else if len = 4 then 2 else 3)"

lemma or_high_bits:
  fixes v :: "'a::len word"
  assumes "unat v < 2 ^ k" and "k < LENGTH('a)" and "c < 2 ^ (LENGTH('a) - k)"
  shows "unat (v OR word_of_nat (c * 2 ^ k)) = unat v + c * 2 ^ k"
proof -
  have p: "word_of_nat (c * 2 ^ k) = push_bit k (word_of_nat c :: 'a word)"
    by (simp add: push_bit_eq_mult)
  have "v AND push_bit k (word_of_nat c) = 0"
  proof (rule bit_word_eqI)
    fix n
    assume "n < LENGTH('a)"
    have "\<not> bit v n" if "k \<le> n"
    proof -
      have "unat v < 2 ^ n"
        using assms(1) that by (meson order_less_le_trans one_le_numeral power_increasing)
      then have "\<not> bit (unat v) n" by (simp add: bit_nat_def)
      then show ?thesis by (simp add: bit_unsigned_iff bit_imp_le_length)
    qed
    then show "bit (v AND push_bit k (word_of_nat c)) n \<longleftrightarrow> bit (0 :: 'a word) n"
      by (auto simp: bit_and_iff bit_push_bit_iff)
  qed
  then have "v OR word_of_nat (c * 2 ^ k) = v + word_of_nat (c * 2 ^ k)"
    unfolding p by (rule disjunctive_add_eq_or [symmetric])
  moreover have "unat v + c * 2 ^ k < 2 ^ LENGTH('a)"
  proof -
    have "unat v + c * 2 ^ k < (c + 1) * 2 ^ k" using assms(1) by simp
    also have "\<dots> \<le> 2 ^ (LENGTH('a) - k) * 2 ^ k"
      using assms(3) by (intro mult_right_mono) auto
    also have "\<dots> = 2 ^ LENGTH('a)"
      using assms(2) by (simp flip: power_add)
    finally show ?thesis .
  qed
  moreover have "v + word_of_nat (c * 2 ^ k) = word_of_nat (unat v + c * 2 ^ k)"
    by simp
  ultimately show ?thesis
    by (simp only: unsigned_of_nat take_bit_eq_mod mod_less of_nat_id)
qed

lemma unat_ucast_small:
  "unat (v :: u64) < 2 ^ LENGTH('a) \<Longrightarrow> unat (ucast v :: 'a::len word) = unat v"
  by (simp add: unsigned_ucast_eq take_bit_eq_mod)

lemma varint_encode_eq:
  assumes "encoded_len v = Inr n"
  shows "varint_encode v = Inr (be_bytes n (unat v + width_class n * 2 ^ (8 * n - 2)))"
proof -
  consider "n = 1" "unat v < 2 ^ 6" | "n = 2" "unat v < 2 ^ 14" | "n = 4" "unat v < 2 ^ 30"
    | "n = 8" "unat v < 2 ^ 62"
    using encoded_len_cases [OF assms] by blast
  then show ?thesis
  proof cases
    case 1
    have "(word_of_nat (unat v) :: byte) = ucast v" by simp
    with 1 assms show ?thesis by (simp add: varint_encode_def width_class_def)
  next
    case 2
    have "unat ((ucast v :: u16) OR 0x4000) = unat v + 1 * 2 ^ 14"
      using or_high_bits [of "ucast v :: u16" 14 1] unat_ucast_small [of v, where 'a = 16] 2 by simp
    with 2 assms show ?thesis by (simp add: varint_encode_def width_class_def put_u16_def)
  next
    case 3
    have "unat ((ucast v :: u32) OR 0x80000000) = unat v + 2 * 2 ^ 30"
      using or_high_bits [of "ucast v :: u32" 30 2] unat_ucast_small [of v, where 'a = 32] 3 by simp
    with 3 assms show ?thesis by (simp add: varint_encode_def width_class_def put_u32_def)
  next
    case 4
    have "unat (v OR 0xc000000000000000) = unat v + 3 * 2 ^ 62"
      using or_high_bits [of v 62 3] 4 by simp
    with 4 assms show ?thesis by (simp add: varint_encode_def width_class_def put_u64_def)
  qed
qed

lemma varint_encode_Inr_iff:
  "varint_encode v = Inr bs \<longleftrightarrow>
     (\<exists>n. encoded_len v = Inr n \<and> bs = be_bytes n (unat v + width_class n * 2 ^ (8 * n - 2)))"
proof (cases "encoded_len v")
  case (Inl e)
  then show ?thesis by (simp add: varint_encode_def)
next
  case (Inr n)
  then show ?thesis by (auto simp: varint_encode_eq)
qed

lemma varint_encode_length: "varint_encode v = Inr bs \<Longrightarrow> encoded_len v = Inr (length bs)"
  by (auto simp: varint_encode_Inr_iff)

text \<open>The prefix of a buffer selects the width, the rest of its leading bytes the value.\<close>

definition varint_width :: "byte \<Rightarrow> nat" where
  "varint_width first = push_bit (unat (drop_bit 6 first)) 1"

definition varint_value :: "nat \<Rightarrow> byte list \<Rightarrow> u64" where
  "varint_value len src =
     (if len = 1 then ucast (hd src AND 0x3f)
      else if len = 2 then ucast (get_u16 src AND 0x3fff)
      else if len = 4 then ucast (get_u32 src AND 0x3fffffff)
      else get_u64 src AND 0x3fffffffffffffff)"

lemma varint_decode_alt:
  "varint_decode src =
     (if src = [] \<or> length src < varint_width (hd src) then Inl Truncated
      else let len = varint_width (hd src); value = varint_value len src
           in and_then (encoded_len value) (\<lambda>n.
                if n \<noteq> len then Inl InvalidVarint else Inr (value, drop len src)))"
  by (auto simp: varint_decode_def varint_width_def varint_value_def Let_def)

lemma varint_width_cases:
  "varint_width b = 1 \<and> unat b div 64 = 0 \<or> varint_width b = 2 \<and> unat b div 64 = 1
   \<or> varint_width b = 4 \<and> unat b div 64 = 2 \<or> varint_width b = 8 \<and> unat b div 64 = 3"
proof -
  have "unat (drop_bit 6 b) = unat b div 64"
    by (simp add: drop_bit_eq_div unat_div)
  moreover have "unat b div 64 = 0 \<or> unat b div 64 = 1 \<or> unat b div 64 = 2 \<or> unat b div 64 = 3"
    using unat_byte_less [of b] by linarith
  ultimately show ?thesis
    by (elim disjE) (simp_all add: varint_width_def push_bit_eq_mult)
qed

lemma unat_take_bit_mod: "unat (take_bit k w) = unat w mod 2 ^ k"
  by (subst unsigned_take_bit_eq) (rule take_bit_eq_mod)

lemma unat_ucast_u64: "LENGTH('a::len) \<le> 64 \<Longrightarrow> unat (ucast (x :: 'a word) :: u64) = unat x"
proof -
  assume "LENGTH('a) \<le> 64"
  then have "(2 :: nat) ^ LENGTH('a) \<le> 2 ^ 64" by (intro power_increasing) auto
  with unat_less_pow [of x] have "unat x < 2 ^ 64" by linarith
  then show ?thesis by (simp add: unsigned_ucast_eq take_bit_nat_eq_self)
qed

lemma varint_value_nat:
  assumes "L = 1 \<or> L = 2 \<or> L = 4 \<or> L = 8" and "L \<le> length src" and "src \<noteq> []"
  shows "unat (varint_value L src) = be_nat (take L src) mod 2 ^ (8 * L - 2)"
proof -
  have m: "w AND 0x3f = take_bit 6 w" "x AND 0x3fff = take_bit 14 x"
    "y AND 0x3fffffff = take_bit 30 y" "z AND 0x3fffffffffffffff = take_bit 62 z"
    for w :: byte and x :: u16 and y :: u32 and z :: u64
    by (simp_all add: take_bit_eq_mask mask_eq_exp_minus_1)
  have "be_nat (take 1 src) = unat (hd src)"
    using assms(3) by (cases src) (simp_all add: be_nat_Cons)
  moreover have "unat (get_u16 src) = be_nat (take 2 src)" "unat (get_u32 src) = be_nat (take 4 src)"
    "unat (get_u64 src) = be_nat (take 8 src)"
    by (simp_all add: get_u16_def get_u32_def get_u64_def unat_word_of_nat_be)
  ultimately show ?thesis
    using assms(1)
    by (elim disjE)
      (simp_all add: varint_value_def m unat_ucast_u64 unat_take_bit_mod)
qed

lemma be_nat_top:
  assumes "0 < L" and "L \<le> Suc (length bs)"
  shows "be_nat (take L (b # bs)) div 2 ^ (8 * L - 2) = unat b div 64"
proof -
  define r where "r = be_nat (take (L - 1) bs)"
  have r: "r < 256 ^ (L - 1)"
    using be_nat_less [of "take (L - 1) bs"] assms by (simp add: r_def min_absorb2)
  have n: "be_nat (take L (b # bs)) = unat b * 256 ^ (L - 1) + r"
    using assms by (cases L) (auto simp: r_def be_nat_Cons min_absorb2)
  have "8 * L - 2 = 8 * (L - 1) + 6" using assms(1) by simp
  then have "2 ^ (8 * L - 2) = 256 ^ (L - 1) * (64 :: nat)"
    by (simp only: power_add power_mult) simp
  then show ?thesis
    using r by (simp add: n div_mult2_eq)
qed

lemma width_class_eq_iff:
  "L = 1 \<or> L = 2 \<or> L = 4 \<or> L = 8 \<Longrightarrow> varint_width b = L \<longleftrightarrow> unat b div 64 = width_class L"
  using varint_width_cases [of b] by (auto simp: width_class_def)

lemma varint_width_iff:
  assumes "L = 1 \<or> L = 2 \<or> L = 4 \<or> L = 8" and "src \<noteq> []" and "L \<le> length src"
  shows "varint_width (hd src) = L \<longleftrightarrow> be_nat (take L src) div 2 ^ (8 * L - 2) = width_class L"
proof -
  obtain b bs where src: "src = b # bs" using assms(2) by (cases src) auto
  have "0 < L" using assms(1) by auto
  then have "be_nat (take L src) div 2 ^ (8 * L - 2) = unat b div 64"
    using be_nat_top [of L bs b] assms(3) unfolding src by simp
  then show ?thesis
    by (simp only: src list.sel width_class_eq_iff [OF assms(1)])
qed

text \<open>Decoding succeeds exactly on the (shortest) encoding followed by anything.\<close>

lemma varint_decode_iff:
  "varint_decode src = Inr (v, rest) \<longleftrightarrow> (\<exists>bs. varint_encode v = Inr bs \<and> src = bs @ rest)"
proof
  assume d: "varint_decode src = Inr (v, rest)"
  define L where "L = varint_width (hd src)"
  from d have src: "src \<noteq> []" "L \<le> length src" and v: "v = varint_value L src"
    and len: "encoded_len v = Inr L" and rest: "rest = drop L src"
    by (auto simp: varint_decode_alt L_def Let_def result_simps split: if_splits)
  have L: "L = 1 \<or> L = 2 \<or> L = 4 \<or> L = 8"
    using varint_width_cases [of "hd src"] L_def by auto
  have "be_nat (take L src) = unat v + width_class L * 2 ^ (8 * L - 2)"
    using varint_value_nat [OF L src(2,1)] varint_width_iff [OF L src] v L_def
    by (metis add.commute div_mult_mod_eq)
  moreover have "be_bytes L (be_nat (take L src)) = take L src"
    using be_bytes_be_nat [of "take L src"] src(2) by (simp add: min_absorb2)
  ultimately have "varint_encode v = Inr (take L src)"
    using varint_encode_eq [OF len] by simp
  then show "\<exists>bs. varint_encode v = Inr bs \<and> src = bs @ rest"
    using rest by auto
next
  assume "\<exists>bs. varint_encode v = Inr bs \<and> src = bs @ rest"
  then obtain n where len: "encoded_len v = Inr n"
    and src: "src = be_bytes n (unat v + width_class n * 2 ^ (8 * n - 2)) @ rest"
    by (auto simp: varint_encode_Inr_iff)
  have n: "n = 1 \<or> n = 2 \<or> n = 4 \<or> n = 8" and lt: "unat v < 2 ^ (8 * n - 2)"
    using encoded_len_cases [OF len] by auto
  have ne: "src \<noteq> []" and ln: "n \<le> length src"
    using n src by (auto simp flip: length_greater_0_conv)
  have bn: "be_nat (take n src) = unat v + width_class n * 2 ^ (8 * n - 2)"
  proof -
    have "unat v + width_class n * 2 ^ (8 * n - 2) < 256 ^ n"
      using n lt by (auto simp: width_class_def)
    then show ?thesis using src by (simp add: be_nat_be_bytes)
  qed
  have w: "varint_width (hd src) = n"
    using lt by (simp add: varint_width_iff [OF n ne ln] bn)
  have "unat (varint_value n src) = unat v"
    using lt by (simp add: varint_value_nat [OF n ln ne] bn)
  then have "varint_value n src = v"
    by (rule unsigned_word_eqI)
  then show "varint_decode src = Inr (v, rest)"
    using ne ln w len src by (simp add: varint_decode_alt Let_def)
qed

lemma varint_decode_error: "varint_decode src = Inl e \<Longrightarrow> e = Truncated \<or> e = InvalidVarint"
  by (auto simp: varint_decode_alt Let_def and_then_eq_Inl encoded_len_eq_Inl split: if_splits)

lemma varint_value_append: "len \<le> length src \<Longrightarrow> src \<noteq> [] \<Longrightarrow>
    len = 1 \<or> len = 2 \<or> len = 4 \<or> len = 8 \<Longrightarrow> varint_value len (src @ xs) = varint_value len src"
  by (auto simp: varint_value_def get_u16_def get_u32_def get_u64_def)

lemma varint_error_stable:
  assumes "varint_decode src = Inl e" and "e \<noteq> Truncated"
  shows "varint_decode (src @ xs) = Inl e"
proof -
  define L where "L = varint_width (hd src)"
  have L: "L = 1 \<or> L = 2 \<or> L = 4 \<or> L = 8"
    using varint_width_cases [of "hd src"] L_def by auto
  from assms have "src \<noteq> []" "L \<le> length src"
    by (auto simp: varint_decode_alt L_def split: if_splits)
  with assms(1) varint_value_append [OF _ _ L, of src xs] show ?thesis
    by (simp add: varint_decode_alt L_def Let_def and_then_eq_Inl split: if_splits) auto
qed

interpretation varint: stream_codec varint_encode varint_decode "\<lambda>_. True" Truncated
  by unfold_locales (simp_all add: varint_decode_iff varint_error_stable)

section \<open>Properties\<close>

text \<open>C14: A variable-length integer has exactly one wire form: decoding a buffer yields \<open>v\<close> and
  leaves \<open>rest\<close> exactly when the buffer is the encoding of \<open>v\<close> followed by \<open>rest\<close>, so an
  over-long form is never accepted. That encoding exists for the values below \<open>2 ^ 62\<close>, and its
  length is the least of 1, 2, 4 and 8 bytes with room for the value beside the two tag bits.\<close>

theorem varint_wire_form:
  "(varint_decode src = Inr (v, rest) \<longleftrightarrow> (\<exists>bs. varint_encode v = Inr bs \<and> src = bs @ rest)) \<and>
   ((\<exists>bs. varint_encode v = Inr bs) \<longleftrightarrow> unat v < 2 ^ 62) \<and>
   (varint_encode v = Inr bs \<longrightarrow>
      length bs = (if unat v < 2 ^ 6 then 1 else if unat v < 2 ^ 14 then 2
                   else if unat v < 2 ^ 30 then 4 else 8))"
proof (intro conjI impI)
  show "(\<exists>bs. varint_encode v = Inr bs) \<longleftrightarrow> unat v < 2 ^ 62"
    using encoded_len_Inr_iff [of v] by (auto simp: varint_encode_Inr_iff)
next
  assume "varint_encode v = Inr bs"
  from encoded_len_cases [OF varint_encode_length [OF this]]
  show "length bs = (if unat v < 2 ^ 6 then 1 else if unat v < 2 ^ 14 then 2
      else if unat v < 2 ^ 30 then 4 else 8)" by auto
qed (simp add: varint.dec_iff)

theorem varint_wire_form_witness:
  "varint_encode 15293 = Inr [0x7b, 0xbd] \<and> length [0x7b :: byte, 0xbd] = 2"
proof -
  have "varint_encode 15293 = Inr [0x7b, 0xbd]" by code_simp
  with varint_wire_form [of "[]" 15293 "[]" "[0x7b, 0xbd]"] show ?thesis by simp
qed

end
