(* ===== verification/Frame.thy ===== *)
theory Frame
  imports Varint
begin

text \<open>
  \<open>crates/uk-proto/src/frame.rs\<close>: frame types, the frame header and complete frames.
  Decoding under a frame limit succeeds exactly on the encodings of frames within the
  limit, and the only error that further bytes can repair is \<open>Truncated\<close>.
\<close>

section \<open>Frame types and flags\<close>

definition VERSION :: u8 where
  "VERSION = 1"

definition REQUIRED_FLAG_MASK :: u16 where
  "REQUIRED_FLAG_MASK = 0xff00"

definition DEFAULT_MAX_FRAME_SIZE :: u64 where
  "DEFAULT_MAX_FRAME_SIZE = 65536"

definition MAX_FRAME_PAYLOAD_SIZE :: u64 where
  "MAX_FRAME_PAYLOAD_SIZE = 16 * 1024 * 1024"

record frame_limits =
  max_frame_size :: u64

definition default_frame_limits :: frame_limits where
  "default_frame_limits = \<lparr>max_frame_size = DEFAULT_MAX_FRAME_SIZE\<rparr>"

datatype frame_type =
    FT_AuthChallenge | FT_AuthResponse | FT_Settings | FT_Ping | FT_Pong
  | FT_TcpOpen | FT_TcpData | FT_TcpClose
  | FT_UdpOpen | FT_UdpData | FT_UdpClose
  | FT_Error | FT_PolicyDenied | FT_ResourceLimit

fun frame_type_code :: "frame_type \<Rightarrow> u8" where
  "frame_type_code FT_AuthChallenge = 0x01"
| "frame_type_code FT_AuthResponse = 0x02"
| "frame_type_code FT_Settings = 0x03"
| "frame_type_code FT_Ping = 0x04"
| "frame_type_code FT_Pong = 0x05"
| "frame_type_code FT_TcpOpen = 0x10"
| "frame_type_code FT_TcpData = 0x11"
| "frame_type_code FT_TcpClose = 0x12"
| "frame_type_code FT_UdpOpen = 0x20"
| "frame_type_code FT_UdpData = 0x21"
| "frame_type_code FT_UdpClose = 0x22"
| "frame_type_code FT_Error = 0x30"
| "frame_type_code FT_PolicyDenied = 0x31"
| "frame_type_code FT_ResourceLimit = 0x32"

definition frame_type_try_from :: "u8 \<Rightarrow> protocol_error + frame_type" where
  "frame_type_try_from value =
     (if value = 0x01 then Inr FT_AuthChallenge
      else if value = 0x02 then Inr FT_AuthResponse
      else if value = 0x03 then Inr FT_Settings
      else if value = 0x04 then Inr FT_Ping
      else if value = 0x05 then Inr FT_Pong
      else if value = 0x10 then Inr FT_TcpOpen
      else if value = 0x11 then Inr FT_TcpData
      else if value = 0x12 then Inr FT_TcpClose
      else if value = 0x20 then Inr FT_UdpOpen
      else if value = 0x21 then Inr FT_UdpData
      else if value = 0x22 then Inr FT_UdpClose
      else if value = 0x30 then Inr FT_Error
      else if value = 0x31 then Inr FT_PolicyDenied
      else if value = 0x32 then Inr FT_ResourceLimit
      else Inl (UnknownFrameType value))"

definition validate_flags :: "u16 \<Rightarrow> protocol_error + unit" where
  "validate_flags flags =
     (let required = flags AND REQUIRED_FLAG_MASK
      in if required = 0 then Inr () else Inl (UnsupportedFlag required))"

section \<open>Frame headers\<close>

record frame_header =
  fh_version :: u8
  fh_frame_type :: frame_type
  fh_flags :: u16
  fh_id :: u64
  fh_length :: u64

definition MAX_ENCODED_LEN :: nat where
  "MAX_ENCODED_LEN = 1 + 1 + 2 + 8 + 8"

definition frame_header_new :: "frame_type \<Rightarrow> u16 \<Rightarrow> u64 \<Rightarrow> u64 \<Rightarrow> protocol_error + frame_header" where
  "frame_header_new frame_type flags fid len =
     and_then (validate_flags flags) (\<lambda>_.
     and_then (encoded_len fid) (\<lambda>_.
     and_then (encoded_len len) (\<lambda>_.
     Inr \<lparr>fh_version = VERSION, fh_frame_type = frame_type, fh_flags = flags,
          fh_id = fid, fh_length = len\<rparr>)))"

definition frame_header_encode :: "frame_header \<Rightarrow> protocol_error + byte list" where
  "frame_header_encode h =
     (if fh_version h \<noteq> VERSION then Inl (UnsupportedVersion (fh_version h))
      else and_then (validate_flags (fh_flags h)) (\<lambda>_.
           and_then (varint_encode (fh_id h)) (\<lambda>id_bytes.
           and_then (varint_encode (fh_length h)) (\<lambda>length_bytes.
           Inr ([fh_version h, frame_type_code (fh_frame_type h)] @ put_u16 (fh_flags h)
                @ id_bytes @ length_bytes)))))"

definition frame_header_decode ::
    "frame_limits \<Rightarrow> byte list \<Rightarrow> protocol_error + (frame_header \<times> byte list)" where
  "frame_header_decode limits src =
     (if length src < 4 then Inl Truncated
      else let version = src ! 0
           in if version \<noteq> VERSION then Inl (UnsupportedVersion version)
              else and_then (frame_type_try_from (src ! 1)) (\<lambda>frame_type.
                   let flags = get_u16 (drop 2 src)
                   in and_then (validate_flags flags) (\<lambda>_.
                      and_then (varint_decode (drop 4 src)) (\<lambda>(fid, src).
                      and_then (varint_decode src) (\<lambda>(len, src).
                      if max_frame_size limits < len
                      then Inl (OversizedFrame len (max_frame_size limits))
                      else Inr (\<lparr>fh_version = version, fh_frame_type = frame_type,
                                 fh_flags = flags, fh_id = fid, fh_length = len\<rparr>, src))))))"

section \<open>Frames\<close>

record frame =
  fr_header :: frame_header
  fr_payload :: "byte list"

definition frame_new :: "frame_type \<Rightarrow> u16 \<Rightarrow> u64 \<Rightarrow> byte list \<Rightarrow> protocol_error + frame" where
  "frame_new frame_type flags fid payload =
     and_then (ok_or InvalidVarint (u64_try_from_len (length payload))) (\<lambda>len.
     and_then (frame_header_new frame_type flags fid len) (\<lambda>header.
     Inr \<lparr>fr_header = header, fr_payload = payload\<rparr>))"

definition frame_encode_into :: "frame \<Rightarrow> protocol_error + byte list" where
  "frame_encode_into f =
     and_then (ok_or InvalidVarint (u64_try_from_len (length (fr_payload f)))) (\<lambda>payload_len.
     if fh_length (fr_header f) \<noteq> payload_len
     then Inl (InvalidFrame ''frame header length does not match payload length'')
     else and_then (frame_header_encode (fr_header f)) (\<lambda>header_bytes.
          Inr (header_bytes @ fr_payload f)))"

definition frame_encode :: "frame \<Rightarrow> protocol_error + byte list" where
  "frame_encode f = frame_encode_into f"

definition frame_decode :: "frame_limits \<Rightarrow> byte list \<Rightarrow> protocol_error + (frame \<times> byte list)" where
  "frame_decode limits src =
     and_then (frame_header_decode limits src) (\<lambda>(header, src).
     and_then (ok_or InvalidVarint (usize_try_from (fh_length header))) (\<lambda>len.
     if length src < len then Inl Truncated
     else Inr (\<lparr>fr_header = header, fr_payload = take len src\<rparr>, drop len src)))"

definition validate_connection_frame :: "frame \<Rightarrow> frame_type \<Rightarrow> protocol_error + unit" where
  "validate_connection_frame f expected_type =
     (if fh_frame_type (fr_header f) \<noteq> expected_type
      then Inl (InvalidFrame ''unexpected connection frame type'')
      else if fh_id (fr_header f) \<noteq> 0
      then Inl (InvalidFrame ''connection frame id must be zero'')
      else Inr ())"

section \<open>Header codec\<close>

lemma frame_type_try_from_iff: "frame_type_try_from b = Inr t \<longleftrightarrow> b = frame_type_code t"
  by (cases t) (auto simp: frame_type_try_from_def)

lemma frame_type_try_from_code [simp]: "frame_type_try_from (frame_type_code t) = Inr t"
  by (simp add: frame_type_try_from_iff)

lemma frame_header_decode_iff:
  "frame_header_decode limits src = Inr (h, rest) \<longleftrightarrow>
     fh_length h \<le> max_frame_size limits \<and> (\<exists>bs. frame_header_encode h = Inr bs \<and> src = bs @ rest)"
proof
  assume "frame_header_decode limits src = Inr (h, rest)"
  then obtain r1 where l: "4 \<le> length src" and h: "src ! 0 = fh_version h" "fh_version h = VERSION"
      "src ! 1 = frame_type_code (fh_frame_type h)" "fh_flags h = get_u16 (drop 2 src)"
      "validate_flags (fh_flags h) = Inr ()"
    and d: "varint_decode (drop 4 src) = Inr (fh_id h, r1)"
      "varint_decode r1 = Inr (fh_length h, rest)"
    and lim: "fh_length h \<le> max_frame_size limits"
    by (auto simp: frame_header_decode_def Let_def result_simps frame_type_try_from_iff
        split: if_splits)
  from d obtain xs ys where v: "varint_encode (fh_id h) = Inr xs" "varint_encode (fh_length h) = Inr ys"
    and split: "drop 4 src = xs @ ys @ rest"
    by (auto simp: varint.dec_iff)
  have "src = take 2 src @ take 2 (drop 2 src) @ drop 4 src"
    by (metis append_take_drop_id drop_drop numeral_plus_numeral semiring_norm(2) add_num_simps)
  moreover have "take 2 src = [src ! 0, src ! 1]"
    using l by (cases src; cases "tl src") auto
  moreover have "take 2 (drop 2 src) = put_u16 (fh_flags h)"
    using l by (simp add: h(4) put_get_u16)
  ultimately have "src = [fh_version h, frame_type_code (fh_frame_type h)] @ put_u16 (fh_flags h)
      @ (xs @ ys) @ rest"
    using split h(1,3) by simp
  then show "fh_length h \<le> max_frame_size limits \<and>
      (\<exists>bs. frame_header_encode h = Inr bs \<and> src = bs @ rest)"
    using lim v h(2,5) by (auto simp: frame_header_encode_def)
next
  assume "fh_length h \<le> max_frame_size limits \<and>
      (\<exists>bs. frame_header_encode h = Inr bs \<and> src = bs @ rest)"
  then obtain xs ys where v: "varint_encode (fh_id h) = Inr xs" "varint_encode (fh_length h) = Inr ys"
    and h: "fh_version h = VERSION" "validate_flags (fh_flags h) = Inr ()"
    and lim: "fh_length h \<le> max_frame_size limits"
    and src: "src = [VERSION, frame_type_code (fh_frame_type h)] @ put_u16 (fh_flags h) @ xs @ ys @ rest"
    by (auto simp: frame_header_encode_def result_simps split: if_splits)
  have "4 \<le> length src" and "drop 2 src = put_u16 (fh_flags h) @ xs @ ys @ rest"
    and "drop 4 src = xs @ ys @ rest" and "src ! 0 = VERSION"
    and "src ! 1 = frame_type_code (fh_frame_type h)"
    by (simp_all add: src)
  then show "frame_header_decode limits src = Inr (h, rest)"
    using h lim varint.roundtrip [OF v(1)] varint.roundtrip [OF v(2)]
    by (simp add: frame_header_decode_def Let_def)
qed

lemma frame_header_error_stable:
  assumes "frame_header_decode limits src = Inl e" and "e \<noteq> Truncated"
  shows "frame_header_decode limits (src @ xs) = Inl e"
proof -
  from assms have l: "4 \<le> length src"
    by (auto simp: frame_header_decode_def split: if_splits)
  then obtain a b c d r where src: "src = a # b # c # d # r"
    by (auto simp: numeral_eq_Suc Suc_le_length_iff)
  have flags: "get_u16 (c # d # r @ xs) = get_u16 (c # d # r)"
    by (simp add: get_u16_def)
  from assms show ?thesis
    by (auto simp: frame_header_decode_def src flags Let_def and_then_eq_Inl [of "frame_type_try_from b"]
        and_then_eq_Inl [of "validate_flags _"] split: if_splits
        elim!: varint.bind_error_stable)
qed

interpretation header: stream_codec frame_header_encode "frame_header_decode limits"
  "\<lambda>h. fh_length h \<le> max_frame_size limits" Truncated
  by unfold_locales (simp_all add: frame_header_decode_iff frame_header_error_stable)

lemma frame_header_encode_length:
  "frame_header_encode h = Inr bs \<Longrightarrow> 6 \<le> length bs \<and> length bs \<le> MAX_ENCODED_LEN"
  by (auto simp: frame_header_encode_def result_simps MAX_ENCODED_LEN_def
      dest!: varint_encode_length encoded_len_cases split: if_splits)

section \<open>Frame codec\<close>

lemma frame_decode_iff:
  "frame_decode limits src = Inr (f, rest) \<longleftrightarrow>
     fh_length (fr_header f) \<le> max_frame_size limits \<and> (\<exists>bs. frame_encode f = Inr bs \<and> src = bs @ rest)"
  (is "?d \<longleftrightarrow> ?e")
proof
  assume ?d
  then obtain r where h: "frame_header_decode limits src = Inr (fr_header f, r)"
    and r: "r = fr_payload f @ rest" "length (fr_payload f) = unat (fh_length (fr_header f))"
    by (auto simp: frame_decode_def result_simps split: if_splits)
  then show ?e
    by (auto simp: header.dec_iff frame_encode_def frame_encode_into_def result_simps
        u64_try_from_len_Some [THEN iffD2])
next
  assume ?e
  then obtain bs where "frame_header_encode (fr_header f) = Inr bs"
    and "fh_length (fr_header f) \<le> max_frame_size limits" and "src = bs @ fr_payload f @ rest"
    and len: "unat (fh_length (fr_header f)) = length (fr_payload f)"
    by (auto simp: frame_encode_def frame_encode_into_def result_simps u64_try_from_len_Some
        split: if_splits)
  then have "frame_header_decode limits src = Inr (fr_header f, fr_payload f @ rest)"
    by (auto simp: header.dec_iff)
  with len show ?d by (simp add: frame_decode_def)
qed

lemma frame_error_stable:
  assumes "frame_decode limits src = Inl e" and "e \<noteq> Truncated"
  shows "frame_decode limits (src @ xs) = Inl e"
  using assms header.error_stable header.success_stable
  by (auto simp: frame_decode_def and_then_eq_Inl split: if_splits)

interpretation frame: stream_codec frame_encode "frame_decode limits"
  "\<lambda>f. fh_length (fr_header f) \<le> max_frame_size limits" Truncated
  by unfold_locales (simp_all add: frame_decode_iff frame_error_stable)

lemma frame_encode_nonempty: "frame_encode f = Inr bs \<Longrightarrow> bs \<noteq> []"
  by (auto simp: frame_encode_def frame_encode_into_def result_simps split: if_splits
      dest!: frame_header_encode_length)

section \<open>Properties\<close>

text \<open>C13: The frame decoder accepts exactly the encodings of the frames within the size limit:
  it returns \<open>f\<close> and leaves \<open>rest\<close> if and only if the buffer is the encoding of \<open>f\<close> followed
  by \<open>rest\<close> and the declared length is within the limit. No frame has two wire forms, no wire
  form two frames, and an encoding starts with a header of 6 to 20 bytes.\<close>

theorem frame_wire_form:
  "(frame_decode limits src = Inr (f, rest) \<longleftrightarrow>
      fh_length (fr_header f) \<le> max_frame_size limits \<and>
      (\<exists>bs. frame_encode f = Inr bs \<and> src = bs @ rest)) \<and>
   (frame_encode f = Inr bs \<longrightarrow>
      unat (fh_length (fr_header f)) = length (fr_payload f) \<and>
      6 + length (fr_payload f) \<le> length bs \<and>
      length bs \<le> MAX_ENCODED_LEN + length (fr_payload f))"
proof (intro conjI impI)
  assume "frame_encode f = Inr bs"
  then obtain hb where "frame_header_encode (fr_header f) = Inr hb" "bs = hb @ fr_payload f"
    and len: "unat (fh_length (fr_header f)) = length (fr_payload f)"
    by (auto simp: frame_encode_def frame_encode_into_def result_simps u64_try_from_len_Some
        split: if_splits)
  with frame_header_encode_length [of "fr_header f" hb]
  show "6 + length (fr_payload f) \<le> length bs" "length bs \<le> MAX_ENCODED_LEN + length (fr_payload f)"
    "unat (fh_length (fr_header f)) = length (fr_payload f)" by simp_all
qed (simp add: frame.dec_iff)

definition sample_frame :: frame where
  "sample_frame = \<lparr>fr_header = \<lparr>fh_version = VERSION, fh_frame_type = FT_TcpData, fh_flags = 0,
     fh_id = 1, fh_length = 3\<rparr>, fr_payload = [7, 8, 9]\<rparr>"

theorem frame_wire_form_witness:
  "frame_encode sample_frame = Inr [1, 0x11, 0, 0, 1, 3, 7, 8, 9] \<and>
   6 + length (fr_payload sample_frame) \<le> length [1, 0x11, 0, 0, 1, 3, 7, 8, 9 :: byte]"
proof -
  have "frame_encode sample_frame = Inr [1, 0x11, 0, 0, 1, 3, 7, 8, 9]" by code_simp
  with frame_wire_form [of _ _ sample_frame _ "[1, 0x11, 0, 0, 1, 3, 7, 8, 9]"] show ?thesis by simp
qed

text \<open>A stream reader can rely on the decoder's errors: on every proper prefix of an
  acceptable frame the decoder asks for more bytes, and any other error it reports on a buffer it
  reports on every extension of that buffer.\<close>

lemma frame_decode_errors:
  "(frame_encode f = Inr (xs @ ys) \<and> ys \<noteq> [] \<and> fh_length (fr_header f) \<le> max_frame_size limits
      \<longrightarrow> frame_decode limits xs = Inl Truncated) \<and>
   (frame_decode limits src = Inl e \<and> e \<noteq> Truncated \<longrightarrow> frame_decode limits (src @ ext) = Inl e)"
  using frame.prefix_needs_more [of f "xs @ ys" limits "length xs"] frame.error_stable [of limits src e ext]
  by simp

end
