(* ===== verification/Frame_Io.thy ===== *)
theory Frame_Io
  imports Frame
begin

text \<open>
  \<open>crates/uk-proto/src/io.rs\<close>: reading frames from and writing frames to a byte stream.

  An \<open>AsyncRead\<close> that is awaited to completion is the bytes it will deliver and how it
  ends (\<open>async_read\<close>); one that is polled by the cancellation-safe \<open>FrameReader\<close> is the
  list of the outcomes of its polls (\<open>read_event\<close>), where \<open>ReadPending\<close> is a poll after
  which the caller drops the read future, as \<open>select!\<close> does. An \<open>AsyncWrite\<close> is what it
  has accepted so far and how many bytes it accepts per call (\<open>async_write\<close>).
\<close>

section \<open>Errors and streams\<close>

datatype io_error_kind = EK_UnexpectedEof | EK_WriteZero | EK_Other string

datatype frame_io_error =
    IoClosed
  | IoError io_error_kind
  | IoProtocol protocol_error

datatype stream_end = EndEof | EndErr io_error_kind

record async_read =
  ar_bytes :: "byte list"
  ar_end :: stream_end

datatype read_event = ReadData "byte list" | ReadPending | ReadErr io_error_kind

datatype write_event = Accept nat | WriteErr io_error_kind

record async_write =
  aw_out :: "byte list"
  aw_script :: "write_event list"
  aw_flush :: "io_error_kind option"

definition READ_RESERVE_CHUNK :: nat where
  "READ_RESERVE_CHUNK = 256 * 1024"

definition MIN_READ_RESERVE :: nat where
  "MIN_READ_RESERVE = 64"

section \<open>Reading one frame from an awaited stream\<close>

definition read_optional_one :: "async_read \<Rightarrow> frame_io_error + (byte option \<times> async_read)" where
  "read_optional_one r =
     (case ar_bytes r of
        b # bs \<Rightarrow> Inr (Some b, r\<lparr>ar_bytes := bs\<rparr>)
      | [] \<Rightarrow> (case ar_end r of
                EndEof \<Rightarrow> Inr (None, r)
              | EndErr k \<Rightarrow> if k = EK_UnexpectedEof then Inr (None, r) else Inl (IoError k)))"

definition read_exact_or_truncated :: "nat \<Rightarrow> async_read \<Rightarrow> frame_io_error + (byte list \<times> async_read)" where
  "read_exact_or_truncated n r =
     (if n \<le> length (ar_bytes r)
      then Inr (take n (ar_bytes r), r\<lparr>ar_bytes := drop n (ar_bytes r)\<rparr>)
      else case ar_end r of
             EndEof \<Rightarrow> Inl (IoProtocol Truncated)
           | EndErr k \<Rightarrow> if k = EK_UnexpectedEof then Inl (IoProtocol Truncated) else Inl (IoError k))"

definition read_one :: "async_read \<Rightarrow> frame_io_error + (byte \<times> async_read)" where
  "read_one r = and_then (read_exact_or_truncated 1 r) (\<lambda>(buf, r). Inr (hd buf, r))"

definition read_varint_async ::
    "async_read \<Rightarrow> byte list \<Rightarrow> frame_io_error + (u64 \<times> byte list \<times> async_read)" where
  "read_varint_async r header_bytes =
     and_then (read_one r) (\<lambda>(first, r).
     let len = push_bit (unat (drop_bit 6 first)) (1 :: nat) in
     and_then (if 1 < len then read_exact_or_truncated (len - 1) r else Inr ([], r)) (\<lambda>(rest, r).
     let header_bytes = (header_bytes @ [first]) @ rest;
         start = length header_bytes - len
     in and_then (map_err IoProtocol (varint_decode (drop start header_bytes))) (\<lambda>(value, _).
        Inr (value, header_bytes, r))))"

function read_payload :: "nat \<Rightarrow> byte list \<Rightarrow> async_read \<Rightarrow> frame_io_error + (byte list \<times> async_read)" where
  "read_payload remaining payload r =
     (if remaining = 0 then Inr (payload, r)
      else let to_read = min remaining 8192
           in and_then (read_exact_or_truncated to_read r) (\<lambda>(buf, r).
              read_payload (remaining - to_read) (payload @ buf) r))"
  by pat_completeness auto
termination
  by (relation "measure (\<lambda>(remaining, _, _). remaining)") auto

definition read_frame :: "frame_limits \<Rightarrow> async_read \<Rightarrow> frame_io_error + (frame \<times> async_read)" where
  "read_frame limits r =
     and_then (read_optional_one r) (\<lambda>(first, r).
     and_then (ok_or IoClosed first) (\<lambda>first.
     and_then (read_exact_or_truncated 3 r) (\<lambda>(rest, r).
     let fixed = first # rest; version = fixed ! 0 in
     if version \<noteq> VERSION then Inl (IoProtocol (UnsupportedVersion version))
     else and_then (map_err IoProtocol (frame_type_try_from (fixed ! 1))) (\<lambda>_.
     and_then (map_err IoProtocol (validate_flags (get_u16 (drop 2 fixed)))) (\<lambda>_.
     and_then (read_varint_async r fixed) (\<lambda>(_, header_bytes, r).
     and_then (read_varint_async r header_bytes) (\<lambda>(_, header_bytes, r).
     and_then (map_err IoProtocol (frame_header_decode limits header_bytes)) (\<lambda>(header, _).
     and_then (ok_or (IoProtocol InvalidVarint) (usize_try_from (fh_length header))) (\<lambda>payload_len.
     and_then (read_payload payload_len [] r) (\<lambda>(payload, r).
     Inr (\<lparr>fr_header = header, fr_payload = payload\<rparr>, r)))))))))))"

section \<open>The cancellation-safe frame reader\<close>

definition usize_checked_add :: "nat \<Rightarrow> nat \<Rightarrow> nat option" where
  "usize_checked_add a b = (if a + b < 2 ^ usize_bits then Some (a + b) else None)"

lemma usize_checked_add_code [code]:
  "usize_checked_add a b = (if int a + int b < 18446744073709551616 then Some (a + b) else None)"
  by (simp add: usize_checked_add_def usize_bits_def)

definition take_buffered_frame ::
    "frame_limits \<Rightarrow> byte list \<Rightarrow> frame_io_error + (frame option \<times> byte list)" where
  "take_buffered_frame limits buffer =
     (case frame_header_decode limits buffer of
        Inl e \<Rightarrow> if e = Truncated then Inr (None, buffer) else Inl (IoProtocol e)
      | Inr (header, cursor) \<Rightarrow>
          let header_len = length buffer - length cursor in
          and_then (ok_or (IoProtocol InvalidVarint) (usize_try_from (fh_length header))) (\<lambda>payload_len.
          and_then (ok_or (IoProtocol InvalidVarint) (usize_checked_add header_len payload_len)) (\<lambda>total_len.
          if length buffer < total_len then Inr (None, buffer)
          else let taken = take total_len buffer; payload = drop header_len taken
               in Inr (Some \<lparr>fr_header = header, fr_payload = payload\<rparr>, drop total_len buffer))))"

definition reserve_for_pending_frame :: "frame_limits \<Rightarrow> byte list \<Rightarrow> nat" where
  "reserve_for_pending_frame limits buffer =
     (let wanted =
        (case frame_header_decode limits buffer of
           Inl _ \<Rightarrow> 1
         | Inr (header, cursor) \<Rightarrow>
             let header_len = length buffer - length cursor in
             (case Option.bind (usize_try_from (fh_length header)) (usize_checked_add header_len) of
                None \<Rightarrow> READ_RESERVE_CHUNK
              | Some total_len \<Rightarrow> if total_len < length buffer then READ_RESERVE_CHUNK else total_len - length buffer))
      in max MIN_READ_RESERVE (min wanted READ_RESERVE_CHUNK))"

datatype poll_outcome = Ready "frame_io_error + frame" | Cancelled

definition read_zero :: "byte list \<Rightarrow> frame_io_error" where
  "read_zero buffer = (if buffer = [] then IoClosed else IoProtocol Truncated)"

fun frame_reader_read_frame ::
    "frame_limits \<Rightarrow> byte list \<Rightarrow> read_event list \<Rightarrow> poll_outcome \<times> byte list \<times> read_event list" where
  "frame_reader_read_frame limits buffer [] =
     (case take_buffered_frame limits buffer of
        Inl e \<Rightarrow> (Ready (Inl e), buffer, [])
      | Inr (Some f, buffer') \<Rightarrow> (Ready (Inr f), buffer', [])
      | Inr (None, _) \<Rightarrow> (Ready (Inl (read_zero buffer)), buffer, []))"
| "frame_reader_read_frame limits buffer (ev # evs) =
     (case take_buffered_frame limits buffer of
        Inl e \<Rightarrow> (Ready (Inl e), buffer, ev # evs)
      | Inr (Some f, buffer') \<Rightarrow> (Ready (Inr f), buffer', ev # evs)
      | Inr (None, _) \<Rightarrow>
          (case ev of
             ReadPending \<Rightarrow> (Cancelled, buffer, evs)
           | ReadData bs \<Rightarrow>
               if bs = [] then (Ready (Inl (read_zero buffer)), buffer, evs)
               else frame_reader_read_frame limits (buffer @ bs) evs
           | ReadErr k \<Rightarrow>
               if k = EK_UnexpectedEof then (Ready (Inl (read_zero buffer)), buffer, evs)
               else (Ready (Inl (IoError k)), buffer, evs)))"

section \<open>Writing frames\<close>

definition poll_write :: "byte list \<Rightarrow> async_write \<Rightarrow> (io_error_kind + nat) \<times> async_write" where
  "poll_write buf w =
     (case aw_script w of
        [] \<Rightarrow> (Inr (length buf), w\<lparr>aw_out := aw_out w @ buf\<rparr>)
      | Accept k # script \<Rightarrow>
          (Inr (min k (length buf)), w\<lparr>aw_out := aw_out w @ take k buf, aw_script := script\<rparr>)
      | WriteErr k # script \<Rightarrow> (Inl k, w\<lparr>aw_script := script\<rparr>))"

definition flush :: "async_write \<Rightarrow> frame_io_error + unit" where
  "flush w = (case aw_flush w of None \<Rightarrow> Inr () | Some k \<Rightarrow> Inl (IoError k))"

function write_all_vectored ::
    "byte list \<Rightarrow> byte list \<Rightarrow> async_write \<Rightarrow> (frame_io_error + unit) \<times> async_write" where
  "write_all_vectored first second w =
     (if first = [] \<and> second = [] then (Inr (), w)
      else case poll_write (first @ second) w of
             (Inl k, w) \<Rightarrow> (Inl (IoError k), w)
           | (Inr written, w) \<Rightarrow>
               if written = 0 then (Inl (IoError EK_WriteZero), w)
               else let first_take = min (length first) written;
                        remaining = written - first_take;
                        second_take = min (length second) remaining
                    in write_all_vectored (drop first_take first) (drop second_take second) w)"
  by pat_completeness auto
termination
  by (relation "measure (\<lambda>(first, second, _). length first + length second)")
    (auto simp: poll_write_def min_def split: list.splits write_event.splits if_splits)

declare read_payload.simps [simp del] write_all_vectored.simps [simp del]

definition write_frame :: "async_write \<Rightarrow> frame \<Rightarrow> (frame_io_error + unit) \<times> async_write" where
  "write_frame w f =
     (case ok_or (IoProtocol InvalidVarint) (u64_try_from_len (length (fr_payload f))) of
        Inl e \<Rightarrow> (Inl e, w)
      | Inr payload_len \<Rightarrow>
          if fh_length (fr_header f) \<noteq> payload_len
          then (Inl (IoProtocol (InvalidFrame ''frame header length does not match payload length'')), w)
          else case frame_header_encode (fr_header f) of
                 Inl e \<Rightarrow> (Inl (IoProtocol e), w)
               | Inr header_bytes \<Rightarrow>
                   (case write_all_vectored header_bytes (fr_payload f) w of
                      (Inl e, w) \<Rightarrow> (Inl e, w)
                    | (Inr _, w) \<Rightarrow> (flush w, w)))"

fun encode_frames :: "byte list \<Rightarrow> frame list \<Rightarrow> protocol_error + byte list" where
  "encode_frames buffer [] = Inr buffer"
| "encode_frames buffer (f # fs) =
     and_then (frame_encode_into f) (\<lambda>bs. encode_frames (buffer @ bs) fs)"

definition write_frames :: "async_write \<Rightarrow> frame list \<Rightarrow> (frame_io_error + unit) \<times> async_write" where
  "write_frames w frames =
     (case encode_frames [] frames of
        Inl e \<Rightarrow> (Inl (IoProtocol e), w)
      | Inr buffer \<Rightarrow>
          if buffer = [] then (Inr (), w)
          else case write_all_vectored buffer [] w of
                 (Inl e, w) \<Rightarrow> (Inl e, w)
               | (Inr _, w) \<Rightarrow> (flush w, w))"


section \<open>The buffered reader decodes what the slice decoder decodes\<close>

lemma frame_header_encode_total:
  assumes "frame_header_encode h = Inr bs"
  shows "length bs + unat (fh_length h) < 2 ^ usize_bits"
proof -
  from assms have "\<exists>v. varint_encode (fh_length h) = Inr v"
    by (auto simp: frame_header_encode_def result_simps split: if_splits)
  then have "unat (fh_length h) < 2 ^ 62"
    using encoded_len_Inr_iff by (auto simp: varint_encode_Inr_iff)
  moreover have "length bs \<le> 20"
    using frame_header_encode_length [OF assms] by (simp add: MAX_ENCODED_LEN_def)
  ultimately show ?thesis by (simp add: usize_bits_def)
qed

lemma take_buffered_frame_eq:
  "take_buffered_frame limits buffer =
     (case frame_decode limits buffer of
        Inl e \<Rightarrow> if e = Truncated then Inr (None, buffer) else Inl (IoProtocol e)
      | Inr (f, rest) \<Rightarrow> Inr (Some f, rest))"
proof (cases "frame_header_decode limits buffer")
  case (Inl e)
  then show ?thesis by (simp add: take_buffered_frame_def frame_decode_def)
next
  case (Inr r)
  obtain h cursor where r: "r = (h, cursor)" by force
  with Inr obtain bs where bs: "frame_header_encode h = Inr bs" "buffer = bs @ cursor"
    by (auto simp: header.dec_iff)
  then have "usize_checked_add (length bs) (unat (fh_length h)) = Some (length bs + unat (fh_length h))"
    using frame_header_encode_total by (simp add: usize_checked_add_def)
  then show ?thesis
    using Inr r bs(2) by (auto simp: take_buffered_frame_def frame_decode_def Let_def)
qed

text \<open>The reservation never exceeds one chunk, and whenever the pending frame is known and
  small enough it is the rest of that frame.\<close>

lemma reserve_bounds:
  "MIN_READ_RESERVE \<le> reserve_for_pending_frame limits buffer \<and>
   reserve_for_pending_frame limits buffer \<le> READ_RESERVE_CHUNK"
  by (simp add: reserve_for_pending_frame_def Let_def MIN_READ_RESERVE_def READ_RESERVE_CHUNK_def)

section \<open>The specification: a byte stream as a sequence of frames\<close>

definition end_error :: "stream_end \<Rightarrow> byte list \<Rightarrow> frame_io_error" where
  "end_error e bs =
     (case e of
        EndErr k \<Rightarrow> if k = EK_UnexpectedEof then read_zero bs else IoError k
      | EndEof \<Rightarrow> read_zero bs)"

definition stream_error :: "protocol_error \<Rightarrow> async_read \<Rightarrow> frame_io_error" where
  "stream_error e r = (if e = Truncated then end_error (ar_end r) (ar_bytes r) else IoProtocol e)"

definition next_frame :: "frame_limits \<Rightarrow> async_read \<Rightarrow> frame_io_error + (frame \<times> async_read)" where
  "next_frame limits r =
     (case frame_decode limits (ar_bytes r) of
        Inr (f, rest) \<Rightarrow> Inr (f, r\<lparr>ar_bytes := rest\<rparr>)
      | Inl e \<Rightarrow> Inl (stream_error e r))"

lemma frame_decode_shorter: "frame_decode limits bs = Inr (f, rest) \<Longrightarrow> length rest < length bs"
  by (auto simp: frame.dec_iff dest!: frame_encode_nonempty)

function parse_stream :: "frame_limits \<Rightarrow> async_read \<Rightarrow> frame list \<times> frame_io_error" where
  "parse_stream limits r =
     (case next_frame limits r of
        Inr (f, r') \<Rightarrow> (let (fs, e) = parse_stream limits r' in (f # fs, e))
      | Inl e \<Rightarrow> ([], e))"
  by pat_completeness auto
termination
  by (relation "measure (\<lambda>(_, r). length (ar_bytes r))")
    (auto simp: next_frame_def split: sum.splits dest: frame_decode_shorter)

declare parse_stream.simps [simp del]

primrec event_bytes :: "read_event \<Rightarrow> byte list" where
  "event_bytes (ReadData bs) = bs"
| "event_bytes ReadPending = []"
| "event_bytes (ReadErr k) = []"

fun stream_of :: "byte list \<Rightarrow> read_event list \<Rightarrow> async_read" where
  "stream_of buffer [] = \<lparr>ar_bytes = buffer, ar_end = EndEof\<rparr>"
| "stream_of buffer (ReadData bs # evs) =
     (if bs = [] then \<lparr>ar_bytes = buffer, ar_end = EndEof\<rparr> else stream_of (buffer @ bs) evs)"
| "stream_of buffer (ReadPending # evs) = stream_of buffer evs"
| "stream_of buffer (ReadErr k # evs) = \<lparr>ar_bytes = buffer, ar_end = EndErr k\<rparr>"

abbreviation delivered :: "read_event list \<Rightarrow> byte list" where
  "delivered evs \<equiv> concat (map event_bytes evs)"

definition reader_size :: "byte list \<Rightarrow> read_event list \<Rightarrow> nat" where
  "reader_size buffer evs = length buffer + length (delivered evs) + length evs"

lemma frame_reader_consumes:
  assumes "frame_reader_read_frame limits buffer evs = (r, buffer', evs')"
    and "r = Cancelled \<or> r = Ready (Inr f)"
  shows "reader_size buffer' evs' < reader_size buffer evs"
  using assms
proof (induction evs arbitrary: buffer)
  case Nil
  then show ?case
    by (auto simp: reader_size_def take_buffered_frame_eq split: sum.splits option.splits if_splits
        dest!: frame_decode_shorter)
next
  case (Cons ev evs)
  show ?case
  proof (cases "frame_decode limits buffer")
    case (Inl e)
    with Cons show ?thesis
      by (cases ev) (fastforce simp: reader_size_def take_buffered_frame_eq split: if_splits)+
  next
    case (Inr r)
    with Cons.prems show ?thesis
      by (cases r) (auto simp: reader_size_def take_buffered_frame_eq dest!: frame_decode_shorter)
  qed
qed

text \<open>A caller that polls for frames until the stream fails, polling again after every
  cancelled read, as the session loops do.\<close>

function drain :: "frame_limits \<Rightarrow> byte list \<Rightarrow> read_event list \<Rightarrow> frame list \<times> frame_io_error" where
  "drain limits buffer evs =
     (case frame_reader_read_frame limits buffer evs of
        (Ready (Inr f), buffer', evs') \<Rightarrow> (let (fs, e) = drain limits buffer' evs' in (f # fs, e))
      | (Ready (Inl e), _, _) \<Rightarrow> ([], e)
      | (Cancelled, buffer', evs') \<Rightarrow> drain limits buffer' evs')"
  by pat_completeness auto
termination
  by (relation "measure (\<lambda>(_, buffer, evs). reader_size buffer evs)")
    (auto dest: frame_reader_consumes [OF sym])

declare drain.simps [simp del]


section \<open>Chunking and cancellation do not change the frames\<close>

lemma stream_of_append: "stream_of (xs @ buffer) evs = (stream_of buffer evs)\<lparr>ar_bytes := xs @ ar_bytes (stream_of buffer evs)\<rparr>"
  by (induction buffer evs rule: stream_of.induct) simp_all

lemma stream_of_prefix: "\<exists>ys. ar_bytes (stream_of buffer evs) = buffer @ ys"
  by (induction buffer evs rule: stream_of.induct) auto

lemma next_frame_buffered:
  assumes "frame_decode limits buffer = Inr (f, rest)"
  shows "next_frame limits (stream_of buffer evs) = Inr (f, stream_of rest evs)"
proof -
  from assms obtain bs where bs: "buffer = bs @ rest" by (auto simp: frame.dec_iff)
  from stream_of_prefix obtain ys where ys: "ar_bytes (stream_of rest evs) = rest @ ys" by blast
  have "frame_decode limits (buffer @ ys) = Inr (f, rest @ ys)"
    using frame.success_stable [OF assms] .
  then show ?thesis by (simp add: next_frame_def bs stream_of_append ys)
qed

lemma next_frame_protocol_error:
  assumes "frame_decode limits buffer = Inl e" and "e \<noteq> Truncated"
  shows "next_frame limits (stream_of buffer evs) = Inl (IoProtocol e)"
proof -
  from stream_of_prefix obtain ys where "ar_bytes (stream_of buffer evs) = buffer @ ys" by blast
  with frame.error_stable [OF assms] assms(2) show ?thesis
    by (simp add: next_frame_def stream_error_def)
qed

lemma frame_reader_read_frame_spec:
  assumes "frame_reader_read_frame limits buffer evs = (r, buffer', evs')"
  shows "(\<forall>f. r = Ready (Inr f) \<longrightarrow>
           next_frame limits (stream_of buffer evs) = Inr (f, stream_of buffer' evs'))
       \<and> (\<forall>e. r = Ready (Inl e) \<longrightarrow> next_frame limits (stream_of buffer evs) = Inl e)
       \<and> (r = Cancelled \<longrightarrow> stream_of buffer' evs' = stream_of buffer evs)"
  using assms
proof (induction evs arbitrary: buffer)
  case Nil
  then show ?case
    using next_frame_buffered [of limits buffer _ _ "[]"]
    by (auto simp: take_buffered_frame_eq next_frame_def stream_error_def end_error_def
        split: sum.splits if_splits)
next
  case (Cons ev evs)
  consider (frame) f rest where "frame_decode limits buffer = Inr (f, rest)"
    | (more) "frame_decode limits buffer = Inl Truncated"
    | (bad) e where "frame_decode limits buffer = Inl e" "e \<noteq> Truncated"
    by (cases "frame_decode limits buffer") auto
  then show ?case
  proof cases
    case frame
    with Cons.prems show ?thesis
      by (auto simp: take_buffered_frame_eq dest!: next_frame_buffered)
  next
    case more
    with Cons show ?thesis
      by (cases ev) (auto simp: take_buffered_frame_eq next_frame_def stream_error_def end_error_def
          split: if_splits)
  next
    case bad
    with Cons.prems next_frame_protocol_error [OF bad] show ?thesis
      by (auto simp: take_buffered_frame_eq)
  qed
qed

lemma drain_eq_parse_stream: "drain limits buffer evs = parse_stream limits (stream_of buffer evs)"
proof (induction limits buffer evs rule: drain.induct)
  case (1 limits buffer evs)
  obtain r buffer' evs' where r: "frame_reader_read_frame limits buffer evs = (r, buffer', evs')"
    by (metis prod_cases3)
  show ?case
  proof (cases r)
    case (Ready x)
    with 1 r frame_reader_read_frame_spec [OF r] show ?thesis
      by (cases x) (simp_all add: drain.simps [of _ buffer] parse_stream.simps [of _ "stream_of buffer evs"])
  next
    case Cancelled
    with 1 r frame_reader_read_frame_spec [OF r] show ?thesis
      by (simp add: drain.simps [of _ buffer])
  qed
qed


section \<open>The awaited reader\<close>

definition truncated_error :: "async_read \<Rightarrow> frame_io_error" where
  "truncated_error r = end_error (ar_end r) [undefined]"

lemma truncated_error_update [simp]: "truncated_error (r\<lparr>ar_bytes := bs\<rparr>) = truncated_error r"
  by (simp add: truncated_error_def)

lemma end_error_Cons: "end_error (ar_end r) (b # bs) = truncated_error r"
  by (simp add: end_error_def truncated_error_def read_zero_def split: stream_end.split)

lemma read_exact_or_truncated_eq:
  "read_exact_or_truncated n r =
     (if n \<le> length (ar_bytes r)
      then Inr (take n (ar_bytes r), r\<lparr>ar_bytes := drop n (ar_bytes r)\<rparr>)
      else Inl (truncated_error r))"
  by (simp add: read_exact_or_truncated_def truncated_error_def end_error_def read_zero_def split: stream_end.split)

lemma read_payload_eq:
  "read_payload n payload r =
     (if n \<le> length (ar_bytes r)
      then Inr (payload @ take n (ar_bytes r), r\<lparr>ar_bytes := drop n (ar_bytes r)\<rparr>)
      else Inl (truncated_error r))"
proof (induction n payload r rule: read_payload.induct)
  case (1 n payload r)
  show ?case
  proof (cases "n = 0 \<or> length (ar_bytes r) < min n 8192")
    case True
    then show ?thesis
      by (subst read_payload.simps) (auto simp: read_exact_or_truncated_eq Let_def)
  next
    case False
    then have "take (min n 8192) (ar_bytes r) @ take (n - min n 8192) (drop (min n 8192) (ar_bytes r))
        = take n (ar_bytes r)"
      by (metis le_add_diff_inverse min.cobounded1 take_add)
    with 1 False show ?thesis
      by (subst read_payload.simps) (auto simp: read_exact_or_truncated_eq Let_def)
  qed
qed

lemma varint_decode_exact:
  assumes "xs \<noteq> []" and "length xs = varint_width (hd xs)"
  shows "(\<exists>v. varint_decode xs = Inr (v, [])) \<or> varint_decode xs = Inl InvalidVarint"
proof (cases "encoded_len (varint_value (varint_width (hd xs)) xs)")
  case (Inl e)
  then have "e = InvalidVarint" by (simp add: encoded_len_eq_Inl)
  with Inl assms show ?thesis by (simp add: varint_decode_alt Let_def)
qed (use assms in \<open>auto simp: varint_decode_alt Let_def\<close>)

lemma read_varint_async_eq:
  "read_varint_async r header_bytes =
     (case varint_decode (ar_bytes r) of
        Inl e \<Rightarrow> Inl (if e = Truncated then truncated_error r else IoProtocol e)
      | Inr (v, rest) \<Rightarrow>
          Inr (v, header_bytes @ take (length (ar_bytes r) - length rest) (ar_bytes r),
               r\<lparr>ar_bytes := rest\<rparr>))"
proof (cases "ar_bytes r = [] \<or> length (ar_bytes r) < varint_width (hd (ar_bytes r))")
  case True
  then have "varint_decode (ar_bytes r) = Inl Truncated" by (simp add: varint_decode_alt)
  moreover have "read_varint_async r header_bytes = Inl (truncated_error r)"
    using True by (cases "ar_bytes r") (auto simp: read_varint_async_def read_one_def
        read_exact_or_truncated_eq varint_width_def Let_def)
  ultimately show ?thesis by simp
next
  case False
  then obtain b bs where bytes: "ar_bytes r = b # bs" by (cases "ar_bytes r") auto
  define w where "w = varint_width b"
  have w: "0 < w" "w \<le> Suc (length bs)"
    using False varint_width_cases [of b] by (auto simp: w_def bytes)
  then obtain k where k: "w = Suc k" by (cases w) auto
  have pow: "2 ^ unat (drop_bit 6 b) = Suc k"
    using k by (simp add: w_def varint_width_def)
  define xs where "xs = b # take k bs"
  have xs: "xs \<noteq> []" "length xs = varint_width (hd xs)" "b # bs = xs @ drop k bs" "length xs = Suc k"
    using w by (auto simp: xs_def k w_def [symmetric])
  have read: "read_varint_async r header_bytes =
      and_then (map_err IoProtocol (varint_decode xs)) (\<lambda>(v, _).
        Inr (v, header_bytes @ xs, r\<lparr>ar_bytes := drop k bs\<rparr>))"
    using w pow by (auto simp: read_varint_async_def read_one_def read_exact_or_truncated_eq bytes Let_def
        k xs_def)
  from varint_decode_exact [OF xs(1,2)] show ?thesis
  proof
    assume "\<exists>v. varint_decode xs = Inr (v, [])"
    then obtain v where v: "varint_decode xs = Inr (v, [])" ..
    from varint.success_stable [OF v, of "drop k bs"] v show ?thesis
      by (simp add: read bytes xs(3))
  next
    assume e: "varint_decode xs = Inl InvalidVarint"
    from varint.error_stable [OF e, of "drop k bs"] e show ?thesis
      by (simp add: read bytes xs(3))
  qed
qed


lemma read_frame_short:
  assumes "length (ar_bytes r) < 4"
  shows "read_frame limits r = next_frame limits r"
proof -
  have "frame_decode limits (ar_bytes r) = Inl Truncated"
    using assms by (simp add: frame_decode_def frame_header_decode_def)
  then show ?thesis
    using assms by (cases "ar_bytes r") (auto simp: read_frame_def next_frame_def read_optional_one_def
        read_exact_or_truncated_eq stream_error_def truncated_error_def end_error_def read_zero_def split: stream_end.splits)
qed

lemma frame_type_error: "frame_type_try_from b = Inl e \<Longrightarrow> e \<noteq> Truncated"
  by (auto simp: frame_type_try_from_def split: if_splits)

lemma validate_flags_error: "validate_flags f = Inl e \<Longrightarrow> e \<noteq> Truncated"
  by (auto simp: validate_flags_def Let_def split: if_splits)

lemma read_frame_long:
  assumes "ar_bytes r = a # b # c # d # rest"
  shows "read_frame limits r = next_frame limits r"
proof -
  define flags where "flags = get_u16 [c, d]"
  have get_flags: "get_u16 (c # d # xs) = flags" for xs by (simp add: get_u16_def flags_def)
  note defs = read_frame_def next_frame_def frame_decode_def frame_header_decode_def Let_def get_flags
    read_optional_one_def read_exact_or_truncated_eq assms read_varint_async_eq stream_error_def
    read_payload_eq
  consider (bad) "a \<noteq> VERSION \<or> (\<exists>e. frame_type_try_from b = Inl e) \<or> (\<exists>e. validate_flags flags = Inl e)"
    | (fid) t e where "a = VERSION" "frame_type_try_from b = Inr t" "validate_flags flags = Inr ()"
      "varint_decode rest = Inl e"
    | (len) t fid rest1 e where "a = VERSION" "frame_type_try_from b = Inr t"
      "validate_flags flags = Inr ()" "varint_decode rest = Inr (fid, rest1)"
      "varint_decode rest1 = Inl e"
    | (ok) t fid rest1 len rest2 where "a = VERSION" "frame_type_try_from b = Inr t"
      "validate_flags flags = Inr ()" "varint_decode rest = Inr (fid, rest1)"
      "varint_decode rest1 = Inr (len, rest2)"
    by (cases "a = VERSION"; cases "frame_type_try_from b"; cases "validate_flags flags"; cases "varint_decode rest";
        cases "varint_decode (snd (projr (varint_decode rest)))") auto
  then show ?thesis
  proof cases
    case bad
    then show ?thesis
      by (cases "a = VERSION"; cases "frame_type_try_from b"; cases "validate_flags flags")
        (auto simp: defs dest: frame_type_error validate_flags_error)
  next
    case fid
    then show ?thesis by (simp add: defs end_error_Cons)
  next
    case len
    then show ?thesis by (simp add: defs end_error_Cons)
  next
    case ok
    from ok(4,5) obtain xs ys where v: "varint_encode fid = Inr xs" "varint_encode len = Inr ys"
      and rest: "rest = xs @ ys @ rest2" "rest1 = ys @ rest2"
      by (auto simp: varint.dec_iff)
    from varint.roundtrip [OF v(1)] varint.roundtrip [OF v(2), of "[]"]
    have dec: "varint_decode (xs @ ys) = Inr (fid, ys)" "varint_decode ys = Inr (len, [])"
      by simp_all
    with ok rest show ?thesis by (simp add: defs end_error_Cons)
  qed
qed

lemma read_frame_eq_next_frame: "read_frame limits r = next_frame limits r"
proof (cases "length (ar_bytes r) < 4")
  case False
  then show ?thesis
    by (auto simp: numeral_eq_Suc not_less Suc_le_length_iff intro: read_frame_long)
qed (simp add: read_frame_short)


section \<open>Writing\<close>

lemma poll_write_out:
  assumes "poll_write buf w = (res, w')"
  shows "aw_flush w' = aw_flush w \<and>
    (case res of Inr n \<Rightarrow> n \<le> length buf \<and> aw_out w' = aw_out w @ take n buf
     | Inl k \<Rightarrow> aw_out w' = aw_out w)"
  using assms by (auto simp: poll_write_def min_def split: list.splits write_event.splits)

lemma write_all_vectored_out:
  assumes "write_all_vectored first second w = (res, w')"
  shows "aw_flush w' = aw_flush w \<and>
    (\<exists>n\<le>length (first @ second). aw_out w' = aw_out w @ take n (first @ second) \<and>
       (if n = length (first @ second) then res = Inr () else \<exists>k. res = Inl (IoError k)))"
  using assms
proof (induction first second w rule: write_all_vectored.induct)
  case (1 first second w)
  show ?case
  proof (cases "first = [] \<and> second = []")
    case True
    with 1(2) show ?thesis by (simp add: write_all_vectored.simps)
  next
    case False
    obtain r w1 where r: "poll_write (first @ second) w = (r, w1)" by force
    note out = poll_write_out [OF r]
    show ?thesis
    proof (cases "\<exists>n. r = Inr n \<and> n \<noteq> 0")
      case True
      then obtain n where n: "r = Inr n" "n \<noteq> 0" by blast
      let ?a = "drop n first" and ?b = "drop (n - length first) second" and ?rest = "drop n (first @ second)"
      have rest: "?a @ ?b = ?rest" by simp
      have drops: "drop (min (length first) n) first = ?a"
        "drop (min (length second) (n - min (length first) n)) second = ?b"
        by (auto simp: min_def)
      have "write_all_vectored ?a ?b w1 = (res, w')"
        using 1(2) False r n drops by (subst (asm) write_all_vectored.simps) (simp add: Let_def)
      with 1(1) [OF False r [symmetric] n refl refl refl]
      have "aw_flush w' = aw_flush w1 \<and> (\<exists>m\<le>length ?rest. aw_out w' = aw_out w1 @ take m ?rest \<and>
         (if m = length ?rest then res = Inr () else \<exists>k. res = Inl (IoError k)))"
        by (simp only: drops rest simp_thms)
      then obtain m where m: "m \<le> length (first @ second) - n" "aw_flush w' = aw_flush w"
          "aw_out w' = aw_out w @ take n (first @ second) @ take m ?rest"
          "if m = length (first @ second) - n then res = Inr () else \<exists>k. res = Inl (IoError k)"
        using out n(1) by (auto simp del: take_append drop_append length_append)
      from m(3) have "aw_out w' = aw_out w @ take (n + m) (first @ second)"
        by (simp only: take_add)
      with m out n(1) show ?thesis
        by (intro conjI exI [of _ "n + m"]) (auto split: if_splits)
    next
      case zero: False
      have "aw_flush w' = aw_flush w \<and> aw_out w' = aw_out w \<and> (\<exists>k. res = Inl (IoError k))"
        using 1(2) False r zero out
        by (subst (asm) write_all_vectored.simps) (auto split: sum.splits)
      with False show ?thesis by (intro conjI exI [of _ 0]) auto
    qed
  qed
qed

lemma write_all_vectored_Inr:
  "write_all_vectored first second w = (Inr u, w') \<Longrightarrow>
     aw_out w' = aw_out w @ first @ second \<and> aw_flush w' = aw_flush w"
  by (drule write_all_vectored_out) (auto split: if_splits)

lemma encode_frames_iff:
  "encode_frames buffer fs = Inr out \<longleftrightarrow>
     (\<exists>bss. list_all2 (\<lambda>f bs. frame_encode f = Inr bs) fs bss \<and> out = buffer @ concat bss)"
  by (induction fs arbitrary: buffer)
    (fastforce simp: result_simps frame_encode_def list_all2_Cons1)+

lemma parse_stream_encoded:
  assumes "list_all2 (\<lambda>f bs. frame_encode f = Inr bs) fs bss"
    and "list_all (\<lambda>f. fh_length (fr_header f) \<le> max_frame_size limits) fs"
  shows "parse_stream limits \<lparr>ar_bytes = concat bss, ar_end = EndEof\<rparr> = (fs, IoClosed)"
  using assms
proof (induction fs bss rule: list_all2_induct)
  case Nil
  show ?case
    by (simp add: parse_stream.simps next_frame_def frame_decode_def frame_header_decode_def
        stream_error_def end_error_def read_zero_def)
next
  case (Cons f fs bs bss)
  then have "frame_decode limits (bs @ concat bss) = Inr (f, concat bss)"
    by (auto simp: frame.dec_iff)
  with Cons show ?case by (simp add: parse_stream.simps [of _ "\<lparr>ar_bytes = bs @ concat bss, ar_end = EndEof\<rparr>"] next_frame_def)
qed

lemma write_frames_Inr:
  assumes "write_frames w fs = (Inr u, w')"
  shows "\<exists>bss. list_all2 (\<lambda>f bs. frame_encode f = Inr bs) fs bss \<and> aw_out w' = aw_out w @ concat bss"
proof -
  from assms obtain buffer where b: "encode_frames [] fs = Inr buffer"
    by (auto simp: write_frames_def split: sum.splits)
  with assms have "aw_out w' = aw_out w @ buffer"
    by (auto simp: write_frames_def split: if_splits prod.splits sum.splits dest!: write_all_vectored_Inr)
  with b show ?thesis by (auto simp: encode_frames_iff)
qed


section \<open>Properties\<close>

text \<open>C7: The frames a \<open>FrameReader\<close> returns depend only on the bytes of the stream and on how it
  ends. However the transport cuts the bytes into reads, and however often a read is cancelled
  and started again, polling the reader to its first error returns the frames that \<open>Frame::decode\<close>
  finds in the concatenated bytes, in order, and then the same error.\<close>

theorem frame_reader_chunking_and_cancellation:
  "drain limits [] evs = parse_stream limits (stream_of [] evs)"
  by (rule drain_eq_parse_stream)

text \<open>Awaited to completion, \<open>read_frame\<close> returns what \<open>Frame::decode\<close> returns on the pending
  bytes and leaves the stream just after the frame. It reports \<open>Closed\<close> only at the end of a
  stream with no pending byte, and a frame cut short as truncated unless the transport failed.\<close>

lemma read_frame_awaited:
  "read_frame limits r =
     (case frame_decode limits (ar_bytes r) of
        Inr (f, rest) \<Rightarrow> Inr (f, r\<lparr>ar_bytes := rest\<rparr>)
      | Inl e \<Rightarrow>
          Inl (if e \<noteq> Truncated then IoProtocol e
               else case ar_end r of
                 EndErr (EK_Other m) \<Rightarrow> IoError (EK_Other m)
               | EndErr EK_WriteZero \<Rightarrow> IoError EK_WriteZero
               | _ \<Rightarrow> if ar_bytes r = [] then IoClosed else IoProtocol Truncated))"
  by (simp add: read_frame_eq_next_frame next_frame_def stream_error_def end_error_def read_zero_def
      split: sum.split stream_end.split io_error_kind.split)

text \<open>\<open>write_frame\<close> puts the bytes of \<open>Frame::encode\<close> on the wire, although it never builds that
  buffer and the transport may accept any number of bytes per call. A frame that cannot be encoded
  is refused before any byte goes out; otherwise a prefix of the encoding is written, all of it
  exactly when no write failed, and then the result is that of the flush.\<close>

lemma write_frame_bytes:
  "case frame_encode f of
     Inl e \<Rightarrow> write_frame w f = (Inl (IoProtocol e), w)
   | Inr bs \<Rightarrow>
       (\<exists>n\<le>length bs. aw_out (snd (write_frame w f)) = aw_out w @ take n bs \<and>
          (if n = length bs then fst (write_frame w f) = flush w
           else \<exists>k. fst (write_frame w f) = Inl (IoError k)))"
proof (cases "frame_encode f")
  case (Inl e)
  then show ?thesis
    by (cases "u64_try_from_len (length (fr_payload f))") (auto simp: frame_encode_def
        frame_encode_into_def write_frame_def and_then_eq_Inl ok_or_def split: sum.splits if_splits)
next
  case (Inr bs)
  then obtain hb where hb: "frame_header_encode (fr_header f) = Inr hb" "bs = hb @ fr_payload f"
    and len: "u64_try_from_len (length (fr_payload f)) = Some (fh_length (fr_header f))"
    by (auto simp: frame_encode_def frame_encode_into_def result_simps split: if_splits)
  obtain res w' where w: "write_all_vectored hb (fr_payload f) w = (res, w')" by force
  have wf: "write_frame w f = (case res of Inl e \<Rightarrow> (Inl e, w') | Inr _ \<Rightarrow> (flush w', w'))"
    using hb len w by (simp add: write_frame_def ok_or_def)
  from write_all_vectored_out [OF w] obtain n where "n \<le> length bs" "aw_out w' = aw_out w @ take n bs"
    and "if n = length bs then res = Inr () else \<exists>k. res = Inl (IoError k)" and "flush w' = flush w"
    by (auto simp: hb(2) flush_def)
  then show ?thesis
    unfolding Inr sum.case by (intro exI [of _ n]) (auto simp: wf split: if_splits)
qed

text \<open>C11: What one side writes the other side reads: if \<open>write_frames\<close> succeeds on a fresh
  connection, then a \<open>FrameReader\<close> on the other end, whatever the chunking and the cancellations,
  returns exactly those frames in order and then reports the stream closed.\<close>

theorem frames_end_to_end:
  assumes "write_frames w fs = (Inr (), w')" and "aw_out w = []"
    and "list_all (\<lambda>f. fh_length (fr_header f) \<le> max_frame_size limits) fs"
    and "stream_of [] evs = \<lparr>ar_bytes = aw_out w', ar_end = EndEof\<rparr>"
  shows "drain limits [] evs = (fs, IoClosed)"
  using write_frames_Inr [OF assms(1)] assms(2-4) parse_stream_encoded
  by (auto simp: drain_eq_parse_stream)

definition slow_writer :: async_write where
  "slow_writer = \<lparr>aw_out = [], aw_script = [Accept 1, Accept 4, Accept 2], aw_flush = None\<rparr>"

theorem frames_end_to_end_witness:
  "drain default_frame_limits []
     [ReadData [1], ReadPending, ReadData [0x11, 0, 0, 1, 3, 7], ReadPending, ReadPending,
      ReadData [8, 9, 1, 0x11], ReadData [0, 0, 1, 3, 7, 8, 9]]
   = ([sample_frame, sample_frame], IoClosed)"
proof (rule frames_end_to_end [of slow_writer "[sample_frame, sample_frame]"])
  show "write_frames slow_writer [sample_frame, sample_frame] = (Inr (),
      \<lparr>aw_out = [1, 0x11, 0, 0, 1, 3, 7, 8, 9, 1, 0x11, 0, 0, 1, 3, 7, 8, 9], aw_script = [],
       aw_flush = None\<rparr>)"
    by code_simp
qed (simp_all add: slow_writer_def sample_frame_def default_frame_limits_def DEFAULT_MAX_FRAME_SIZE_def)

end
