(* ===== verification/Std_Net.thy ===== *)
theory Std_Net
  imports UK_Prelude
begin

text \<open>
  What the program uses of the Rust standard library for text and addresses: UTF-8 validation,
  the ASCII classes of bytes, \<open>str::split\<close> on an ASCII separator, and the parser of
  \<open>std::net::IpAddr\<close>. A \<open>str\<close> is the list of its UTF-8 bytes.
\<close>

section \<open>Text\<close>

abbreviation between :: "byte \<Rightarrow> byte \<Rightarrow> byte \<Rightarrow> bool" where
  "between lo hi b \<equiv> lo \<le> b \<and> b \<le> hi"

fun utf8_valid :: "byte list \<Rightarrow> bool" where
  "utf8_valid [] = True"
| "utf8_valid (a # bs) =
     (if a < 0x80 then utf8_valid bs
      else case bs of
        [] \<Rightarrow> False
      | b # cs \<Rightarrow>
          if between 0xc2 0xdf a then between 0x80 0xbf b \<and> utf8_valid cs
          else (case cs of
            [] \<Rightarrow> False
          | c # ds \<Rightarrow>
              if between 0xe0 0xef a
              then between (if a = 0xe0 then 0xa0 else 0x80) (if a = 0xed then 0x9f else 0xbf) b
                   \<and> between 0x80 0xbf c \<and> utf8_valid ds
              else (case ds of
                [] \<Rightarrow> False
              | d # es \<Rightarrow>
                  between 0xf0 0xf4 a
                  \<and> between (if a = 0xf0 then 0x90 else 0x80) (if a = 0xf4 then 0x8f else 0xbf) b
                  \<and> between 0x80 0xbf c \<and> between 0x80 0xbf d \<and> utf8_valid es)))"

lemma utf8_valid_ascii: "list_all (\<lambda>b. b < 0x80) bs \<Longrightarrow> utf8_valid bs"
  by (induction bs) auto

definition is_ascii_control :: "byte \<Rightarrow> bool" where
  "is_ascii_control b \<longleftrightarrow> b < 0x20 \<or> b = 0x7f"

definition is_ascii_digit :: "byte \<Rightarrow> bool" where
  "is_ascii_digit b \<longleftrightarrow> between 0x30 0x39 b"

definition is_ascii_upper :: "byte \<Rightarrow> bool" where
  "is_ascii_upper b \<longleftrightarrow> between 0x41 0x5a b"

definition is_ascii_lower :: "byte \<Rightarrow> bool" where
  "is_ascii_lower b \<longleftrightarrow> between 0x61 0x7a b"

definition is_ascii_alphanumeric :: "byte \<Rightarrow> bool" where
  "is_ascii_alphanumeric b \<longleftrightarrow> is_ascii_digit b \<or> is_ascii_upper b \<or> is_ascii_lower b"

definition is_ascii_hexdigit :: "byte \<Rightarrow> bool" where
  "is_ascii_hexdigit b \<longleftrightarrow> is_ascii_digit b \<or> between 0x41 0x46 b \<or> between 0x61 0x66 b"

definition to_ascii_lowercase :: "byte \<Rightarrow> byte" where
  "to_ascii_lowercase b = (if is_ascii_upper b then b + 0x20 else b)"

lemmas ascii_defs = is_ascii_control_def is_ascii_digit_def is_ascii_upper_def is_ascii_lower_def
  is_ascii_alphanumeric_def is_ascii_hexdigit_def

abbreviation dot :: byte where "dot \<equiv> 0x2e"
abbreviation colon :: byte where "colon \<equiv> 0x3a"
abbreviation hyphen :: byte where "hyphen \<equiv> 0x2d"

fun split_on :: "byte \<Rightarrow> byte list \<Rightarrow> byte list list" where
  "split_on sep [] = [[]]"
| "split_on sep (b # bs) =
     (if b = sep then [] # split_on sep bs
      else case split_on sep bs of [] \<Rightarrow> [[b]] | l # ls \<Rightarrow> (b # l) # ls)"

fun join_with :: "byte \<Rightarrow> byte list list \<Rightarrow> byte list" where
  "join_with sep [] = []"
| "join_with sep [l] = l"
| "join_with sep (l # ls) = l @ sep # join_with sep ls"

lemma split_on_ne [simp]: "split_on sep bs \<noteq> []"
  by (induction bs) (auto split: list.splits)

lemma join_split_on [simp]: "join_with sep (split_on sep bs) = bs"
proof (induction bs)
  case (Cons b bs)
  then show ?case
    by (cases "split_on sep bs"; cases "tl (split_on sep bs)") auto
qed simp

lemma split_on_no_sep: "l \<in> set (split_on sep bs) \<Longrightarrow> sep \<notin> set l"
  by (induction bs arbitrary: l) (auto split: if_splits list.splits)

lemma split_on_append_sep: "split_on sep (xs @ sep # ys) = split_on sep xs @ split_on sep ys"
  by (induction xs) (auto split: list.splits)

lemma split_on_member: "b \<in> set bs \<Longrightarrow> b \<noteq> sep \<Longrightarrow> \<exists>l \<in> set (split_on sep bs). b \<in> set l"
  by (induction bs) (auto split: list.splits)

lemma split_on_no_sep_id: "sep \<notin> set l \<Longrightarrow> split_on sep l = [l]"
  by (induction l) auto

lemma split_on_join: "ls \<noteq> [] \<Longrightarrow> \<forall>l \<in> set ls. sep \<notin> set l \<Longrightarrow> split_on sep (join_with sep ls) = ls"
  by (induction sep ls rule: join_with.induct) (simp_all add: split_on_no_sep_id split_on_append_sep)

definition strip_prefix :: "byte list \<Rightarrow> byte list \<Rightarrow> byte list option" where
  "strip_prefix p bs = (if take (length p) bs = p then Some (drop (length p) bs) else None)"

section \<open>IP addresses\<close>

datatype ip_addr = V4 u32 | V6 u128

definition read_given_char :: "byte \<Rightarrow> byte list \<Rightarrow> byte list option" where
  "read_given_char c bs = (case bs of [] \<Rightarrow> None | b # bs \<Rightarrow> if b = c then Some bs else None)"

definition to_digit :: "nat \<Rightarrow> byte \<Rightarrow> nat option" where
  "to_digit radix b =
     (if is_ascii_digit b \<and> unat (b - 0x30) < radix then Some (unat (b - 0x30))
      else if between 0x61 0x7a b \<and> unat (b - 0x57) < radix then Some (unat (b - 0x57))
      else if between 0x41 0x5a b \<and> unat (b - 0x37) < radix then Some (unat (b - 0x37))
      else None)"

fun read_digits :: "nat \<Rightarrow> nat \<Rightarrow> nat \<Rightarrow> nat \<Rightarrow> byte list \<Rightarrow> (nat \<times> nat \<times> byte list) option" where
  "read_digits radix max_digits count acc [] = Some (count, acc, [])"
| "read_digits radix max_digits count acc (b # bs) =
     (case to_digit radix b of
        None \<Rightarrow> Some (count, acc, b # bs)
      | Some d \<Rightarrow>
          if count + 1 > max_digits then None
          else read_digits radix max_digits (count + 1) (acc * radix + d) bs)"

definition read_number :: "nat \<Rightarrow> nat \<Rightarrow> bool \<Rightarrow> nat \<Rightarrow> byte list \<Rightarrow> (nat \<times> byte list) option" where
  "read_number radix max_digits allow_zero_prefix limit bs =
     (case read_digits radix max_digits 0 0 bs of
        None \<Rightarrow> None
      | Some (count, v, rest) \<Rightarrow>
          if count = 0 then None
          else if \<not> allow_zero_prefix \<and> hd bs = 0x30 \<and> 1 < count then None
          else if v < limit then Some (v, rest) else None)"

definition read_separator ::
    "byte \<Rightarrow> nat \<Rightarrow> (byte list \<Rightarrow> ('a \<times> byte list) option) \<Rightarrow> byte list \<Rightarrow> ('a \<times> byte list) option" where
  "read_separator sep i inner bs =
     Option.bind (if 0 < i then read_given_char sep bs else Some bs) inner"

definition read_octet :: "nat \<Rightarrow> byte list \<Rightarrow> (nat \<times> byte list) option" where
  "read_octet i = read_separator dot i (read_number 10 3 False 256)"

definition read_ipv4_addr :: "byte list \<Rightarrow> (u32 \<times> byte list) option" where
  "read_ipv4_addr bs =
     Option.bind (read_octet 0 bs) (\<lambda>(a, bs).
     Option.bind (read_octet 1 bs) (\<lambda>(b, bs).
     Option.bind (read_octet 2 bs) (\<lambda>(c, bs).
     Option.bind (read_octet 3 bs) (\<lambda>(d, bs).
     Some (word_of_int (((int a * 256 + int b) * 256 + int c) * 256 + int d), bs)))))"

text \<open>\<open>read_groups limit i gs bs\<close> continues at group \<open>i\<close> of \<open>limit\<close> with the groups \<open>gs\<close> read so
  far; it returns the groups, whether they end in an embedded IPv4 address, and the rest.\<close>

function read_groups :: "nat \<Rightarrow> nat \<Rightarrow> int list \<Rightarrow> byte list \<Rightarrow> int list \<times> bool \<times> byte list" where
  "read_groups limit i gs bs =
     (if limit \<le> i then (gs, False, bs)
      else case (if i < limit - 1 then read_separator colon i read_ipv4_addr bs else None) of
        Some (v4, bs') \<Rightarrow> (gs @ [uint v4 div 65536, uint v4 mod 65536], True, bs')
      | None \<Rightarrow>
          (case read_separator colon i (read_number 16 4 True 65536) bs of
             None \<Rightarrow> (gs, False, bs)
           | Some (g, bs') \<Rightarrow> read_groups limit (i + 1) (gs @ [int g]) bs'))"
  by pat_completeness auto
termination
  by (relation "measure (\<lambda>(limit, i, _). limit - i)") auto

declare read_groups.simps [simp del]

definition groups_addr :: "int list \<Rightarrow> u128" where
  "groups_addr gs = word_of_int (foldl (\<lambda>acc g. acc * 65536 + g) 0 gs)"

definition read_ipv6_addr :: "byte list \<Rightarrow> (u128 \<times> byte list) option" where
  "read_ipv6_addr bs =
     (case read_groups 8 0 [] bs of
        (head, head_ipv4, bs) \<Rightarrow>
          if length head = 8 then Some (groups_addr head, bs)
          else if head_ipv4 then None
          else Option.bind (read_given_char colon bs) (\<lambda>bs.
               Option.bind (read_given_char colon bs) (\<lambda>bs.
               case read_groups (8 - (length head + 1)) 0 [] bs of
                 (tail, _, bs) \<Rightarrow>
                   Some (groups_addr (head @ replicate (8 - length head - length tail) 0 @ tail), bs))))"

definition read_ip_addr :: "byte list \<Rightarrow> (ip_addr \<times> byte list) option" where
  "read_ip_addr bs =
     (case read_ipv4_addr bs of
        Some (a, rest) \<Rightarrow> Some (V4 a, rest)
      | None \<Rightarrow> map_option (map_prod V6 (\<lambda>r. r)) (read_ipv6_addr bs))"

definition parse_ip_addr :: "byte list \<Rightarrow> ip_addr option" where
  "parse_ip_addr bs =
     (case read_ip_addr bs of Some (a, []) \<Rightarrow> Some a | _ \<Rightarrow> None)"

text \<open>String literals as bytes.\<close>

definition bytes_of :: "string \<Rightarrow> byte list" where
  "bytes_of s = map (\<lambda>c. word_of_int (of_char c)) s"

end
