(* ===== verification/Target.thy ===== *)
theory Target
  imports Std_Net Varint
begin

text \<open>
  \<open>crates/uk-proto/src/target.rs\<close>: proxy targets, their wire form and the validation of domain
  names. A domain is the list of its UTF-8 bytes; an IPv4 address is its 32-bit and an IPv6
  address its 128-bit number.
\<close>

section \<open>Validation\<close>

definition validate_port :: "u16 \<Rightarrow> protocol_error + unit" where
  "validate_port port =
     (if port = 0 then Inl (InvalidTarget ''port must be 1..=65535'') else Inr ())"

definition is_resolver_ip_label :: "byte list \<Rightarrow> bool" where
  "is_resolver_ip_label label =
     (let all_digits = label \<noteq> [] \<and> list_all is_ascii_digit label;
          hex_literal =
            (case (case strip_prefix [0x30, 0x78] label of
                     Some rest \<Rightarrow> Some rest
                   | None \<Rightarrow> strip_prefix [0x30, 0x58] label) of
               None \<Rightarrow> False
             | Some rest \<Rightarrow> list_all is_ascii_hexdigit rest)
      in all_digits \<or> hex_literal)"

definition is_resolver_ip_shaped :: "byte list \<Rightarrow> bool" where
  "is_resolver_ip_shaped domain = list_all is_resolver_ip_label (split_on dot domain)"

fun contains_dot_dot :: "byte list \<Rightarrow> bool" where
  "contains_dot_dot (a # b # bs) = (a = dot \<and> b = dot \<or> contains_dot_dot (b # bs))"
| "contains_dot_dot _ = False"

definition starts_with :: "byte \<Rightarrow> byte list \<Rightarrow> bool" where
  "starts_with c bs = (bs \<noteq> [] \<and> hd bs = c)"

definition ends_with :: "byte \<Rightarrow> byte list \<Rightarrow> bool" where
  "ends_with c bs = (bs \<noteq> [] \<and> last bs = c)"

fun validate_labels :: "byte list list \<Rightarrow> protocol_error + unit" where
  "validate_labels [] = Inr ()"
| "validate_labels (label # labels) =
     (if label = [] \<or> 63 < length label
      then Inl (InvalidTarget ''invalid domain label length'')
      else if starts_with hyphen label \<or> ends_with hyphen label
      then Inl (InvalidTarget ''domain label cannot start or end with hyphen'')
      else validate_labels labels)"

definition validate_domain :: "byte list \<Rightarrow> protocol_error + unit" where
  "validate_domain domain =
     (if domain = [] \<or> 255 < length domain
      then Inl (InvalidTarget ''invalid domain length'')
      else if list_ex is_ascii_control domain
      then Inl (InvalidTarget ''domain contains ascii control character'')
      else if parse_ip_addr domain \<noteq> None
      then Inl (InvalidTarget ''domain must not be an IP literal'')
      else if is_resolver_ip_shaped domain
      then Inl (InvalidTarget ''domain must not be an IP literal'')
      else if starts_with dot domain \<or> ends_with dot domain \<or> contains_dot_dot domain
      then Inl (InvalidTarget ''malformed domain dot structure'')
      else if \<not> list_all (\<lambda>c. is_ascii_alphanumeric c \<or> c = dot \<or> c = hyphen) domain
      then Inl (InvalidTarget ''domain contains invalid characters'')
      else validate_labels (split_on dot domain))"

definition validate_domain_name :: "byte list \<Rightarrow> protocol_error + unit" where
  "validate_domain_name name = validate_domain name"

definition strip_leading_dot :: "byte list \<Rightarrow> byte list" where
  "strip_leading_dot bs = (if starts_with dot bs then tl bs else bs)"

definition strip_trailing_dot :: "byte list \<Rightarrow> byte list" where
  "strip_trailing_dot bs = (if ends_with dot bs then butlast bs else bs)"

definition validate_domain_pattern :: "byte list \<Rightarrow> protocol_error + unit" where
  "validate_domain_pattern pattern =
     (let stripped = strip_leading_dot pattern;
          stripped = strip_trailing_dot stripped
      in validate_domain stripped)"

section \<open>Targets\<close>

datatype target =
    Domain "byte list" u16
  | Ipv4 u32 u16
  | Ipv6 u128 u16

definition ADDR_DOMAIN :: u8 where "ADDR_DOMAIN = 0x01"
definition ADDR_IPV4 :: u8 where "ADDR_IPV4 = 0x02"
definition ADDR_IPV6 :: u8 where "ADDR_IPV6 = 0x03"

fun target_port :: "target \<Rightarrow> u16" where
  "target_port (Domain _ port) = port"
| "target_port (Ipv4 _ port) = port"
| "target_port (Ipv6 _ port) = port"

definition target_encode :: "target \<Rightarrow> protocol_error + byte list" where
  "target_encode t =
     and_then (validate_port (target_port t)) (\<lambda>_.
     case t of
       Domain domain port \<Rightarrow>
         and_then (validate_domain domain) (\<lambda>_.
         and_then (varint_encode (word_of_nat (length domain))) (\<lambda>len.
         Inr ([ADDR_DOMAIN] @ len @ domain @ put_u16 port)))
     | Ipv4 addr port \<Rightarrow>
         and_then (varint_encode 4) (\<lambda>len.
         Inr ([ADDR_IPV4] @ len @ put_u32 addr @ put_u16 port))
     | Ipv6 addr port \<Rightarrow>
         and_then (varint_encode 16) (\<lambda>len.
         Inr ([ADDR_IPV6] @ len @ put_u128 addr @ put_u16 port)))"

definition check_host_len :: "u8 \<Rightarrow> nat \<Rightarrow> protocol_error + unit" where
  "check_host_len addr_type host_len =
     (if addr_type = ADDR_DOMAIN \<and> (host_len = 0 \<or> 255 < host_len)
      then Inl (InvalidTarget ''invalid domain length'')
      else if addr_type = ADDR_IPV4 \<and> host_len \<noteq> 4
      then Inl (InvalidTarget ''invalid ipv4 length'')
      else if addr_type = ADDR_IPV6 \<and> host_len \<noteq> 16
      then Inl (InvalidTarget ''invalid ipv6 length'')
      else Inr ())"

definition usize_saturating_add :: "nat \<Rightarrow> nat \<Rightarrow> nat" where
  "usize_saturating_add a b = min (a + b) (2 ^ usize_bits - 1)"

definition decode_host :: "u8 \<Rightarrow> byte list \<Rightarrow> u16 \<Rightarrow> protocol_error + target" where
  "decode_host addr_type host port =
     (if addr_type = ADDR_DOMAIN
      then if \<not> utf8_valid host then Inl (InvalidTarget ''domain is not utf-8'')
           else and_then (validate_domain host) (\<lambda>_. Inr (Domain host port))
      else if addr_type = ADDR_IPV4
      then if length host \<noteq> 4 then Inl (InvalidTarget ''invalid ipv4 length'')
           else Inr (Ipv4 (get_u32 host) port)
      else if addr_type = ADDR_IPV6
      then if length host \<noteq> 16 then Inl (InvalidTarget ''invalid ipv6 length'')
           else Inr (Ipv6 (get_u128 host) port)
      else Inl (InvalidTarget ''unknown address type''))"

definition target_decode :: "byte list \<Rightarrow> protocol_error + (target \<times> byte list)" where
  "target_decode src =
     (case src of
        [] \<Rightarrow> Inl Truncated
      | addr_type # src \<Rightarrow>
          if addr_type \<noteq> ADDR_DOMAIN \<and> addr_type \<noteq> ADDR_IPV4 \<and> addr_type \<noteq> ADDR_IPV6
          then Inl (InvalidTarget ''unknown address type'')
          else and_then (varint_decode src) (\<lambda>(v, src).
               and_then (ok_or InvalidVarint (usize_try_from v)) (\<lambda>host_len.
               and_then (check_host_len addr_type host_len) (\<lambda>_.
               if length src < usize_saturating_add host_len 2 then Inl Truncated
               else let host = take host_len src;
                        port = get_u16 (drop host_len src);
                        src = drop 2 (drop host_len src)
                    in and_then (validate_port port) (\<lambda>_.
                       and_then (decode_host addr_type host port) (\<lambda>t. Inr (t, src)))))))"

section \<open>The domains that are accepted\<close>

definition ldh_label :: "byte list \<Rightarrow> bool" where
  "ldh_label l \<longleftrightarrow>
     l \<noteq> [] \<and> length l \<le> 63 \<and> list_all (\<lambda>c. is_ascii_alphanumeric c \<or> c = hyphen) l
     \<and> hd l \<noteq> hyphen \<and> last l \<noteq> hyphen"

definition hostname :: "byte list \<Rightarrow> bool" where
  "hostname d \<longleftrightarrow>
     d \<noteq> [] \<and> length d \<le> 255 \<and> list_all ldh_label (split_on dot d)
     \<and> parse_ip_addr d = None \<and> \<not> is_resolver_ip_shaped d"

lemma contains_dot_dot_Cons:
  "contains_dot_dot (b # bs) \<longleftrightarrow> b = dot \<and> starts_with dot bs \<or> contains_dot_dot bs"
  by (cases bs) (auto simp: starts_with_def)

lemma nonempty_labels:
  assumes "\<forall>l \<in> set (split_on dot d). l \<noteq> []"
  shows "d \<noteq> [] \<and> \<not> starts_with dot d \<and> \<not> ends_with dot d \<and> \<not> contains_dot_dot d"
  using assms
proof (induction d rule: length_induct)
  case (1 d)
  then obtain b bs where d: "d = b # bs" "b \<noteq> dot" by (cases d) (auto split: if_splits)
  show ?case
  proof (cases bs)
    case Nil
    with d show ?thesis by (simp add: starts_with_def ends_with_def)
  next
    case (Cons c cs)
    show ?thesis
    proof (cases "c = dot")
      case True
      with 1 d Cons have "cs \<noteq> [] \<and> \<not> starts_with dot cs \<and> \<not> ends_with dot cs \<and> \<not> contains_dot_dot cs"
        by simp
      with d Cons True show ?thesis
        by (auto simp: starts_with_def ends_with_def contains_dot_dot_Cons)
    next
      case False
      have "\<forall>l \<in> set (split_on dot bs). l \<noteq> []"
        using 1(2) d Cons False by (auto split: list.splits)
      with 1(1) d have "\<not> ends_with dot bs \<and> \<not> contains_dot_dot bs" by simp
      with d Cons show ?thesis
        by (simp add: starts_with_def ends_with_def contains_dot_dot_Cons)
    qed
  qed
qed

lemma validate_labels_iff:
  "validate_labels ls = Inr () \<longleftrightarrow>
     (\<forall>l \<in> set ls. l \<noteq> [] \<and> length l \<le> 63 \<and> hd l \<noteq> hyphen \<and> last l \<noteq> hyphen)"
  by (induction ls) (auto simp: starts_with_def ends_with_def)

lemma split_on_subset: "l \<in> set (split_on sep bs) \<Longrightarrow> set l \<subseteq> set bs"
  by (induction bs arbitrary: l) (force split: if_splits list.splits)+

lemma domain_chars_iff:
  "list_all (\<lambda>c. is_ascii_alphanumeric c \<or> c = dot \<or> c = hyphen) d \<longleftrightarrow>
     list_all (list_all (\<lambda>c. is_ascii_alphanumeric c \<or> c = hyphen)) (split_on dot d)"
  using split_on_member [of _ d dot] split_on_subset [of _ dot d] split_on_no_sep [of _ dot d]
  by (fastforce simp: list_all_iff)

lemma domain_char_ascii:
  assumes "is_ascii_alphanumeric c \<or> c = dot \<or> c = hyphen"
  shows "c < 0x80 \<and> \<not> is_ascii_control c"
  using assms by (auto simp: ascii_defs word_less_nat_alt word_le_nat_alt unat_word_ariths)

lemma validate_domain_iff: "validate_domain d = Inr () \<longleftrightarrow> hostname d"
proof
  assume "validate_domain d = Inr ()"
  then have "validate_labels (split_on dot d) = Inr ()"
    "list_all (\<lambda>c. is_ascii_alphanumeric c \<or> c = dot \<or> c = hyphen) d"
    "d \<noteq> [] \<and> length d \<le> 255 \<and> parse_ip_addr d = None \<and> \<not> is_resolver_ip_shaped d"
    by (auto simp: validate_domain_def split: if_splits)
  then show "hostname d"
    by (auto simp: hostname_def ldh_label_def domain_chars_iff validate_labels_iff list_all_iff)
next
  assume h: "hostname d"
  then have labels: "validate_labels (split_on dot d) = Inr ()"
    and chars: "list_all (\<lambda>c. is_ascii_alphanumeric c \<or> c = dot \<or> c = hyphen) d"
    by (auto simp: hostname_def ldh_label_def domain_chars_iff validate_labels_iff list_all_iff)
  have "\<not> starts_with dot d \<and> \<not> ends_with dot d \<and> \<not> contains_dot_dot d"
    using labels nonempty_labels [of d] by (simp add: validate_labels_iff)
  moreover have "\<not> list_ex is_ascii_control d"
    using chars domain_char_ascii by (auto simp: list_all_iff list_ex_iff)
  ultimately show "validate_domain d = Inr ()"
    using h labels chars by (simp add: validate_domain_def hostname_def)
qed

lemma validate_labels_Inl: "validate_labels ls = Inl e \<Longrightarrow> e \<noteq> Truncated"
  by (induction ls) (auto split: if_splits)

lemma validate_domain_Inl: "validate_domain d = Inl e \<Longrightarrow> e \<noteq> Truncated"
  using validate_labels_Inl by (auto simp: validate_domain_def split: if_splits)

lemma hostname_utf8: "hostname d \<Longrightarrow> utf8_valid d"
proof (rule utf8_valid_ascii)
  assume "hostname d"
  then have "list_all (\<lambda>c. is_ascii_alphanumeric c \<or> c = dot \<or> c = hyphen) d"
    by (auto simp: hostname_def ldh_label_def domain_chars_iff list_all_iff)
  then show "list_all (\<lambda>b. b < 0x80) d"
    using domain_char_ascii by (auto simp: list_all_iff)
qed

section \<open>The target codec\<close>

lemma validate_port_iff: "validate_port p = Inr u \<longleftrightarrow> p \<noteq> 0"
  by (simp add: validate_port_def)

lemma validate_port_Inl: "validate_port p = Inl e \<Longrightarrow> e \<noteq> Truncated"
  by (auto simp: validate_port_def split: if_splits)

lemma addr_type_distinct [simp]:
  "ADDR_DOMAIN \<noteq> ADDR_IPV4" "ADDR_IPV4 \<noteq> ADDR_DOMAIN" "ADDR_DOMAIN \<noteq> ADDR_IPV6"
  "ADDR_IPV6 \<noteq> ADDR_DOMAIN" "ADDR_IPV4 \<noteq> ADDR_IPV6" "ADDR_IPV6 \<noteq> ADDR_IPV4"
  by (simp_all add: ADDR_DOMAIN_def ADDR_IPV4_def ADDR_IPV6_def)

text \<open>A target seen as its address type, host bytes and port.\<close>

fun target_type :: "target \<Rightarrow> u8" where
  "target_type (Domain _ _) = ADDR_DOMAIN"
| "target_type (Ipv4 _ _) = ADDR_IPV4"
| "target_type (Ipv6 _ _) = ADDR_IPV6"

fun target_host :: "target \<Rightarrow> byte list" where
  "target_host (Domain d _) = d"
| "target_host (Ipv4 a _) = put_u32 a"
| "target_host (Ipv6 a _) = put_u128 a"

fun target_ok :: "target \<Rightarrow> bool" where
  "target_ok (Domain d p) = (p \<noteq> 0 \<and> hostname d)"
| "target_ok (Ipv4 _ p) = (p \<noteq> 0)"
| "target_ok (Ipv6 _ p) = (p \<noteq> 0)"

lemma unat_small_len: "n \<le> 255 \<Longrightarrow> unat (word_of_nat n :: u64) = n"
  by (simp add: unsigned_of_nat take_bit_eq_mod)

lemma target_host_length: "target_ok t \<Longrightarrow> 0 < length (target_host t) \<and> length (target_host t) \<le> 255"
  by (cases t) (auto simp: hostname_def)

lemma target_encode_iff:
  "target_encode t = Inr bs \<longleftrightarrow>
     target_ok t \<and> (\<exists>len. varint_encode (word_of_nat (length (target_host t))) = Inr len \<and>
       bs = target_type t # len @ target_host t @ put_u16 (target_port t))"
  by (cases t) (auto simp: target_encode_def result_simps validate_port_iff validate_domain_iff)

lemma decode_host_iff:
  assumes "p \<noteq> 0" and "check_host_len a (length h) = Inr ()"
  shows "decode_host a h p = Inr t \<longleftrightarrow>
     target_ok t \<and> target_type t = a \<and> target_host t = h \<and> target_port t = p"
  using assms put_get_u32 [of h] put_get_u128 [of h]
  by (cases t) (auto simp: decode_host_def check_host_len_def result_simps validate_domain_iff
      hostname_utf8 split: if_splits)

lemma check_host_len_target: "target_ok t \<Longrightarrow> check_host_len (target_type t) (length (target_host t)) = Inr ()"
  using target_host_length [of t] by (cases t) (auto simp: check_host_len_def)

lemma check_host_len_le: "check_host_len a n = Inr u \<Longrightarrow> a \<in> {ADDR_DOMAIN, ADDR_IPV4, ADDR_IPV6} \<Longrightarrow> n \<le> 255"
  by (auto simp: check_host_len_def split: if_splits)

lemma saturating_small [simp]: "n \<le> 255 \<Longrightarrow> usize_saturating_add n 2 = n + 2"
  by (simp add: usize_saturating_add_def usize_bits_def)

lemma target_type_in: "target_type t \<in> {ADDR_DOMAIN, ADDR_IPV4, ADDR_IPV6}"
  by (cases t) auto

lemma target_decode_iff:
  "target_decode src = Inr (t, rest) \<longleftrightarrow> (\<exists>bs. target_encode t = Inr bs \<and> src = bs @ rest)"
proof
  assume "target_decode src = Inr (t, rest)"
  then obtain a src1 v src2 where src: "src = a # src1" and a: "a \<in> {ADDR_DOMAIN, ADDR_IPV4, ADDR_IPV6}"
    and v: "varint_decode src1 = Inr (v, src2)" and chk: "check_host_len a (unat v) = Inr ()"
    and len: "usize_saturating_add (unat v) 2 \<le> length src2"
    and port: "get_u16 (drop (unat v) src2) \<noteq> 0"
    and host: "decode_host a (take (unat v) src2) (get_u16 (drop (unat v) src2)) = Inr t"
    and rest: "rest = drop 2 (drop (unat v) src2)"
    by (auto simp: target_decode_def result_simps Let_def validate_port_iff split: list.splits if_splits)
  have small: "unat v \<le> 255" using check_host_len_le [OF chk a] .
  then have len': "unat v + 2 \<le> length src2" using len by simp
  then have take: "length (take (unat v) src2) = unat v" by simp
  have t: "target_ok t" "target_type t = a" "target_host t = take (unat v) src2"
    "target_port t = get_u16 (drop (unat v) src2)"
    using decode_host_iff [OF port, of a "take (unat v) src2" t] chk take host by simp_all
  from v obtain vb where vb: "varint_encode v = Inr vb" "src1 = vb @ src2" by (auto simp: varint.dec_iff)
  have "word_of_nat (length (target_host t)) = v" using take by (simp add: t(3))
  moreover have "src2 = target_host t @ put_u16 (target_port t) @ rest"
    using len' by (simp add: t rest put_get_u16 del: drop_drop)
  ultimately show "\<exists>bs. target_encode t = Inr bs \<and> src = bs @ rest"
    using t(1,2) vb src by (simp add: target_encode_iff)
next
  assume "\<exists>bs. target_encode t = Inr bs \<and> src = bs @ rest"
  then obtain vb where ok: "target_ok t" and vb: "varint_encode (word_of_nat (length (target_host t))) = Inr vb"
    and src: "src = target_type t # vb @ target_host t @ put_u16 (target_port t) @ rest"
    by (auto simp: target_encode_iff)
  have port: "target_port t \<noteq> 0" using ok by (cases t) auto
  have "varint_decode (vb @ target_host t @ put_u16 (target_port t) @ rest) =
      Inr (word_of_nat (length (target_host t)), target_host t @ put_u16 (target_port t) @ rest)"
    using varint.roundtrip [OF vb] by simp
  moreover have "decode_host (target_type t) (target_host t) (target_port t) = Inr t"
    using decode_host_iff [OF port check_host_len_target [OF ok]] ok by simp
  ultimately show "target_decode src = Inr (t, rest)"
    using port target_type_in [of t] target_host_length [OF ok] check_host_len_target [OF ok]
    by (auto simp: target_decode_def src unat_small_len validate_port_def Let_def)
qed

lemma decode_host_Inl: "decode_host a h p = Inl e \<Longrightarrow> e \<noteq> Truncated"
  using validate_domain_Inl by (auto simp: decode_host_def and_then_eq_Inl split: if_splits)

lemma check_host_len_Inl: "check_host_len a n = Inl e \<Longrightarrow> e \<noteq> Truncated"
  by (auto simp: check_host_len_def split: if_splits)

lemma target_error_stable:
  assumes "target_decode src = Inl e" and "e \<noteq> Truncated"
  shows "target_decode (src @ xs) = Inl e"
proof -
  from assms obtain a src1 where src: "src = a # src1" by (cases src) (auto simp: target_decode_def)
  show ?thesis
  proof (cases "a \<noteq> ADDR_DOMAIN \<and> a \<noteq> ADDR_IPV4 \<and> a \<noteq> ADDR_IPV6")
    case True
    with assms show ?thesis by (auto simp: target_decode_def src)
  next
    case False
    show ?thesis
    proof (cases "varint_decode src1")
      case (Inl e')
      with assms False varint.error_stable [OF Inl] show ?thesis by (auto simp: target_decode_def src)
    next
      case (Inr r)
      obtain v src2 where r: "r = (v, src2)" by force
      have v: "varint_decode (src1 @ xs) = Inr (v, src2 @ xs)"
        using varint.success_stable Inr r by blast
      show ?thesis
      proof (cases "check_host_len a (unat v)")
        case (Inl e')
        with assms False Inr r v show ?thesis by (auto simp: target_decode_def src)
      next
        case chk: (Inr u)
        have small: "unat v \<le> 255" using check_host_len_le [OF chk] False by blast
        with assms False Inr r chk have "unat v + 2 \<le> length src2"
          by (auto simp: target_decode_def src not_le [symmetric] split: if_splits)
        then have "take (unat v) (src2 @ xs) = take (unat v) src2"
          "get_u16 (drop (unat v) (src2 @ xs)) = get_u16 (drop (unat v) src2)"
          by (simp_all add: get_u16_def)
        with assms False Inr r v chk small show ?thesis
          by (auto simp: target_decode_def src Let_def and_then_eq_Inl simp del: take_append drop_append
              split: if_splits)
      qed
    qed
  qed
qed

interpretation target: stream_codec target_encode target_decode "\<lambda>_. True" Truncated
  by unfold_locales (simp_all add: target_decode_iff target_error_stable)

section \<open>Sizes and patterns\<close>

lemma varint_byte_length: "varint_encode v = Inr bs \<Longrightarrow> unat v \<le> 255 \<Longrightarrow> length bs \<le> 2"
  using encoded_len_cases [of v "length bs"] varint_encode_length [of v bs] by auto

lemma target_encode_length:
  assumes "target_encode t = Inr bs"
  shows "length bs \<le> 260"
proof -
  from assms obtain len where "target_ok t" and len: "varint_encode (word_of_nat (length (target_host t))) = Inr len"
    and bs: "bs = target_type t # len @ target_host t @ put_u16 (target_port t)"
    by (auto simp: target_encode_iff)
  then have "length (target_host t) \<le> 255" using target_host_length by blast
  with len bs show ?thesis by (auto simp: unat_small_len dest!: varint_byte_length)
qed

lemma hostname_no_edge_dot: "hostname h \<Longrightarrow> h \<noteq> [] \<and> \<not> starts_with dot h \<and> \<not> ends_with dot h"
  using nonempty_labels [of h] by (auto simp: hostname_def ldh_label_def list_all_iff)

lemma validate_domain_pattern_iff:
  "validate_domain_pattern p = Inr () \<longleftrightarrow>
     (\<exists>h. hostname h \<and> p \<in> {h, dot # h, h @ [dot], dot # h @ [dot]})"
proof
  assume "validate_domain_pattern p = Inr ()"
  then have h: "hostname (strip_trailing_dot (strip_leading_dot p))"
    by (simp add: validate_domain_pattern_def validate_domain_iff)
  have "p = strip_leading_dot p \<or> p = dot # strip_leading_dot p"
    by (cases p) (auto simp: strip_leading_dot_def starts_with_def)
  moreover have "q = strip_trailing_dot q \<or> q = strip_trailing_dot q @ [dot]" for q
    by (cases q rule: rev_cases) (auto simp: strip_trailing_dot_def ends_with_def)
  ultimately show "\<exists>h. hostname h \<and> p \<in> {h, dot # h, h @ [dot], dot # h @ [dot]}"
    using h by (metis append_Cons insert_iff)
next
  assume "\<exists>h. hostname h \<and> p \<in> {h, dot # h, h @ [dot], dot # h @ [dot]}"
  then obtain h where h: "hostname h" and p: "p \<in> {h, dot # h, h @ [dot], dot # h @ [dot]}" by blast
  then have "strip_trailing_dot (strip_leading_dot p) = h"
    using hostname_no_edge_dot [OF h]
    by (auto simp: strip_leading_dot_def strip_trailing_dot_def starts_with_def ends_with_def)
  with h show "validate_domain_pattern p = Inr ()"
    by (simp add: validate_domain_pattern_def validate_domain_iff)
qed

section \<open>Properties\<close>


text \<open>C17: The target decoder accepts exactly the encodings of valid targets, those with a non-zero
  port whose domain, if it is one, is a host name: it returns \<open>t\<close> and leaves \<open>rest\<close> if and only if
  the buffer is the encoding of \<open>t\<close> followed by \<open>rest\<close>, so an IP literal or a resolver-shaped name
  never arrives as a domain target.\<close>

theorem target_wire_form:
  "(target_decode src = Inr (t, rest) \<longleftrightarrow> (\<exists>bs. target_encode t = Inr bs \<and> src = bs @ rest)) \<and>
   ((\<exists>bs. target_encode t = Inr bs) \<longleftrightarrow>
      target_port t \<noteq> 0 \<and>
      (case t of Domain d _ \<Rightarrow> validate_domain d = Inr () | Ipv4 _ _ \<Rightarrow> True | Ipv6 _ _ \<Rightarrow> True))"
proof
  have "\<exists>len. varint_encode (word_of_nat (length (target_host t))) = Inr len" if "target_ok t"
    using target_host_length [OF that] encoded_len_Inr_iff [of "word_of_nat (length (target_host t))"]
    by (auto simp: varint_encode_Inr_iff unat_small_len)
  then show "(\<exists>bs. target_encode t = Inr bs) \<longleftrightarrow> target_port t \<noteq> 0 \<and>
      (case t of Domain d _ \<Rightarrow> validate_domain d = Inr () | Ipv4 _ _ \<Rightarrow> True | Ipv6 _ _ \<Rightarrow> True)"
    by (cases t) (auto simp: target_encode_iff validate_domain_iff)
qed (simp add: target.dec_iff)

end
