(* ===== verification/Relay_Payloads.thy ===== *)
theory Relay_Payloads
  imports Target
begin

text \<open>
  The payloads of the relay frames: \<open>crates/uk-proto/src/tcp.rs\<close>, \<open>udp.rs\<close>, \<open>status.rs\<close> and
  \<open>datagram.rs\<close>. Each payload fills its frame, so its decoder rejects trailing bytes.
\<close>

definition is_valid_close_code :: "u16 \<Rightarrow> bool" where
  "is_valid_close_code close_code \<longleftrightarrow> close_code = 0 \<or> close_code = 1"

section \<open>TCP payloads\<close>

definition TCP_OPEN_FLAGS_NONE :: u16 where "TCP_OPEN_FLAGS_NONE = 0"
definition TCP_CLOSE_NORMAL :: u16 where "TCP_CLOSE_NORMAL = 0"
definition TCP_CLOSE_ERROR :: u16 where "TCP_CLOSE_ERROR = 1"
definition MIN_TCP_RELAY_FRAME_SIZE :: u64 where "MIN_TCP_RELAY_FRAME_SIZE = 262"

record tcp_open =
  to_target :: target
  to_open_flags :: u16

record tcp_close =
  tc_close_code :: u16

definition validate_open_flags :: "u16 \<Rightarrow> protocol_error + unit" where
  "validate_open_flags open_flags =
     (if open_flags = TCP_OPEN_FLAGS_NONE then Inr ()
      else Inl (InvalidTcpPayload ''unknown tcp open flags''))"

definition tcp_validate_close_code :: "u16 \<Rightarrow> protocol_error + unit" where
  "tcp_validate_close_code close_code =
     (if is_valid_close_code close_code then Inr ()
      else Inl (InvalidTcpPayload ''unknown tcp close code''))"

definition tcp_open_encode :: "tcp_open \<Rightarrow> protocol_error + byte list" where
  "tcp_open_encode p =
     and_then (validate_open_flags (to_open_flags p)) (\<lambda>_.
     and_then (target_encode (to_target p)) (\<lambda>bs.
     Inr (bs @ put_u16 (to_open_flags p))))"

definition tcp_open_decode :: "byte list \<Rightarrow> protocol_error + tcp_open" where
  "tcp_open_decode src =
     and_then (target_decode src) (\<lambda>(target, src).
     if length src < 2 then Inl Truncated
     else let open_flags = get_u16 src; src = drop 2 src
          in and_then (validate_open_flags open_flags) (\<lambda>_.
             if src \<noteq> [] then Inl (InvalidTcpPayload ''trailing tcp open bytes'')
             else Inr \<lparr>to_target = target, to_open_flags = open_flags\<rparr>))"

definition tcp_close_encode :: "tcp_close \<Rightarrow> protocol_error + byte list" where
  "tcp_close_encode p =
     and_then (tcp_validate_close_code (tc_close_code p)) (\<lambda>_. Inr (put_u16 (tc_close_code p)))"

definition tcp_close_decode :: "byte list \<Rightarrow> protocol_error + tcp_close" where
  "tcp_close_decode src =
     (if length src < 2 then Inl Truncated
      else if 2 < length src then Inl (InvalidTcpPayload ''trailing tcp close bytes'')
      else let close_code = get_u16 src
           in and_then (tcp_validate_close_code close_code) (\<lambda>_. Inr \<lparr>tc_close_code = close_code\<rparr>))"

section \<open>UDP payloads\<close>

definition UDP_CLOSE_NORMAL :: u16 where "UDP_CLOSE_NORMAL = 0"
definition UDP_CLOSE_ERROR :: u16 where "UDP_CLOSE_ERROR = 1"

record udp_open =
  uo_target :: target

record udp_close =
  uc_close_code :: u16

definition udp_validate_close_code :: "u16 \<Rightarrow> protocol_error + unit" where
  "udp_validate_close_code close_code =
     (if is_valid_close_code close_code then Inr ()
      else Inl (InvalidUdpPayload ''unknown udp close code''))"

definition udp_open_encode :: "udp_open \<Rightarrow> protocol_error + byte list" where
  "udp_open_encode p = target_encode (uo_target p)"

definition udp_open_decode :: "byte list \<Rightarrow> protocol_error + udp_open" where
  "udp_open_decode src =
     and_then (target_decode src) (\<lambda>(target, src).
     if src \<noteq> [] then Inl (InvalidUdpPayload ''trailing udp open bytes'')
     else Inr \<lparr>uo_target = target\<rparr>)"

definition udp_close_encode :: "udp_close \<Rightarrow> protocol_error + byte list" where
  "udp_close_encode p =
     and_then (udp_validate_close_code (uc_close_code p)) (\<lambda>_. Inr (put_u16 (uc_close_code p)))"

definition udp_close_decode :: "byte list \<Rightarrow> protocol_error + udp_close" where
  "udp_close_decode src =
     (if length src < 2 then Inl Truncated
      else if 2 < length src then Inl (InvalidUdpPayload ''trailing udp close bytes'')
      else let close_code = get_u16 src
           in and_then (udp_validate_close_code close_code) (\<lambda>_. Inr \<lparr>uc_close_code = close_code\<rparr>))"

section \<open>Relayed datagrams\<close>

definition datagram_overhead :: "u64 \<Rightarrow> protocol_error + nat" where
  "datagram_overhead flow_id = encoded_len flow_id"

definition datagram_encode :: "u64 \<Rightarrow> byte list \<Rightarrow> protocol_error + byte list" where
  "datagram_encode flow_id payload =
     and_then (varint_encode flow_id) (\<lambda>bs. Inr (bs @ payload))"

definition datagram_decode :: "byte list \<Rightarrow> protocol_error + (u64 \<times> byte list)" where
  "datagram_decode datagram =
     and_then (varint_decode datagram) (\<lambda>(flow_id, payload). Inr (flow_id, payload))"

section \<open>Error payloads\<close>

datatype error_code =
    EC_UnsupportedVersion | EC_UnsupportedFlag | EC_OversizedFrame | EC_TruncatedFrame
  | EC_InvalidTarget | EC_AuthFailed | EC_PolicyDenied | EC_ResourceLimit | EC_Protocol
  | EC_TargetUnavailable | EC_TargetTimeout

fun error_code_value :: "error_code \<Rightarrow> u64" where
  "error_code_value EC_UnsupportedVersion = 1"
| "error_code_value EC_UnsupportedFlag = 2"
| "error_code_value EC_OversizedFrame = 3"
| "error_code_value EC_TruncatedFrame = 4"
| "error_code_value EC_InvalidTarget = 5"
| "error_code_value EC_AuthFailed = 6"
| "error_code_value EC_PolicyDenied = 7"
| "error_code_value EC_ResourceLimit = 8"
| "error_code_value EC_Protocol = 9"
| "error_code_value EC_TargetUnavailable = 10"
| "error_code_value EC_TargetTimeout = 11"

fun from_protocol_error :: "protocol_error \<Rightarrow> error_code" where
  "from_protocol_error (UnsupportedVersion _) = EC_UnsupportedVersion"
| "from_protocol_error (UnsupportedFlag _) = EC_UnsupportedFlag"
| "from_protocol_error (OversizedFrame _ _) = EC_OversizedFrame"
| "from_protocol_error Truncated = EC_TruncatedFrame"
| "from_protocol_error (InvalidTarget _) = EC_InvalidTarget"
| "from_protocol_error InvalidVarint = EC_Protocol"
| "from_protocol_error (UnknownFrameType _) = EC_Protocol"
| "from_protocol_error (InvalidFrame _) = EC_Protocol"
| "from_protocol_error (InvalidSettings _) = EC_Protocol"
| "from_protocol_error (InvalidTcpPayload _) = EC_Protocol"
| "from_protocol_error (InvalidUdpPayload _) = EC_Protocol"
| "from_protocol_error (InvalidErrorPayload _) = EC_Protocol"

definition error_code_try_from :: "u64 \<Rightarrow> protocol_error + error_code" where
  "error_code_try_from value =
     (if value = 1 then Inr EC_UnsupportedVersion
      else if value = 2 then Inr EC_UnsupportedFlag
      else if value = 3 then Inr EC_OversizedFrame
      else if value = 4 then Inr EC_TruncatedFrame
      else if value = 5 then Inr EC_InvalidTarget
      else if value = 6 then Inr EC_AuthFailed
      else if value = 7 then Inr EC_PolicyDenied
      else if value = 8 then Inr EC_ResourceLimit
      else if value = 9 then Inr EC_Protocol
      else if value = 10 then Inr EC_TargetUnavailable
      else if value = 11 then Inr EC_TargetTimeout
      else Inl (InvalidErrorPayload ''unknown error code''))"

record error_payload =
  ep_code :: error_code

definition error_payload_encode :: "error_payload \<Rightarrow> protocol_error + byte list" where
  "error_payload_encode p = varint_encode (error_code_value (ep_code p))"

definition error_payload_decode :: "byte list \<Rightarrow> protocol_error + error_payload" where
  "error_payload_decode src =
     and_then (varint_decode src) (\<lambda>(value, src).
     and_then (error_code_try_from value) (\<lambda>code.
     if src \<noteq> [] then Inl (InvalidErrorPayload ''trailing error payload bytes'')
     else Inr \<lparr>ep_code = code\<rparr>))"

section \<open>Every payload codec meets the payload contract\<close>

lemma u16_payload_iff: "length src = 2 \<and> get_u16 src = c \<longleftrightarrow> put_u16 c = src"
proof
  assume "length src = 2 \<and> get_u16 src = c"
  then show "put_u16 c = src" using put_get_u16 [of src] by simp
next
  assume "put_u16 c = src"
  from this [symmetric] show "length src = 2 \<and> get_u16 src = c" by simp
qed

lemma tcp_open_decode_iff: "tcp_open_decode src = Inr p \<longleftrightarrow> tcp_open_encode p = Inr src"
proof
  assume "tcp_open_decode src = Inr p"
  then obtain r where t: "target_decode src = Inr (to_target p, r)"
    and r: "\<not> length r < 2" "drop 2 r = []" "to_open_flags p = get_u16 r"
    and f: "validate_open_flags (to_open_flags p) = Inr ()"
    by (auto simp: tcp_open_decode_def result_simps Let_def split: if_splits)
  from r have "r = put_u16 (to_open_flags p)" by (simp add: put_get_u16)
  with t f show "tcp_open_encode p = Inr src"
    by (auto simp: tcp_open_encode_def target.dec_iff)
next
  assume "tcp_open_encode p = Inr src"
  then obtain bs where f: "validate_open_flags (to_open_flags p) = Inr ()"
    and bs: "target_encode (to_target p) = Inr bs" and src: "src = bs @ put_u16 (to_open_flags p)"
    by (auto simp: tcp_open_encode_def result_simps)
  show "tcp_open_decode src = Inr p"
    using target.roundtrip [OF bs] f by (simp add: tcp_open_decode_def src)
qed

lemma tcp_close_decode_iff: "tcp_close_decode src = Inr p \<longleftrightarrow> tcp_close_encode p = Inr src"
proof -
  have "tcp_close_decode src = Inr p \<longleftrightarrow> (length src = 2 \<and> get_u16 src = tc_close_code p)
      \<and> tcp_validate_close_code (tc_close_code p) = Inr ()"
    by (cases p) (auto simp: tcp_close_decode_def result_simps Let_def)
  then show ?thesis
    unfolding u16_payload_iff by (auto simp: tcp_close_encode_def result_simps)
qed

lemma udp_open_decode_iff: "udp_open_decode src = Inr p \<longleftrightarrow> udp_open_encode p = Inr src"
  by (cases p) (auto simp: udp_open_decode_def udp_open_encode_def result_simps target.dec_iff split: if_splits)

lemma udp_close_decode_iff: "udp_close_decode src = Inr p \<longleftrightarrow> udp_close_encode p = Inr src"
proof -
  have "udp_close_decode src = Inr p \<longleftrightarrow> (length src = 2 \<and> get_u16 src = uc_close_code p)
      \<and> udp_validate_close_code (uc_close_code p) = Inr ()"
    by (cases p) (auto simp: udp_close_decode_def result_simps Let_def)
  then show ?thesis
    unfolding u16_payload_iff by (auto simp: udp_close_encode_def result_simps)
qed

lemma error_code_try_from_iff: "error_code_try_from v = Inr c \<longleftrightarrow> v = error_code_value c"
  by (cases c) (auto simp: error_code_try_from_def)

lemma error_payload_decode_iff: "error_payload_decode src = Inr p \<longleftrightarrow> error_payload_encode p = Inr src"
  by (cases p) (auto simp: error_payload_decode_def error_payload_encode_def result_simps varint.dec_iff
      error_code_try_from_iff split: if_splits)

lemma datagram_decode_iff: "datagram_decode src = Inr p \<longleftrightarrow> case_prod datagram_encode p = Inr src"
  by (cases p) (auto simp: datagram_decode_def datagram_encode_def result_simps varint.dec_iff)

interpretation tcp_open_payload: payload_codec tcp_open_encode tcp_open_decode
  by unfold_locales (rule tcp_open_decode_iff)

interpretation tcp_close_payload: payload_codec tcp_close_encode tcp_close_decode
  by unfold_locales (rule tcp_close_decode_iff)

interpretation udp_open_payload: payload_codec udp_open_encode udp_open_decode
  by unfold_locales (rule udp_open_decode_iff)

interpretation udp_close_payload: payload_codec udp_close_encode udp_close_decode
  by unfold_locales (rule udp_close_decode_iff)

interpretation error_payload_form: payload_codec error_payload_encode error_payload_decode
  by unfold_locales (rule error_payload_decode_iff)

interpretation datagram_form: payload_codec "case_prod datagram_encode" datagram_decode
  by unfold_locales (rule datagram_decode_iff)

section \<open>Properties\<close>

definition longest_domain :: "byte list" where
  "longest_domain = join_with dot (replicate 4 (replicate 63 0x61))"

definition longest_open :: tcp_open where
  "longest_open = \<lparr>to_target = Domain longest_domain 443, to_open_flags = 0\<rparr>"

lemma not_ip_five_letters: "parse_ip_addr (0x61 # 0x61 # 0x61 # 0x61 # 0x61 # bs) = None"
  by (simp add: parse_ip_addr_def read_ip_addr_def read_ipv4_addr_def read_octet_def read_separator_def
      read_number_def read_ipv6_addr_def read_groups.simps to_digit_def is_ascii_digit_def read_given_char_def)

lemma hostname_longest: "hostname longest_domain" and length_longest: "length longest_domain = 255"
proof -
  have split: "split_on dot longest_domain = replicate 4 (replicate 63 0x61)"
    unfolding longest_domain_def by (rule split_on_join) auto
  have "longest_domain = 0x61 # 0x61 # 0x61 # 0x61 # 0x61 # drop 5 longest_domain"
    by (simp add: longest_domain_def numeral_eq_Suc)
  then have "parse_ip_addr longest_domain = None" by (metis not_ip_five_letters)
  moreover show len: "length longest_domain = 255" by (simp add: longest_domain_def numeral_eq_Suc)
  moreover have "ldh_label (replicate 63 0x61)"
    by (simp add: ldh_label_def list_all_iff ascii_defs)
  moreover have "\<not> is_resolver_ip_label (0x61 # replicate 62 0x61)"
    by (simp add: is_resolver_ip_label_def strip_prefix_def ascii_defs)
  then have "\<not> is_resolver_ip_label (replicate 63 0x61)"
    using replicate_Suc [of 62 "0x61 :: byte"] by simp
  moreover have "longest_domain \<noteq> []" using len by force
  ultimately show "hostname longest_domain"
    by (simp add: hostname_def list_all_iff is_resolver_ip_shaped_def split)
qed

lemma longest_open_length: "\<exists>bs. tcp_open_encode longest_open = Inr bs \<and> length bs = 262"
proof -
  have "encoded_len 255 = Inr 2" by code_simp
  then obtain len where len: "varint_encode 255 = Inr len" "length len = 2"
    by (auto simp: varint_encode_Inr_iff)
  then have "target_encode (Domain longest_domain 443) = Inr (ADDR_DOMAIN # len @ longest_domain @ put_u16 443)"
    by (simp add: target_encode_iff hostname_longest length_longest)
  with len show ?thesis
    by (simp add: tcp_open_encode_def longest_open_def validate_open_flags_def TCP_OPEN_FLAGS_NONE_def
        length_longest)
qed

text \<open>\<open>MIN_TCP_RELAY_FRAME_SIZE\<close> is exactly the room that TCP control payloads need: every
  \<open>TCP_OPEN\<close> and \<open>TCP_CLOSE\<close> payload fits a frame of that size, and the \<open>TCP_OPEN\<close> for a domain
  of 255 bytes fills it.\<close>

lemma tcp_control_payloads_fit:
  "(tcp_open_encode p = Inr bs \<longrightarrow> length bs \<le> unat MIN_TCP_RELAY_FRAME_SIZE) \<and>
   (tcp_close_encode c = Inr bs \<longrightarrow> length bs \<le> unat MIN_TCP_RELAY_FRAME_SIZE) \<and>
   map_sum (\<lambda>e. e) length (tcp_open_encode longest_open) = Inr (unat MIN_TCP_RELAY_FRAME_SIZE)"
proof (intro conjI impI)
  assume "tcp_open_encode p = Inr bs"
  then show "length bs \<le> unat MIN_TCP_RELAY_FRAME_SIZE"
    by (auto simp: tcp_open_encode_def result_simps MIN_TCP_RELAY_FRAME_SIZE_def dest!: target_encode_length)
next
  assume "tcp_close_encode c = Inr bs"
  then show "length bs \<le> unat MIN_TCP_RELAY_FRAME_SIZE"
    by (auto simp: tcp_close_encode_def result_simps MIN_TCP_RELAY_FRAME_SIZE_def)
next
  show "map_sum (\<lambda>e. e) length (tcp_open_encode longest_open) = Inr (unat MIN_TCP_RELAY_FRAME_SIZE)"
    using longest_open_length by (auto simp: MIN_TCP_RELAY_FRAME_SIZE_def)
qed

text \<open>C19: Every relay payload has exactly one wire form: each decoder accepts a byte string if and
  only if it is the encoding of the payload returned, so trailing bytes, unknown flags, unknown
  close codes and unknown error codes are all refused.\<close>

theorem relay_payload_forms:
  "(tcp_open_decode src = Inr a \<longleftrightarrow> tcp_open_encode a = Inr src) \<and>
   (tcp_close_decode src = Inr b \<longleftrightarrow> tcp_close_encode b = Inr src) \<and>
   (udp_open_decode src = Inr c \<longleftrightarrow> udp_open_encode c = Inr src) \<and>
   (udp_close_decode src = Inr d \<longleftrightarrow> udp_close_encode d = Inr src) \<and>
   (error_payload_decode src = Inr e \<longleftrightarrow> error_payload_encode e = Inr src) \<and>
   (datagram_decode src = Inr (flow_id, payload) \<longleftrightarrow> datagram_encode flow_id payload = Inr src)"
  using datagram_form.pdec_iff [of src "(flow_id, payload)"]
  by (simp add: tcp_open_payload.pdec_iff tcp_close_payload.pdec_iff udp_open_payload.pdec_iff
      udp_close_payload.pdec_iff error_payload_form.pdec_iff)

end
