(* ===== verification/Settings.thy ===== *)
theory Settings
  imports Frame Relay_Payloads
begin

text \<open>
  \<open>crates/uk-proto/src/settings.rs\<close>: the SETTINGS payload and its negotiation. The \<open>BTreeMap\<close> of
  values is a partial function on the seven keys, iterated in key order.
\<close>

section \<open>Settings\<close>

definition DEFAULT_MAX_STREAMS :: u64 where "DEFAULT_MAX_STREAMS = 64"
definition MAX_NEGOTIATED_FLOWS :: u64 where "MAX_NEGOTIATED_FLOWS = 1000000"
definition MAX_NEGOTIATED_IDLE_TIMEOUT_SECONDS :: u64 where
  "MAX_NEGOTIATED_IDLE_TIMEOUT_SECONDS = 30 * 24 * 60 * 60"
definition PROTOCOL_REVISION_V1_0 :: u64 where "PROTOCOL_REVISION_V1_0 = 2"

datatype setting_key =
    MaxFrameSize | MaxStreams | MaxUdpFlows | SupportsUdpDatagram | SupportsUdpStreamFallback
  | IdleTimeoutSeconds | ProtocolRevision

fun setting_key_value :: "setting_key \<Rightarrow> u64" where
  "setting_key_value MaxFrameSize = 1"
| "setting_key_value MaxStreams = 2"
| "setting_key_value MaxUdpFlows = 3"
| "setting_key_value SupportsUdpDatagram = 4"
| "setting_key_value SupportsUdpStreamFallback = 5"
| "setting_key_value IdleTimeoutSeconds = 6"
| "setting_key_value ProtocolRevision = 7"

definition setting_key_try_from :: "u64 \<Rightarrow> protocol_error + setting_key" where
  "setting_key_try_from value =
     (if value = 1 then Inr MaxFrameSize
      else if value = 2 then Inr MaxStreams
      else if value = 3 then Inr MaxUdpFlows
      else if value = 4 then Inr SupportsUdpDatagram
      else if value = 5 then Inr SupportsUdpStreamFallback
      else if value = 6 then Inr IdleTimeoutSeconds
      else if value = 7 then Inr ProtocolRevision
      else Inl (InvalidSettings ''unknown setting key''))"

record settings =
  st_values :: "setting_key \<rightharpoonup> u64"

record negotiated_settings =
  ns_max_frame_size :: u64
  ns_max_streams :: u64
  ns_max_udp_flows :: u64
  ns_supports_udp_datagram :: bool
  ns_supports_udp_stream_fallback :: bool
  ns_idle_timeout_seconds :: u64

definition negotiated_frame_limits :: "negotiated_settings \<Rightarrow> frame_limits" where
  "negotiated_frame_limits n = \<lparr>max_frame_size = ns_max_frame_size n\<rparr>"

definition udp_stream_fallback_enabled :: "negotiated_settings \<Rightarrow> bool" where
  "udp_stream_fallback_enabled n \<longleftrightarrow> ns_supports_udp_stream_fallback n \<and> ns_max_udp_flows n \<noteq> 0"

definition default_settings :: settings where
  "default_settings = \<lparr>st_values = Map.empty\<rparr>"

definition settings_set :: "settings \<Rightarrow> setting_key \<Rightarrow> u64 \<Rightarrow> settings" where
  "settings_set s key value = s\<lparr>st_values := (st_values s)(key \<mapsto> value)\<rparr>"

definition settings_get :: "settings \<Rightarrow> setting_key \<Rightarrow> u64 option" where
  "settings_get s key = st_values s key"

text \<open>The entries of the map in the order in which \<open>BTreeMap\<close> iterates.\<close>

definition setting_keys :: "setting_key list" where
  "setting_keys = [MaxFrameSize, MaxStreams, MaxUdpFlows, SupportsUdpDatagram,
     SupportsUdpStreamFallback, IdleTimeoutSeconds, ProtocolRevision]"

definition settings_entries :: "settings \<Rightarrow> (setting_key \<times> u64) list" where
  "settings_entries s =
     List.map_filter (\<lambda>k. map_option (Pair k) (st_values s k)) setting_keys"

fun encode_pairs :: "(u64 \<times> u64) list \<Rightarrow> protocol_error + byte list" where
  "encode_pairs [] = Inr []"
| "encode_pairs ((key, value) # kvs) =
     and_then (varint_encode key) (\<lambda>kb.
     and_then (varint_encode value) (\<lambda>vb.
     and_then (encode_pairs kvs) (\<lambda>bs. Inr (kb @ vb @ bs))))"

definition settings_encode :: "settings \<Rightarrow> protocol_error + byte list" where
  "settings_encode s =
     and_then (varint_encode (word_of_nat (length (settings_entries s)))) (\<lambda>len.
     and_then (encode_pairs (map (map_prod setting_key_value (\<lambda>v. v)) (settings_entries s))) (\<lambda>bs.
     Inr (len @ bs)))"

fun decode_entries :: "nat \<Rightarrow> settings \<Rightarrow> byte list \<Rightarrow> protocol_error + (settings \<times> byte list)" where
  "decode_entries 0 s src = Inr (s, src)"
| "decode_entries (Suc n) s src =
     and_then (varint_decode src) (\<lambda>(key, src).
     and_then (varint_decode src) (\<lambda>(value, src).
     case setting_key_try_from key of
       Inl _ \<Rightarrow> decode_entries n s src
     | Inr key \<Rightarrow>
         if settings_get s key \<noteq> None then Inl (InvalidSettings ''duplicate setting key'')
         else decode_entries n (settings_set s key value) src))"

definition settings_decode :: "byte list \<Rightarrow> protocol_error + settings" where
  "settings_decode src =
     and_then (varint_decode src) (\<lambda>(count, src).
     and_then (ok_or InvalidVarint (usize_try_from count)) (\<lambda>count.
     and_then (decode_entries count default_settings src) (\<lambda>(s, src).
     if src \<noteq> [] then Inl (InvalidSettings ''trailing settings bytes'') else Inr s)))"

definition reject_zero_setting :: "settings \<Rightarrow> setting_key \<Rightarrow> string \<Rightarrow> protocol_error + unit" where
  "reject_zero_setting s key name =
     (if settings_get s key = Some 0 then Inl (InvalidSettings name) else Inr ())"

definition reject_boolean_setting :: "settings \<Rightarrow> setting_key \<Rightarrow> string \<Rightarrow> protocol_error + unit" where
  "reject_boolean_setting s key name =
     (case settings_get s key of
        Some value \<Rightarrow> if 1 < value then Inl (InvalidSettings name) else Inr ()
      | None \<Rightarrow> Inr ())"

definition reject_small_setting :: "settings \<Rightarrow> setting_key \<Rightarrow> string \<Rightarrow> u64 \<Rightarrow> protocol_error + unit" where
  "reject_small_setting s key name minimum =
     (case settings_get s key of
        Some value \<Rightarrow> if value < minimum then Inl (InvalidSettings name) else Inr ()
      | None \<Rightarrow> Inr ())"

definition reject_large_setting :: "settings \<Rightarrow> setting_key \<Rightarrow> string \<Rightarrow> u64 \<Rightarrow> protocol_error + unit" where
  "reject_large_setting s key name maximum =
     (case settings_get s key of
        Some value \<Rightarrow> if maximum < value then Inl (InvalidSettings name) else Inr ()
      | None \<Rightarrow> Inr ())"

definition unwrap_or :: "'a \<Rightarrow> 'a option \<Rightarrow> 'a" where
  "unwrap_or d x = (case x of Some v \<Rightarrow> v | None \<Rightarrow> d)"

definition negotiated_v1_0 :: "settings \<Rightarrow> protocol_error + negotiated_settings" where
  "negotiated_v1_0 s =
     and_then (ok_or (InvalidSettings ''missing protocol revision'') (settings_get s ProtocolRevision)) (\<lambda>revision.
     if revision \<noteq> PROTOCOL_REVISION_V1_0
     then Inl (InvalidSettings ''unsupported protocol revision'')
     else
     and_then (reject_zero_setting s MaxFrameSize ''max_frame_size'') (\<lambda>_.
     and_then (reject_zero_setting s MaxStreams ''max_streams'') (\<lambda>_.
     and_then (reject_boolean_setting s SupportsUdpDatagram ''supports_udp_datagram'') (\<lambda>_.
     and_then (reject_boolean_setting s SupportsUdpStreamFallback ''supports_udp_stream_fallback'') (\<lambda>_.
     and_then (reject_small_setting s MaxFrameSize ''max_frame_size'' MIN_TCP_RELAY_FRAME_SIZE) (\<lambda>_.
     and_then (reject_large_setting s MaxFrameSize ''max_frame_size'' MAX_FRAME_PAYLOAD_SIZE) (\<lambda>_.
     and_then (reject_large_setting s MaxStreams ''max_streams'' MAX_NEGOTIATED_FLOWS) (\<lambda>_.
     and_then (reject_large_setting s MaxUdpFlows ''max_udp_flows'' MAX_NEGOTIATED_FLOWS) (\<lambda>_.
     and_then (reject_large_setting s IdleTimeoutSeconds ''idle_timeout_seconds''
                 MAX_NEGOTIATED_IDLE_TIMEOUT_SECONDS) (\<lambda>_.
     let max_frame_size = unwrap_or DEFAULT_MAX_FRAME_SIZE (settings_get s MaxFrameSize);
         max_streams = unwrap_or DEFAULT_MAX_STREAMS (settings_get s MaxStreams);
         max_udp_flows = unwrap_or max_streams (settings_get s MaxUdpFlows)
     in if max_streams < max_udp_flows
        then Inl (InvalidSettings ''max_udp_flows exceeds max_streams'')
        else Inr \<lparr>ns_max_frame_size = max_frame_size, ns_max_streams = max_streams,
               ns_max_udp_flows = max_udp_flows,
               ns_supports_udp_datagram = unwrap_or 0 (settings_get s SupportsUdpDatagram) \<noteq> 0,
               ns_supports_udp_stream_fallback =
                 unwrap_or 1 (settings_get s SupportsUdpStreamFallback) \<noteq> 0,
               ns_idle_timeout_seconds = unwrap_or 0 (settings_get s IdleTimeoutSeconds)\<rparr>))))))))))"

section \<open>The settings codec\<close>

lemma setting_key_try_from_iff: "setting_key_try_from v = Inr k \<longleftrightarrow> v = setting_key_value k"
  by (cases k) (auto simp: setting_key_try_from_def)

text \<open>The entries of a payload whose key is known, in wire order.\<close>

fun known_entries :: "(u64 \<times> u64) list \<Rightarrow> (setting_key \<times> u64) list" where
  "known_entries [] = []"
| "known_entries ((key, value) # kvs) =
     (case setting_key_try_from key of
        Inl _ \<Rightarrow> known_entries kvs
      | Inr k \<Rightarrow> (k, value) # known_entries kvs)"

lemma st_values_set: "st_values (settings_set s k v) = (st_values s)(k \<mapsto> v)"
  by (simp add: settings_set_def)

lemma map_add_upd_map_of:
  assumes "k \<notin> fst ` set kvs"
  shows "f(k \<mapsto> v) ++ map_of kvs = f ++ map_of ((k, v) # kvs)"
proof
  fix x
  from assms have "map_of kvs k = None" by (simp add: map_of_eq_None_iff)
  then show "(f(k \<mapsto> v) ++ map_of kvs) x = (f ++ map_of ((k, v) # kvs)) x"
    by (simp add: map_add_def split: option.split)
qed

lemma decode_entries_sound:
  assumes "decode_entries n s src = Inr (s', rest)"
  shows "\<exists>kvs bs. length kvs = n \<and> encode_pairs kvs = Inr bs \<and> src = bs @ rest \<and>
      distinct (map fst (known_entries kvs)) \<and>
      (\<forall>k \<in> fst ` set (known_entries kvs). st_values s k = None) \<and>
      st_values s' = st_values s ++ map_of (known_entries kvs)"
  using assms
proof (induction n arbitrary: s src)
  case 0
  then show ?case by (intro exI [of _ "[]"]) auto
next
  case (Suc n)
  from Suc.prems obtain key val src1 src2 where
    v: "varint_decode src = Inr (key, src1)" "varint_decode src1 = Inr (val, src2)"
    and step: "(case setting_key_try_from key of Inl _ \<Rightarrow> decode_entries n s src2
       | Inr key \<Rightarrow> if settings_get s key \<noteq> None then Inl (InvalidSettings ''duplicate setting key'')
           else decode_entries n (settings_set s key val) src2) = Inr (s', rest)"
    by (auto simp: result_simps)
  from v obtain kb vb where enc: "varint_encode key = Inr kb" "varint_encode val = Inr vb"
    and src: "src = kb @ vb @ src2" by (auto simp: varint.dec_iff)
  show ?case
  proof (cases "setting_key_try_from key")
    case (Inl e)
    with step have "decode_entries n s src2 = Inr (s', rest)" by simp
    from Suc.IH [OF this] obtain kvs bs where IH: "length kvs = n" "encode_pairs kvs = Inr bs" "src2 = bs @ rest"
      "distinct (map fst (known_entries kvs))" "\<forall>k \<in> fst ` set (known_entries kvs). st_values s k = None"
      "st_values s' = st_values s ++ map_of (known_entries kvs)" by blast
    have known: "known_entries ((key, val) # kvs) = known_entries kvs" using Inl by simp
    have "encode_pairs ((key, val) # kvs) = Inr (kb @ vb @ bs)" "length ((key, val) # kvs) = Suc n"
      "src = (kb @ vb @ bs) @ rest" using enc IH src by simp_all
    with IH(4-6) show ?thesis unfolding known [symmetric] by blast
  next
    case (Inr k)
    with step have free: "st_values s k = None" and "decode_entries n (settings_set s k val) src2 = Inr (s', rest)"
      by (simp_all add: settings_get_def split: if_splits)
    from Suc.IH [OF this(2)] obtain kvs bs where
      IH: "length kvs = n" "encode_pairs kvs = Inr bs" "src2 = bs @ rest"
      "distinct (map fst (known_entries kvs))"
      "\<forall>k' \<in> fst ` set (known_entries kvs). ((st_values s)(k \<mapsto> val)) k' = None"
      "st_values s' = (st_values s)(k \<mapsto> val) ++ map_of (known_entries kvs)"
      unfolding st_values_set by blast
    from IH(5) have new: "k \<notin> fst ` set (known_entries kvs)" by force
    have known: "known_entries ((key, val) # kvs) = (k, val) # known_entries kvs" using Inr by simp
    have "st_values s' = st_values s ++ map_of ((k, val) # known_entries kvs)"
      unfolding IH(6) map_add_upd_map_of [OF new] ..
    moreover have "\<forall>k' \<in> fst ` set ((k, val) # known_entries kvs). st_values s k' = None"
      using IH(5) free new by (force split: if_splits)
    moreover have "encode_pairs ((key, val) # kvs) = Inr (kb @ vb @ bs)" using enc IH(2) by simp
    moreover have "distinct (map fst ((k, val) # known_entries kvs))" using IH(4) new by simp
    moreover have "length ((key, val) # kvs) = Suc n" "src = (kb @ vb @ bs) @ rest" using IH(1,3) src by simp_all
    ultimately show ?thesis unfolding known [symmetric] by blast
  qed
qed

lemma decode_entries_complete:
  assumes "encode_pairs kvs = Inr bs" and "distinct (map fst (known_entries kvs))"
    and "\<forall>k \<in> fst ` set (known_entries kvs). st_values s k = None"
  shows "\<exists>s'. decode_entries (length kvs) s (bs @ rest) = Inr (s', rest) \<and>
      st_values s' = st_values s ++ map_of (known_entries kvs)"
  using assms
proof (induction kvs arbitrary: s bs)
  case Nil
  then show ?case by simp
next
  case (Cons kv kvs)
  obtain key val where kv: "kv = (key, val)" by force
  with Cons.prems(1) obtain kb vb bs' where enc: "varint_encode key = Inr kb" "varint_encode val = Inr vb"
    "encode_pairs kvs = Inr bs'" and bs: "bs = kb @ vb @ bs'"
    by (auto simp: result_simps)
  note dec = varint.roundtrip [OF enc(1)] varint.roundtrip [OF enc(2)]
  show ?case
  proof (cases "setting_key_try_from key")
    case (Inl e)
    with Cons.IH [OF enc(3), of s] Cons.prems(2,3) kv dec bs show ?thesis by simp
  next
    case (Inr k)
    with Cons.prems kv have k: "k \<notin> fst ` set (known_entries kvs)" "st_values s k = None"
      "distinct (map fst (known_entries kvs))" by auto
    have "\<forall>k' \<in> fst ` set (known_entries kvs). st_values (settings_set s k val) k' = None"
      using Cons.prems(3) kv Inr k(1) by (auto simp: st_values_set)
    from Cons.IH [OF enc(3) k(3) this] obtain s' where
      "decode_entries (length kvs) (settings_set s k val) (bs' @ rest) = Inr (s', rest)"
      "st_values s' = st_values s ++ map_of ((k, val) # known_entries kvs)"
      unfolding st_values_set map_add_upd_map_of [OF k(1)] by blast
    moreover have "known_entries (kv # kvs) = (k, val) # known_entries kvs" using Inr kv by simp
    moreover have "decode_entries (length (kv # kvs)) s (bs @ rest) =
        decode_entries (length kvs) (settings_set s k val) (bs' @ rest)"
      using Inr kv dec bs k(2) by (simp add: settings_get_def)
    ultimately show ?thesis by (simp only:) blast
  qed
qed

lemma settings_decode_iff:
  "settings_decode src = Inr s \<longleftrightarrow>
     (\<exists>kvs len bs. length kvs < 2 ^ 64 \<and> varint_encode (word_of_nat (length kvs)) = Inr len \<and>
        encode_pairs kvs = Inr bs \<and> src = len @ bs \<and> distinct (map fst (known_entries kvs)) \<and>
        st_values s = map_of (known_entries kvs))"
proof
  assume "settings_decode src = Inr s"
  then obtain count src1 where c: "varint_decode src = Inr (count, src1)"
    and d: "decode_entries (unat count) default_settings src1 = Inr (s, [])"
    by (auto simp: settings_decode_def result_simps split: if_splits)
  from c obtain len where len: "varint_encode count = Inr len" "src = len @ src1" by (auto simp: varint.dec_iff)
  from decode_entries_sound [OF d] obtain kvs bs where kvs: "length kvs = unat count" "encode_pairs kvs = Inr bs"
    "src1 = bs" "distinct (map fst (known_entries kvs))"
    "st_values s = Map.empty ++ map_of (known_entries kvs)"
    by (auto simp: default_settings_def)
  have "length kvs < 2 ^ 64" unfolding kvs(1) using unat_less_pow [of count] by simp
  moreover have "word_of_nat (length kvs) = count" by (simp add: kvs(1))
  ultimately show "\<exists>kvs len bs. length kvs < 2 ^ 64 \<and> varint_encode (word_of_nat (length kvs)) = Inr len \<and>
        encode_pairs kvs = Inr bs \<and> src = len @ bs \<and> distinct (map fst (known_entries kvs)) \<and>
        st_values s = map_of (known_entries kvs)"
    using len kvs by (intro exI [of _ kvs] exI [of _ len] exI [of _ bs]) simp
next
  assume "\<exists>kvs len bs. length kvs < 2 ^ 64 \<and> varint_encode (word_of_nat (length kvs)) = Inr len \<and>
        encode_pairs kvs = Inr bs \<and> src = len @ bs \<and> distinct (map fst (known_entries kvs)) \<and>
        st_values s = map_of (known_entries kvs)"
  then obtain kvs len bs where k: "length kvs < 2 ^ 64" "varint_encode (word_of_nat (length kvs)) = Inr len"
    "encode_pairs kvs = Inr bs" "src = len @ bs" "distinct (map fst (known_entries kvs))"
    "st_values s = map_of (known_entries kvs)" by blast
  have "\<forall>k \<in> fst ` set (known_entries kvs). st_values default_settings k = None"
    by (simp add: default_settings_def)
  from decode_entries_complete [OF k(3,5) this, of "[]"] obtain s' where
    s': "decode_entries (length kvs) default_settings bs = Inr (s', [])"
    "st_values s' = map_of (known_entries kvs)" by (auto simp: default_settings_def)
  then have "s' = s" using k(6) by simp
  with s' varint.roundtrip [OF k(2)] k(1,4) show "settings_decode src = Inr s"
    by (simp add: settings_decode_def unat_u64_of_nat)
qed

lemma known_entries_values: "known_entries (map (map_prod setting_key_value (\<lambda>v. v)) es) = es"
  by (induction es) (auto simp: setting_key_try_from_iff [THEN iffD2])

lemma map_filter_entries:
  "map_of (List.map_filter (\<lambda>k. map_option (Pair k) (f k)) ks) = (\<lambda>k. if k \<in> set ks then f k else None)"
  "map fst (List.map_filter (\<lambda>k. map_option (Pair k) (f k)) ks) = filter (\<lambda>k. f k \<noteq> None) ks"
  by (induction ks) (auto simp: List.map_filter_simps fun_eq_iff split: option.splits)

lemma settings_entries_map_of: "map_of (settings_entries s) = st_values s"
proof
  fix k
  have "k \<in> set setting_keys" by (cases k) (simp_all add: setting_keys_def)
  then show "map_of (settings_entries s) k = st_values s k"
    by (simp add: settings_entries_def map_filter_entries)
qed

lemma settings_entries_distinct: "distinct (map fst (settings_entries s))"
  unfolding settings_entries_def map_filter_entries by (rule distinct_filter) (simp add: setting_keys_def)

lemma settings_entries_length: "length (settings_entries s) \<le> 7"
proof -
  have "length (settings_entries s) = length (map fst (settings_entries s))" by simp
  also have "\<dots> \<le> length setting_keys"
    unfolding settings_entries_def map_filter_entries by (rule length_filter_le)
  finally show ?thesis by (simp add: setting_keys_def)
qed

lemma settings_roundtrip:
  assumes "settings_encode s = Inr bs"
  shows "settings_decode bs = Inr s"
proof -
  from assms obtain len ps where "varint_encode (word_of_nat (length (settings_entries s))) = Inr len"
    "encode_pairs (map (map_prod setting_key_value (\<lambda>v. v)) (settings_entries s)) = Inr ps" "bs = len @ ps"
    by (auto simp: settings_encode_def result_simps)
  then show ?thesis
    using settings_entries_length [of s] unfolding settings_decode_iff
    by (intro exI [of _ "map (map_prod setting_key_value (\<lambda>v. v)) (settings_entries s)"])
      (simp add: known_entries_values settings_entries_map_of settings_entries_distinct)
qed

section \<open>Negotiation\<close>

definition negotiable :: "settings \<Rightarrow> bool" where
  "negotiable s \<longleftrightarrow>
     st_values s ProtocolRevision = Some 2 \<and>
     pred_option (\<lambda>v. 262 \<le> v \<and> v \<le> 16777216) (st_values s MaxFrameSize) \<and>
     pred_option (\<lambda>v. 0 < v \<and> v \<le> 1000000) (st_values s MaxStreams) \<and>
     pred_option (\<lambda>v. v \<le> unwrap_or 64 (st_values s MaxStreams)) (st_values s MaxUdpFlows) \<and>
     pred_option (\<lambda>v. v \<le> 1) (st_values s SupportsUdpDatagram) \<and>
     pred_option (\<lambda>v. v \<le> 1) (st_values s SupportsUdpStreamFallback) \<and>
     pred_option (\<lambda>v. v \<le> 2592000) (st_values s IdleTimeoutSeconds)"

lemmas reject_defs = reject_zero_setting_def reject_boolean_setting_def reject_small_setting_def
  reject_large_setting_def settings_get_def

lemmas limit_defs = PROTOCOL_REVISION_V1_0_def MIN_TCP_RELAY_FRAME_SIZE_def MAX_FRAME_PAYLOAD_SIZE_def
  MAX_NEGOTIATED_FLOWS_def MAX_NEGOTIATED_IDLE_TIMEOUT_SECONDS_def DEFAULT_MAX_FRAME_SIZE_def
  DEFAULT_MAX_STREAMS_def

lemma reject_iff:
  "reject_zero_setting s k m = Inr () \<longleftrightarrow> pred_option (\<lambda>v. 0 < v) (st_values s k)"
  "reject_boolean_setting s k m = Inr () \<longleftrightarrow> pred_option (\<lambda>v. v \<le> 1) (st_values s k)"
  "reject_small_setting s k m lo = Inr () \<longleftrightarrow> pred_option (\<lambda>v. lo \<le> v) (st_values s k)"
  "reject_large_setting s k m hi = Inr () \<longleftrightarrow> pred_option (\<lambda>v. v \<le> hi) (st_values s k)"
  by (cases "st_values s k"; auto simp: reject_defs not_less not_le word_neq_0_conv)+

lemma negotiated_v1_0_iff:
  "negotiated_v1_0 s = Inr n \<longleftrightarrow> negotiable s \<and>
     n = \<lparr>ns_max_frame_size = unwrap_or 65536 (st_values s MaxFrameSize),
          ns_max_streams = unwrap_or 64 (st_values s MaxStreams),
          ns_max_udp_flows = unwrap_or (unwrap_or 64 (st_values s MaxStreams)) (st_values s MaxUdpFlows),
          ns_supports_udp_datagram = unwrap_or 0 (st_values s SupportsUdpDatagram) \<noteq> 0,
          ns_supports_udp_stream_fallback = unwrap_or 1 (st_values s SupportsUdpStreamFallback) \<noteq> 0,
          ns_idle_timeout_seconds = unwrap_or 0 (st_values s IdleTimeoutSeconds)\<rparr>"
proof -
  let ?streams = "unwrap_or 64 (st_values s MaxStreams)"
  have udp: "?streams < unwrap_or ?streams (st_values s MaxUdpFlows) \<longleftrightarrow>
      \<not> pred_option (\<lambda>v. v \<le> ?streams) (st_values s MaxUdpFlows)"
    by (cases "st_values s MaxUdpFlows") (simp_all add: unwrap_or_def not_le)
  have streams: "pred_option (\<lambda>v. v \<le> 1000000) (st_values s MaxStreams) \<Longrightarrow> ?streams \<le> 1000000"
    by (cases "st_values s MaxStreams") (simp_all add: unwrap_or_def)
  have "negotiable s \<longleftrightarrow>
     st_values s ProtocolRevision = Some 2 \<and>
     pred_option (\<lambda>v. 0 < v) (st_values s MaxFrameSize) \<and> pred_option (\<lambda>v. 0 < v) (st_values s MaxStreams) \<and>
     pred_option (\<lambda>v. v \<le> 1) (st_values s SupportsUdpDatagram) \<and>
     pred_option (\<lambda>v. v \<le> 1) (st_values s SupportsUdpStreamFallback) \<and>
     pred_option (\<lambda>v. 262 \<le> v) (st_values s MaxFrameSize) \<and>
     pred_option (\<lambda>v. v \<le> 16777216) (st_values s MaxFrameSize) \<and>
     pred_option (\<lambda>v. v \<le> 1000000) (st_values s MaxStreams) \<and>
     pred_option (\<lambda>v. v \<le> 1000000) (st_values s MaxUdpFlows) \<and>
     pred_option (\<lambda>v. v \<le> 2592000) (st_values s IdleTimeoutSeconds) \<and>
     pred_option (\<lambda>v. v \<le> ?streams) (st_values s MaxUdpFlows)"
    using streams
    by (cases "st_values s MaxFrameSize"; cases "st_values s MaxStreams"; cases "st_values s MaxUdpFlows")
      (auto simp: negotiable_def unwrap_or_def word_less_nat_alt word_le_nat_alt)
  then show ?thesis
    by (auto simp: negotiated_v1_0_def result_simps settings_get_def reject_iff limit_defs Let_def udp
        split: if_splits)
qed

lemma negotiated_bounds:
  assumes "negotiated_v1_0 s = Inr n"
  shows "262 \<le> ns_max_frame_size n \<and> ns_max_frame_size n \<le> 16777216 \<and>
    0 < ns_max_streams n \<and> ns_max_streams n \<le> 1000000 \<and> ns_max_udp_flows n \<le> ns_max_streams n \<and>
    ns_idle_timeout_seconds n \<le> 2592000"
  using assms unfolding negotiated_v1_0_iff negotiable_def
  by (cases "st_values s MaxFrameSize"; cases "st_values s MaxStreams"; cases "st_values s MaxUdpFlows";
      cases "st_values s IdleTimeoutSeconds") (auto simp: unwrap_or_def)

section \<open>Properties\<close>

text \<open>C15: The SETTINGS decoder accepts exactly the payloads made of a count and that many key and
  value pairs in which no known key occurs twice, with nothing behind them. It keeps the known
  entries and skips the unknown ones, so what one side encodes the other side decodes unchanged.\<close>

theorem settings_wire:
  "(settings_decode src = Inr s \<longleftrightarrow>
     (\<exists>kvs len bs. length kvs < 2 ^ 64 \<and> varint_encode (word_of_nat (length kvs)) = Inr len \<and>
        encode_pairs kvs = Inr bs \<and> src = len @ bs \<and> distinct (map fst (known_entries kvs)) \<and>
        st_values s = map_of (known_entries kvs))) \<and>
   (settings_encode s = Inr out \<longrightarrow> settings_decode out = Inr s)"
  using settings_decode_iff settings_roundtrip by blast

definition sample_settings :: settings where
  "sample_settings = settings_set (settings_set default_settings ProtocolRevision 2) MaxStreams 8"

theorem settings_wire_witness:
  "settings_encode sample_settings = Inr [2, 2, 8, 7, 2] \<and>
   settings_decode [2, 2, 8, 7, 2] = Inr sample_settings"
proof -
  have "settings_encode sample_settings = Inr [2, 2, 8, 7, 2]" by code_simp
  with settings_wire [of "[]" sample_settings "[2, 2, 8, 7, 2]"] show ?thesis by blast
qed



end
