(* ===== verification/Hash_Map.thy ===== *)
theory Hash_Map
  imports Main "HOL-Library.AList"
begin

text \<open>
  \<open>std::collections::HashMap\<close>: its contract as a locale and the association list that stands for
  it in the models. Where the program iterates over a map, the order is a parameter of the
  operation that iterates, since the standard library leaves it open.
\<close>

type_synonym ('k, 'v) hash_map = "('k \<times> 'v) list"

definition hm_get :: "('k, 'v) hash_map \<Rightarrow> 'k \<Rightarrow> 'v option" where
  "hm_get m = map_of m"

definition hm_insert :: "'k \<Rightarrow> 'v \<Rightarrow> ('k, 'v) hash_map \<Rightarrow> ('k, 'v) hash_map" where
  "hm_insert k v m = AList.update k v m"

definition hm_remove :: "'k \<Rightarrow> ('k, 'v) hash_map \<Rightarrow> ('k, 'v) hash_map" where
  "hm_remove k m = AList.delete k m"

definition hm_len :: "('k, 'v) hash_map \<Rightarrow> nat" where
  "hm_len m = length m"

definition hm_keys :: "('k, 'v) hash_map \<Rightarrow> 'k set" where
  "hm_keys m = fst ` set m"

definition hm_wf :: "('k, 'v) hash_map \<Rightarrow> bool" where
  "hm_wf m \<longleftrightarrow> distinct (map fst m)"

locale finite_map =
  fixes get :: "'m \<Rightarrow> 'k \<Rightarrow> 'v option"
    and insert_at :: "'k \<Rightarrow> 'v \<Rightarrow> 'm \<Rightarrow> 'm"
    and remove_at :: "'k \<Rightarrow> 'm \<Rightarrow> 'm"
    and len :: "'m \<Rightarrow> nat"
    and wf :: "'m \<Rightarrow> bool"
    and keys :: "'m \<Rightarrow> 'k set"
  assumes get_insert: "get (insert_at k v m) = (get m)(k \<mapsto> v)"
    and get_remove: "get (remove_at k m) = (get m)(k := None)"
    and keys_dom: "keys m = dom (get m)"
    and wf_insert: "wf m \<Longrightarrow> wf (insert_at k v m)"
    and wf_remove: "wf m \<Longrightarrow> wf (remove_at k m)"
    and finite_keys: "finite (keys m)"
    and len_keys: "wf m \<Longrightarrow> len m = card (keys m)"
begin

lemma keys_insert: "keys (insert_at k v m) = insert k (keys m)"
  by (auto simp: keys_dom get_insert)

lemma keys_remove: "keys (remove_at k m) = keys m - {k}"
  by (auto simp: keys_dom get_remove split: if_splits)

lemma len_insert: "wf m \<Longrightarrow> len (insert_at k v m) = (if k \<in> keys m then len m else len m + 1)"
  using finite_keys [of m] by (simp add: len_keys wf_insert keys_insert insert_absorb)

lemma len_remove: "wf m \<Longrightarrow> len (remove_at k m) = (if k \<in> keys m then len m - 1 else len m)"
  using finite_keys [of m] by (simp add: len_keys wf_remove keys_remove)

lemma len_insert_le: "wf m \<Longrightarrow> len (insert_at k v m) \<le> len m + 1"
  by (simp add: len_insert)

lemma len_remove_le: "wf m \<Longrightarrow> len (remove_at k m) \<le> len m"
  by (simp add: len_remove)

lemma get_None_iff: "get m k = None \<longleftrightarrow> k \<notin> keys m"
  by (auto simp: keys_dom)

end

lemma hm_get_delete: "hm_get (hm_remove k m) = (hm_get m)(k := None)"
  by (simp add: hm_get_def hm_remove_def AList.delete_conv' fun_eq_iff)

interpretation hm: finite_map hm_get hm_insert hm_remove hm_len hm_wf hm_keys
proof
  show "hm_get (hm_insert k v m) = (hm_get m)(k \<mapsto> v)" for k :: 'a and v :: 'b and m
    by (simp add: hm_get_def hm_insert_def update_conv' fun_eq_iff)
  show "hm_keys m = dom (hm_get m)" for m :: "('a, 'b) hash_map"
    by (simp add: hm_keys_def hm_get_def dom_map_of_conv_image_fst)
  show "hm_wf (hm_insert k v m)" if "hm_wf m" for k :: 'a and v :: 'b and m
    using that by (simp add: hm_wf_def hm_insert_def distinct_update)
  show "hm_wf (hm_remove k m)" if "hm_wf m" for k :: 'a and m :: "('a, 'b) hash_map"
    using that by (simp add: hm_wf_def hm_remove_def distinct_delete)
  show "hm_len m = card (hm_keys m)" if "hm_wf m" for m :: "('a, 'b) hash_map"
    using that distinct_card [of "map fst m"] by (simp add: hm_wf_def hm_len_def hm_keys_def)
qed (simp_all add: hm_get_delete hm_keys_def)

lemma hm_empty [simp]: "hm_get [] = Map.empty" "hm_keys [] = {}" "hm_wf []" "hm_len [] = 0"
  by (simp_all add: hm_get_def hm_keys_def hm_wf_def hm_len_def fun_eq_iff)

lemma hm_get_filter:
  "hm_wf m \<Longrightarrow> hm_get (filter (\<lambda>(k, v). P v) m) k =
     (case hm_get m k of Some v \<Rightarrow> if P v then Some v else None | None \<Rightarrow> None)"
proof (induction m)
  case (Cons kv m)
  then show ?case
    by (cases kv) (auto simp: hm_get_def hm_wf_def map_of_eq_None_iff split: option.splits dest: map_of_SomeD)
qed simp

lemma hm_wf_filter [simp]: "hm_wf m \<Longrightarrow> hm_wf (filter P m)"
  by (simp add: hm_wf_def distinct_map_filter)

lemma hm_len_filter: "hm_len (filter P m) \<le> hm_len m"
  by (simp add: hm_len_def)

lemma hm_remove_all:
  "hm_get (fold hm_remove ks m) k = (if k \<in> set ks then None else hm_get m k)"
  "hm_wf m \<Longrightarrow> hm_wf (fold hm_remove ks m)"
  "hm_wf m \<Longrightarrow> hm_len (fold hm_remove ks m) \<le> hm_len m"
proof (induction ks arbitrary: m)
  case (Cons k' ks)
  { case 1
    show ?case using Cons.IH(1) by (simp add: hm.get_remove)
  next
    case 2
    then show ?case using Cons.IH(2) by (simp add: hm.wf_remove)
  next
    case 3
    then show ?case using Cons.IH(3) [of "hm_remove k' m"] hm.len_remove_le [of m k']
      by (simp add: hm.wf_remove)
  }
qed simp_all

lemma hm_mem_get: "hm_wf m \<Longrightarrow> (k, v) \<in> set m \<longleftrightarrow> hm_get m k = Some v"
  by (simp add: hm_get_def hm_wf_def)

end
