(* ===== verification/Replay_Cache.thy ===== *)
theory Replay_Cache
  imports Varint Hash_Map
begin

text \<open>
  \<open>ReplayCache\<close> of \<open>crates/uk-auth/src/lib.rs\<close>: the accepted nonce pairs with their insertion
  order. The specification is the queue of the live pairs; the hash map only mirrors its keys. The errors of the crate are here too.
\<close>

section \<open>The cache\<close>

record replay_key =
  rk_server_nonce :: bytes32
  rk_client_nonce :: bytes32

record replay_cache =
  rc_window :: duration
  rc_max_entries :: nat
  rc_entries :: "(replay_key, instant) hash_map"
  rc_order :: "(instant \<times> replay_key) list"

datatype auth_error =
    AE_UnknownKey | AE_CredentialNotActive | AE_InvalidTag | AE_ClockSkew | AE_Replay
  | AE_SecretTooShort | AE_SecretNotRandom | AE_InvalidKeyIdLength | AE_InvalidCredentialStatus
  | AE_DuplicateCredentialKeyId | AE_NoCredentials | AE_InvalidCredentialPolicyGroup
  | AE_InvalidCredentialValidityWindow | AE_InvalidPayload string | AE_Protocol protocol_error

definition DEFAULT_REPLAY_CACHE_WINDOW_SECONDS :: nat where
  "DEFAULT_REPLAY_CACHE_WINDOW_SECONDS = 300"

definition DEFAULT_REPLAY_CACHE_MAX_ENTRIES :: nat where
  "DEFAULT_REPLAY_CACHE_MAX_ENTRIES = 65536"

definition with_max_entries :: "duration \<Rightarrow> nat \<Rightarrow> replay_cache" where
  "with_max_entries window max_entries =
     \<lparr>rc_window = window, rc_max_entries = max max_entries 1, rc_entries = [], rc_order = []\<rparr>"

definition replay_cache_new :: "duration \<Rightarrow> replay_cache" where
  "replay_cache_new window = with_max_entries window DEFAULT_REPLAY_CACHE_MAX_ENTRIES"

definition default_replay_cache :: replay_cache where
  "default_replay_cache = replay_cache_new (from_secs DEFAULT_REPLAY_CACHE_WINDOW_SECONDS)"

function prune :: "instant \<Rightarrow> replay_cache \<Rightarrow> replay_cache" where
  "prune now c =
     (case rc_order c of
        [] \<Rightarrow> c
      | (inserted_at, key) # rest \<Rightarrow>
          if now - inserted_at \<le> rc_window c then c
          else prune now (c\<lparr>rc_order := rest, rc_entries := hm_remove key (rc_entries c)\<rparr>))"
  by pat_completeness auto
termination
  by (relation "measure (\<lambda>(_, c). length (rc_order c))") auto

definition evict_oldest :: "replay_cache \<Rightarrow> bool \<times> replay_cache" where
  "evict_oldest c =
     (case rc_order c of
        (_, key) # rest \<Rightarrow> (True, c\<lparr>rc_order := rest, rc_entries := hm_remove key (rc_entries c)\<rparr>)
      | [] \<Rightarrow> (False, c))"

function make_room :: "replay_cache \<Rightarrow> replay_cache" where
  "make_room c =
     (if rc_max_entries c \<le> hm_len (rc_entries c)
      then case evict_oldest c of
             (True, c') \<Rightarrow> make_room c'
           | (False, c') \<Rightarrow> c'
      else c)"
  by pat_completeness auto
termination
  by (relation "measure (\<lambda>c. length (rc_order c))") (auto simp: evict_oldest_def split: list.splits)

declare prune.simps [simp del] make_room.simps [simp del]

definition check_and_insert_at ::
    "replay_cache \<Rightarrow> instant \<Rightarrow> bytes32 \<Rightarrow> bytes32 \<Rightarrow> (auth_error + unit) \<times> replay_cache" where
  "check_and_insert_at c inserted_at server_nonce client_nonce =
     (let c = prune inserted_at c;
          key = \<lparr>rk_server_nonce = server_nonce, rk_client_nonce = client_nonce\<rparr>
      in if hm_get (rc_entries c) key \<noteq> None then (Inl AE_Replay, c)
         else let c = make_room c
              in (Inr (), c\<lparr>rc_entries := hm_insert key inserted_at (rc_entries c),
                           rc_order := rc_order c @ [(inserted_at, key)]\<rparr>))"

section \<open>The invariant\<close>

definition replay_inv :: "replay_cache \<Rightarrow> bool" where
  "replay_inv c \<longleftrightarrow>
     1 \<le> rc_max_entries c \<and> length (rc_order c) \<le> rc_max_entries c \<and>
     sorted (map fst (rc_order c)) \<and> distinct (map snd (rc_order c)) \<and>
     hm_wf (rc_entries c) \<and> hm_keys (rc_entries c) = snd ` set (rc_order c) \<and>
     list_all (\<lambda>(t, k). hm_get (rc_entries c) k = Some t) (rc_order c)"

definition same_limits :: "replay_cache \<Rightarrow> replay_cache \<Rightarrow> bool" where
  "same_limits c d \<longleftrightarrow> rc_window d = rc_window c \<and> rc_max_entries d = rc_max_entries c"

lemma replay_inv_new: "replay_inv (with_max_entries window n)"
  by (simp add: replay_inv_def with_max_entries_def)

lemma replay_inv_len: "replay_inv c \<Longrightarrow> hm_len (rc_entries c) = length (rc_order c)"
  using distinct_card [of "map snd (rc_order c)"]
  by (simp add: replay_inv_def hm.len_keys)

lemma replay_inv_pop:
  assumes "replay_inv c" and "rc_order c = (t, k) # rest"
  shows "replay_inv (c\<lparr>rc_order := rest, rc_entries := hm_remove k (rc_entries c)\<rparr>)"
  using assms
  by (auto simp: replay_inv_def hm.wf_remove hm.keys_remove hm.get_remove list_all_iff)
    (metis image_eqI snd_conv)

lemma prune_spec:
  assumes "replay_inv c"
  shows "replay_inv (prune now c) \<and> same_limits c (prune now c) \<and>
    rc_order (prune now c) = dropWhile (\<lambda>(t, _). rc_window c < now - t) (rc_order c)"
  using assms
proof (induction now c rule: prune.induct)
  case (1 now c)
  show ?case
  proof (cases "rc_order c")
    case Nil
    with 1(2) show ?thesis by (simp add: prune.simps [of now c] same_limits_def)
  next
    case (Cons p rest)
    obtain t k where p: "p = (t, k)" by force
    show ?thesis
    proof (cases "now - t \<le> rc_window c")
      case True
      with 1(2) Cons p show ?thesis by (simp add: prune.simps [of now c] same_limits_def)
    next
      case False
      with 1(1) [OF Cons p [symmetric] False] replay_inv_pop [OF 1(2), of t k rest] Cons p show ?thesis
        by (simp add: prune.simps [of now c] same_limits_def)
    qed
  qed
qed

lemma make_room_spec:
  assumes "replay_inv c"
  shows "replay_inv (make_room c) \<and> same_limits c (make_room c) \<and>
    rc_order (make_room c) = drop (length (rc_order c) - (rc_max_entries c - 1)) (rc_order c)"
  using assms
proof (induction c rule: make_room.induct)
  case (1 c)
  show ?case
  proof (cases "rc_max_entries c \<le> length (rc_order c)")
    case True
    with 1(2) obtain t k rest where order: "rc_order c = (t, k) # rest"
      by (cases "rc_order c") (auto simp: replay_inv_def)
    let ?c = "c\<lparr>rc_order := rest, rc_entries := hm_remove k (rc_entries c)\<rparr>"
    have ev: "evict_oldest c = (True, ?c)" by (simp add: evict_oldest_def order)
    have room: "make_room c = make_room ?c"
      using True replay_inv_len [OF 1(2)] ev by (simp add: make_room.simps [of c])
    have "length rest = rc_max_entries c - 1"
      using True 1(2) order by (auto simp: replay_inv_def)
    with 1(1) [OF _ ev [symmetric]] True 1(2) replay_inv_len [OF 1(2)] replay_inv_pop [OF 1(2) order]
    show ?thesis by (simp add: room order same_limits_def)
  next
    case False
    with 1(2) replay_inv_len [OF 1(2)] show ?thesis
      by (simp add: make_room.simps [of c] same_limits_def)
  qed
qed

section \<open>The queue specification\<close>

definition live :: "duration \<Rightarrow> instant \<Rightarrow> (instant \<times> replay_key) list \<Rightarrow> (instant \<times> replay_key) list" where
  "live window now q = filter (\<lambda>(t, _). now - t \<le> window) q"

definition queue_insert ::
    "duration \<Rightarrow> nat \<Rightarrow> instant \<Rightarrow> replay_key \<Rightarrow> (instant \<times> replay_key) list
     \<Rightarrow> (auth_error + unit) \<times> (instant \<times> replay_key) list" where
  "queue_insert window max_entries now key q =
     (let q = live window now q
      in if key \<in> snd ` set q then (Inl AE_Replay, q)
         else (Inr (), drop (length q - (max_entries - 1)) q @ [(now, key)]))"

lemma queue_insert_iff:
  "queue_insert window n now key q = (r, q') \<longleftrightarrow>
     (if key \<in> snd ` set (live window now q) then r = Inl AE_Replay \<and> q' = live window now q
      else r = Inr () \<and> q' = drop (length (live window now q) - (n - 1)) (live window now q) @ [(now, key)])"
  by (auto simp: queue_insert_def Let_def)

lemma live_dropWhile:
  "sorted (map fst q) \<Longrightarrow> dropWhile (\<lambda>(t, _). window < now - t) q = live window now q"
proof (induction q)
  case (Cons p q)
  obtain t k where p: "p = (t, k)" by force
  have "list_all (\<lambda>(t, _). now - t \<le> window) q" if "now - t \<le> window"
    using Cons.prems p that by (fastforce simp: list_all_iff)
  with Cons p show ?case by (auto simp: live_def list_all_iff intro!: filter_True [symmetric])
qed (simp add: live_def)

lemma check_and_insert_at_refines:
  assumes "replay_inv c" and "\<forall>(t, _) \<in> set (rc_order c). t \<le> now"
    and "check_and_insert_at c now sn cn = (r, c')"
  shows "replay_inv c' \<and> same_limits c c' \<and>
    queue_insert (rc_window c) (rc_max_entries c) now \<lparr>rk_server_nonce = sn, rk_client_nonce = cn\<rparr> (rc_order c)
      = (r, rc_order c')"
proof -
  let ?key = "\<lparr>rk_server_nonce = sn, rk_client_nonce = cn\<rparr>"
  let ?p = "prune now c"
  have sorted: "sorted (map fst (rc_order c))" using assms(1) by (simp add: replay_inv_def)
  have p: "replay_inv ?p" "same_limits c ?p" "rc_order ?p = live (rc_window c) now (rc_order c)"
    using prune_spec [OF assms(1), of now] live_dropWhile [OF sorted] by simp_all
  have known: "hm_get (rc_entries ?p) ?key \<noteq> None \<longleftrightarrow> ?key \<in> snd ` set (rc_order ?p)"
    using p(1) by (auto simp: replay_inv_def hm.get_None_iff)
  show ?thesis
  proof (cases "?key \<in> snd ` set (rc_order ?p)")
    case True
    with assms(3) known p show ?thesis
      by (simp add: check_and_insert_at_def queue_insert_def Let_def)
  next
    case False
    let ?m = "make_room ?p"
    note m = make_room_spec [OF p(1)]
    have c': "c' = ?m\<lparr>rc_entries := hm_insert ?key now (rc_entries ?m), rc_order := rc_order ?m @ [(now, ?key)]\<rparr>"
      and r: "r = Inr ()"
      using assms(3) known False by (simp_all add: check_and_insert_at_def Let_def)
    have sub: "set (rc_order ?m) \<subseteq> set (rc_order c)" "set (rc_order ?m) \<subseteq> set (rc_order ?p)"
      using m p(3) set_drop_subset [of _ "rc_order ?p"] by (auto simp: live_def)
    have "length (rc_order ?m) \<le> rc_max_entries c - 1" "1 \<le> rc_max_entries c"
      using m p(2) assms(1) by (auto simp: same_limits_def replay_inv_def)
    moreover have fresh: "?key \<notin> snd ` set (rc_order ?m)" using False sub by blast
    moreover have "\<forall>(t, _) \<in> set (rc_order ?m). t \<le> now" using sub assms(2) by blast
    ultimately have "replay_inv c'"
      using m p(2) by (auto simp: c' replay_inv_def same_limits_def sorted_append hm.wf_insert hm.keys_insert
          hm.get_insert list_all_iff image_iff)
    with m p False r show ?thesis
      by (simp add: c' queue_insert_def Let_def same_limits_def)
  qed
qed

section \<open>Runs of the cache\<close>

fun replay_run ::
    "replay_cache \<Rightarrow> (instant \<times> bytes32 \<times> bytes32) list \<Rightarrow> (auth_error + unit) list \<times> replay_cache" where
  "replay_run c [] = ([], c)"
| "replay_run c ((now, sn, cn) # evs) =
     (case check_and_insert_at c now sn cn of
        (r, c') \<Rightarrow> (case replay_run c' evs of (rs, c'') \<Rightarrow> (r # rs, c'')))"

definition accepted :: "(auth_error + unit) list \<Rightarrow> nat" where
  "accepted rs = length (filter is_ok rs)"

abbreviation times_le :: "instant \<Rightarrow> replay_cache \<Rightarrow> bool" where
  "times_le now c \<equiv> \<forall>(t, _) \<in> set (rc_order c). t \<le> now"

lemma check_and_insert_at_times:
  assumes "replay_inv c" and "times_le now c" and "check_and_insert_at c now sn cn = (r, c')"
  shows "times_le now c'"
proof -
  have "queue_insert (rc_window c) (rc_max_entries c) now \<lparr>rk_server_nonce = sn, rk_client_nonce = cn\<rparr> (rc_order c)
      = (r, rc_order c')"
    using check_and_insert_at_refines [OF assms] by blast
  then have "set (rc_order c') \<subseteq> insert (now, \<lparr>rk_server_nonce = sn, rk_client_nonce = cn\<rparr>) (set (rc_order c))"
    by (auto simp: queue_insert_iff live_def split: if_splits dest: in_set_dropD)
  with assms(2) show ?thesis by fastforce
qed

lemma replay_run_inv:
  assumes "replay_inv c" and "times_le t0 c" and "sorted (t0 # map fst evs)" and "replay_run c evs = (rs, c')"
  shows "replay_inv c' \<and> same_limits c c' \<and> times_le (last (t0 # map fst evs)) c'"
  using assms
proof (induction evs arbitrary: c t0 rs)
  case Nil
  then show ?case by (simp add: same_limits_def)
next
  case (Cons ev evs)
  obtain now sn cn where ev: "ev = (now, sn, cn)" by (metis prod_cases3)
  obtain r c1 where c1: "check_and_insert_at c now sn cn = (r, c1)" by force
  obtain rs' where run: "replay_run c1 evs = (rs', c')"
    using Cons.prems(4) ev c1 by (auto split: prod.splits)
  have le: "times_le now c" using Cons.prems(2,3) ev by fastforce
  have "replay_inv c1 \<and> same_limits c c1" "times_le now c1"
    using check_and_insert_at_refines [OF Cons.prems(1) le c1]
      check_and_insert_at_times [OF Cons.prems(1) le c1] by blast+
  moreover have "sorted (now # map fst evs)" using Cons.prems(3) ev by simp
  ultimately show ?case
    using Cons.IH [OF _ _ _ run, of now] ev by (auto simp: same_limits_def)
qed

lemma drop_keeps:
  assumes "length post + 1 < n"
  shows "drop (length (pre @ x # post) - (n - 1)) (pre @ x # post)
       = drop (length (pre @ x # post) - (n - 1)) pre @ x # post"
  using assms by (simp add: drop_append)

lemma check_and_insert_at_keeps:
  assumes "replay_inv c" and "times_le now c" and "check_and_insert_at c now sn cn = (r, c')"
    and order: "rc_order c = pre @ (t0, k) # post" and "now - t0 \<le> rc_window c"
    and room: "is_ok r \<Longrightarrow> length post + 1 < rc_max_entries c"
  shows "\<exists>pre' post'. rc_order c' = pre' @ (t0, k) # post' \<and>
    length post' \<le> length post + (if is_ok r then 1 else 0)"
proof -
  let ?key = "\<lparr>rk_server_nonce = sn, rk_client_nonce = cn\<rparr>"
  let ?live = "live (rc_window c) now"
  have q: "queue_insert (rc_window c) (rc_max_entries c) now ?key (rc_order c) = (r, rc_order c')"
    using check_and_insert_at_refines [OF assms(1-3)] by blast
  have l: "?live (rc_order c) = ?live pre @ (t0, k) # ?live post"
    using assms(5) by (simp add: order live_def)
  have len: "length (?live post) \<le> length post" by (simp add: live_def)
  show ?thesis
  proof (cases "is_ok r")
    case True
    then have r: "r = Inr ()" by (cases r) auto
    with q have "rc_order c' = drop (length (?live (rc_order c)) - (rc_max_entries c - 1)) (?live (rc_order c))
        @ [(now, ?key)]"
      by (auto simp: queue_insert_iff split: if_splits)
    also have "\<dots> = drop (length (?live (rc_order c)) - (rc_max_entries c - 1)) (?live pre) @ (t0, k) # ?live post
        @ [(now, ?key)]"
      unfolding l using room [OF True] len by (subst drop_keeps) auto
    finally have "rc_order c' = drop (length (?live (rc_order c)) - (rc_max_entries c - 1)) (?live pre)
        @ (t0, k) # (?live post @ [(now, ?key)])" by simp
    with len True show ?thesis by (intro exI conjI) auto
  next
    case False
    with q have "rc_order c' = ?live (rc_order c)"
      by (auto simp: queue_insert_iff split: if_splits)
    with len l False show ?thesis by (intro exI conjI) auto
  qed
qed

lemma replay_run_keeps:
  assumes "replay_inv c" and "times_le t1 c" and "sorted (t1 # map fst evs @ [t])"
    and "replay_run c evs = (rs, c')" and "rc_order c = pre @ (t0, k) # post" and "t - t0 \<le> rc_window c"
    and "length post + accepted rs < rc_max_entries c"
  shows "(t0, k) \<in> set (rc_order c')"
  using assms
proof (induction evs arbitrary: c t1 rs pre post)
  case (Cons ev evs)
  obtain now sn cn where ev: "ev = (now, sn, cn)" by (metis prod_cases3)
  obtain r c1 where c1: "check_and_insert_at c now sn cn = (r, c1)" by force
  obtain rs' where run: "replay_run c1 evs = (rs', c')" and rs: "rs = r # rs'"
    using Cons.prems(4) ev c1 by (auto split: prod.splits)
  have le: "times_le now c" and "now \<le> t" and st: "sorted (now # map fst evs @ [t])"
    using Cons.prems(2,3) ev by fastforce+
  then have age: "now - t0 \<le> rc_window c" using Cons.prems(6) by linarith
  note inv = check_and_insert_at_refines [OF Cons.prems(1) le c1]
  have "is_ok r \<Longrightarrow> length post + 1 < rc_max_entries c"
    using Cons.prems(7) rs by (simp add: accepted_def)
  from check_and_insert_at_keeps [OF Cons.prems(1) le c1 Cons.prems(5) age this]
  obtain pre' post' where o: "rc_order c1 = pre' @ (t0, k) # post'"
    "length post' \<le> length post + (if is_ok r then 1 else 0)" by blast
  show ?case
  proof (rule Cons.IH [OF _ _ st run o(1)])
    show "replay_inv c1" "times_le now c1" "t - t0 \<le> rc_window c1"
      using inv check_and_insert_at_times [OF Cons.prems(1) le c1] Cons.prems(6)
      by (simp_all add: same_limits_def)
    show "length post' + accepted rs' < rc_max_entries c1"
      using o(2) Cons.prems(7) rs inv by (auto simp: accepted_def same_limits_def split: if_splits)
  qed
qed simp

section \<open>Properties\<close>

text \<open>C24: The replay cache is the bounded queue of the recent pairs. Under its invariant, one call
  drops the pairs older than the window, refuses a pair that is still in the queue, and otherwise
  evicts the oldest pairs down to the capacity and appends the new one; it keeps the invariant,
  by which the map and the queue hold the same pairs, at most \<open>max_entries\<close> of them.\<close>

theorem replay_cache_refines_queue:
  assumes "replay_inv c" and "\<forall>(t, _) \<in> set (rc_order c). t \<le> now"
    and "check_and_insert_at c now sn cn = (r, c')"
  shows "queue_insert (rc_window c) (rc_max_entries c) now
           \<lparr>rk_server_nonce = sn, rk_client_nonce = cn\<rparr> (rc_order c) = (r, rc_order c')
    \<and> replay_inv c' \<and> hm_len (rc_entries c') \<le> rc_max_entries c"
proof -
  note refines = check_and_insert_at_refines [OF assms]
  then have "hm_len (rc_entries c') \<le> rc_max_entries c'"
    using replay_inv_len [of c'] by (simp add: replay_inv_def)
  with refines show ?thesis by (simp add: same_limits_def)
qed

definition small_cache :: replay_cache where
  "small_cache = snd (check_and_insert_at (snd (check_and_insert_at (with_max_entries 10 2) 3 1 1)) 5 1 2)"

lemma small_cache_reachable: "replay_inv small_cache \<and> times_le 5 small_cache"
proof -
  have "replay_run (with_max_entries 10 2) [(3, 1, 1), (5, 1, 2)] = ([Inr (), Inr ()], small_cache)"
    by code_simp
  from replay_run_inv [OF replay_inv_new _ _ this, of 0] show ?thesis
    by (simp add: with_max_entries_def)
qed

theorem replay_cache_refines_queue_witness:
  "\<exists>c'. check_and_insert_at small_cache 14 7 7 = (Inr (), c') \<and> replay_inv c' \<and>
     hm_len (rc_entries c') \<le> 2 \<and>
     rc_order c' = [(5, \<lparr>rk_server_nonce = 1, rk_client_nonce = 2\<rparr>), (14, \<lparr>rk_server_nonce = 7, rk_client_nonce = 7\<rparr>)]"
proof -
  obtain r c' where step: "check_and_insert_at small_cache 14 7 7 = (r, c')" by force
  have "\<forall>(t, _) \<in> set (rc_order small_cache). t \<le> 14" using small_cache_reachable by fastforce
  note q = replay_cache_refines_queue [OF conjunct1 [OF small_cache_reachable] this step]
  have "queue_insert (rc_window small_cache) (rc_max_entries small_cache) 14
      \<lparr>rk_server_nonce = 7, rk_client_nonce = 7\<rparr> (rc_order small_cache) =
      (Inr (), [(5, \<lparr>rk_server_nonce = 1, rk_client_nonce = 2\<rparr>), (14, \<lparr>rk_server_nonce = 7, rk_client_nonce = 7\<rparr>)])"
    "rc_max_entries small_cache = 2" by code_simp+
  with q step show ?thesis by auto
qed

text \<open>C10: An accepted nonce pair cannot be replayed: however many other pairs are offered in
  between, as long as fewer than \<open>max_entries\<close> of them are accepted, offering the pair again within
  the window is refused.\<close>

theorem accepted_nonce_is_not_replayed:
  assumes "replay_inv c" and "times_le t0 c"
    and "check_and_insert_at c t0 sn cn = (Inr (), c1)"
    and "replay_run c1 evs = (rs, c2)" and "sorted (t0 # map fst evs @ [t])"
    and "accepted rs < rc_max_entries c" and "t - t0 \<le> rc_window c"
  shows "fst (check_and_insert_at c2 t sn cn) = Inl AE_Replay"
proof -
  let ?key = "\<lparr>rk_server_nonce = sn, rk_client_nonce = cn\<rparr>"
  note c1 = check_and_insert_at_refines [OF assms(1-3)] check_and_insert_at_times [OF assms(1-3)]
  from c1(1) obtain pre where pre: "rc_order c1 = pre @ (t0, ?key) # []"
    by (auto simp: queue_insert_iff split: if_splits)
  have lim: "rc_window c1 = rc_window c" "rc_max_entries c1 = rc_max_entries c"
    using c1 by (simp_all add: same_limits_def)
  have inv1: "replay_inv c1" using c1 by blast
  have kept: "(t0, ?key) \<in> set (rc_order c2)"
    by (rule replay_run_keeps [OF inv1 c1(2) assms(5,4) pre]) (use assms(6,7) lim in simp_all)
  have st: "sorted (t0 # map fst evs)" using assms(5) by (auto simp: sorted_append)
  note c2 = replay_run_inv [OF inv1 c1(2) st assms(4)]
  have "last (t0 # map fst evs) \<le> t" using assms(5) by (cases evs rule: rev_cases) (auto simp: sorted_append)
  with c2 have le: "times_le t c2" by fastforce
  obtain r c3 where c3: "check_and_insert_at c2 t sn cn = (r, c3)" by force
  have "(t0, ?key) \<in> set (live (rc_window c2) t (rc_order c2))"
    using kept assms(7) c2 lim by (simp add: live_def same_limits_def)
  then have "?key \<in> snd ` set (live (rc_window c2) t (rc_order c2))" by force
  with check_and_insert_at_refines [OF conjunct1 [OF c2] le c3] c3 show ?thesis
    by (simp add: queue_insert_iff)
qed

theorem accepted_nonce_is_not_replayed_witness:
  "fst (check_and_insert_at (snd (replay_run small_cache [(6, 8, 8), (7, 1, 2)])) 15 1 2) = Inl AE_Replay"
proof -
  let ?c = "snd (check_and_insert_at (with_max_entries 10 2) 3 1 1)"
  have run: "replay_run (with_max_entries 10 2) [(3, 1, 1)] = ([Inr ()], ?c)" by code_simp
  from replay_run_inv [OF replay_inv_new _ _ run, of 0]
  have inv: "replay_inv ?c" and le: "times_le 5 ?c"
    by (fastforce simp: with_max_entries_def)+
  have step: "check_and_insert_at ?c 5 1 2 = (Inr (), small_cache)" by code_simp
  have run2: "replay_run small_cache [(6, 8, 8), (7, 1, 2)] =
      ([Inr (), Inl AE_Replay], snd (replay_run small_cache [(6, 8, 8), (7, 1, 2)]))" by code_simp
  have "accepted [Inr (), Inl AE_Replay] < rc_max_entries ?c" "15 - 5 \<le> rc_window ?c" by code_simp+
  with accepted_nonce_is_not_replayed [OF inv le step run2, of 15] show ?thesis by simp
qed

end
