(* ===== verification/Auth.thy ===== *)
theory Auth
  imports Replay_Cache
begin

text \<open>
  \<open>crates/uk-auth/src/lib.rs\<close>: credentials, the challenge and response payloads, and the
  verification of a response. HMAC-SHA256 is the parameter \<open>hmac\<close>, a function of the key and the
  message (the concatenation of the updates), whose constructor accepts keys of every length; the
  constant-time comparisons are equality of byte strings; the bytes of the random generator and
  the process-local dummy secret are arguments.
\<close>

section \<open>Credentials\<close>

definition MAX_KEY_ID_LEN :: nat where "MAX_KEY_ID_LEN = 64"
definition MIN_SECRET_LEN :: nat where "MIN_SECRET_LEN = 32"
definition MIN_PLAUSIBLE_DISTINCT_SECRET_BYTES :: nat where "MIN_PLAUSIBLE_DISTINCT_SECRET_BYTES = 8"
definition MIN_RESPONSE_TAIL_LEN :: nat where "MIN_RESPONSE_TAIL_LEN = 73"
definition MIN_AUTH_RESPONSE_PAYLOAD_SIZE :: u64 where "MIN_AUTH_RESPONSE_PAYLOAD_SIZE = 75"
definition MAX_AUTH_CAPABILITIES_LEN :: nat where "MAX_AUTH_CAPABILITIES_LEN = 1024"
definition UNREADABLE_CLOCK :: u64 where "UNREADABLE_CLOCK = - 1"

text \<open>The bytes of \<open>UK-AUTH-v1\<close>.\<close>

definition AUTH_LABEL :: "byte list" where
  "AUTH_LABEL = [0x55, 0x4b, 0x2d, 0x41, 0x55, 0x54, 0x48, 0x2d, 0x76, 0x31]"

datatype credential_status = CS_Active | CS_Disabled | CS_Retired

record credential =
  cr_key_id :: "byte list"
  cr_secret :: "byte list"
  cr_status :: credential_status
  cr_not_before :: "u64 option"
  cr_not_after :: "u64 option"
  cr_policy_group :: "byte list option"

record authenticated_identity =
  ai_key_id :: "byte list"
  ai_policy_group :: "byte list option"

definition identity_from :: "credential \<Rightarrow> authenticated_identity" where
  "identity_from c = \<lparr>ai_key_id = cr_key_id c, ai_policy_group = cr_policy_group c\<rparr>"

definition validate_key_id :: "byte list \<Rightarrow> auth_error + unit" where
  "validate_key_id key_id =
     (if key_id = [] \<or> MAX_KEY_ID_LEN < length key_id then Inl AE_InvalidKeyIdLength else Inr ())"

definition is_single_repeated_byte :: "byte list \<Rightarrow> bool" where
  "is_single_repeated_byte secret =
     (case secret of
        [] \<Rightarrow> False
      | first # _ \<Rightarrow> foldl (\<lambda>differences byte. differences OR (byte XOR first)) 0 secret = 0)"

definition distinct_byte_count :: "byte list \<Rightarrow> nat" where
  "distinct_byte_count secret =
     (let seen = foldl (\<lambda>seen byte. seen[unat byte := True]) (replicate 256 False) secret
      in length (filter (\<lambda>was_seen. was_seen) seen))"

definition warns_on_low_secret_diversity :: "byte list \<Rightarrow> bool" where
  "warns_on_low_secret_diversity secret \<longleftrightarrow>
     distinct_byte_count secret < MIN_PLAUSIBLE_DISTINCT_SECRET_BYTES"

definition validate_shared_secret :: "byte list \<Rightarrow> auth_error + unit" where
  "validate_shared_secret secret =
     (if length secret < MIN_SECRET_LEN then Inl AE_SecretTooShort
      else if is_single_repeated_byte secret then Inl AE_SecretNotRandom
      else Inr ())"

definition validate_auth_material :: "credential \<Rightarrow> auth_error + unit" where
  "validate_auth_material c =
     and_then (validate_key_id (cr_key_id c)) (\<lambda>_. validate_shared_secret (cr_secret c))"

definition credential_active :: "byte list \<Rightarrow> byte list \<Rightarrow> auth_error + credential" where
  "credential_active key_id secret =
     (let c = \<lparr>cr_key_id = key_id, cr_secret = secret, cr_status = CS_Active,
               cr_not_before = None, cr_not_after = None, cr_policy_group = None\<rparr>
      in and_then (validate_auth_material c) (\<lambda>_. Inr c))"

definition is_active_at :: "credential \<Rightarrow> u64 \<Rightarrow> bool" where
  "is_active_at c now =
     (if now = UNREADABLE_CLOCK then False
      else if cr_status c \<noteq> CS_Active then False
      else if (case cr_not_before c of Some not_before \<Rightarrow> now < not_before | None \<Rightarrow> False) then False
      else if (case cr_not_after c of Some not_after \<Rightarrow> not_after < now | None \<Rightarrow> False) then False
      else True)"

text \<open>The key id in the first 64 bytes of the buffer and its length in the last eight, little
  endian; the copy stops at 64 bytes.\<close>

definition pad_key_id_for_ct :: "byte list \<Rightarrow> byte list" where
  "pad_key_id_for_ct key_id =
     (let len = min (length key_id) MAX_KEY_ID_LEN
      in take len key_id @ replicate (MAX_KEY_ID_LEN - len) 0
         @ rev (put_u64 (word_of_nat (length key_id))))"

definition credential_eq :: "credential \<Rightarrow> credential \<Rightarrow> bool" where
  "credential_eq c d \<longleftrightarrow>
     (pad_key_id_for_ct (cr_key_id c) = pad_key_id_for_ct (cr_key_id d)
      \<and> length (cr_secret c) = length (cr_secret d) \<and> cr_secret c = cr_secret d)
     \<and> cr_status c = cr_status d \<and> cr_not_before c = cr_not_before d
     \<and> cr_not_after c = cr_not_after d \<and> cr_policy_group c = cr_policy_group d"

fun find_credential_from ::
    "credential option \<Rightarrow> byte list \<Rightarrow> credential list \<Rightarrow> credential option" where
  "find_credential_from matched input_padded [] = matched"
| "find_credential_from matched input_padded (c # cs) =
     (let is_match = (input_padded = pad_key_id_for_ct (cr_key_id c))
      in find_credential_from (if is_match \<and> matched = None then Some c else matched) input_padded cs)"

definition find_credential :: "credential list \<Rightarrow> byte list \<Rightarrow> credential option" where
  "find_credential credentials key_id =
     find_credential_from None (pad_key_id_for_ct key_id) credentials"

section \<open>Payloads\<close>

record auth_challenge =
  ac_server_nonce :: bytes32
  ac_server_time :: u64
  ac_server_capabilities :: "byte list"
  ac_limits :: "byte list"

record auth_response =
  ar_key_id :: "byte list"
  ar_client_nonce :: bytes32
  ar_client_time :: u64
  ar_client_capabilities :: "byte list"
  ar_tag :: bytes32

definition read_varbytes :: "byte list \<Rightarrow> string \<Rightarrow> auth_error + (byte list \<times> byte list)" where
  "read_varbytes src name =
     and_then (map_err AE_Protocol (varint_decode src)) (\<lambda>(v, src).
     and_then (ok_or (AE_Protocol InvalidVarint) (usize_try_from v)) (\<lambda>len.
     if MAX_AUTH_CAPABILITIES_LEN < len
     then Inl (AE_InvalidPayload ''payload length exceeds maximum allowed'')
     else if length src < len then Inl (AE_InvalidPayload name)
     else Inr (take len src, drop len src)))"

definition validate_capabilities_len :: "nat \<Rightarrow> auth_error + unit" where
  "validate_capabilities_len len =
     (if MAX_AUTH_CAPABILITIES_LEN < len
      then Inl (AE_InvalidPayload ''payload length exceeds maximum allowed'') else Inr ())"

definition put_varbytes :: "byte list \<Rightarrow> auth_error + byte list" where
  "put_varbytes bs =
     and_then (map_err AE_Protocol (varint_encode (word_of_nat (length bs)))) (\<lambda>len. Inr (len @ bs))"

definition challenge_generate :: "bytes32 \<Rightarrow> u64 \<Rightarrow> auth_challenge" where
  "challenge_generate random_nonce now =
     \<lparr>ac_server_nonce = random_nonce, ac_server_time = now, ac_server_capabilities = [], ac_limits = []\<rparr>"

definition challenge_encode :: "auth_challenge \<Rightarrow> auth_error + byte list" where
  "challenge_encode c =
     and_then (validate_capabilities_len (length (ac_server_capabilities c))) (\<lambda>_.
     and_then (validate_capabilities_len (length (ac_limits c))) (\<lambda>_.
     and_then (put_varbytes (ac_server_capabilities c)) (\<lambda>capabilities.
     and_then (put_varbytes (ac_limits c)) (\<lambda>limits.
     Inr (put_b32 (ac_server_nonce c) @ put_u64 (ac_server_time c) @ capabilities @ limits)))))"

definition challenge_decode :: "byte list \<Rightarrow> auth_error + auth_challenge" where
  "challenge_decode src =
     (if length src < 40 then Inl (AE_InvalidPayload ''challenge is truncated'')
      else let server_nonce = get_b32 src; src = drop 32 src;
               server_time = get_u64 src; src = drop 8 src
           in and_then (read_varbytes src ''server capabilities'') (\<lambda>(server_capabilities, src).
              and_then (read_varbytes src ''limits'') (\<lambda>(limits, src).
              if src \<noteq> [] then Inl (AE_InvalidPayload ''trailing challenge bytes'')
              else Inr \<lparr>ac_server_nonce = server_nonce, ac_server_time = server_time,
                        ac_server_capabilities = server_capabilities, ac_limits = limits\<rparr>)))"

definition response_encode :: "auth_response \<Rightarrow> auth_error + byte list" where
  "response_encode r =
     and_then (validate_key_id (ar_key_id r)) (\<lambda>_.
     and_then (validate_capabilities_len (length (ar_client_capabilities r))) (\<lambda>_.
     and_then (put_varbytes (ar_key_id r)) (\<lambda>key_id.
     and_then (put_varbytes (ar_client_capabilities r)) (\<lambda>capabilities.
     Inr (key_id @ put_b32 (ar_client_nonce r) @ put_u64 (ar_client_time r) @ capabilities
          @ put_b32 (ar_tag r))))))"

definition response_decode :: "byte list \<Rightarrow> auth_error + auth_response" where
  "response_decode src =
     and_then (map_err AE_Protocol (varint_decode src)) (\<lambda>(v, src).
     and_then (ok_or (AE_Protocol InvalidVarint) (usize_try_from v)) (\<lambda>key_id_len.
     if key_id_len = 0 \<or> MAX_KEY_ID_LEN < key_id_len then Inl AE_InvalidKeyIdLength
     else if length src < key_id_len then Inl (AE_InvalidPayload ''key id'')
     else let key_id = take key_id_len src; src = drop key_id_len src
          in and_then (validate_key_id key_id) (\<lambda>_.
             if length src < MIN_RESPONSE_TAIL_LEN
             then Inl (AE_InvalidPayload ''response is truncated'')
             else let client_nonce = get_b32 src; src = drop 32 src;
                      client_time = get_u64 src; src = drop 8 src
                  in and_then (read_varbytes src ''client capabilities'') (\<lambda>(client_capabilities, src).
                     if length src < 32 then Inl (AE_InvalidPayload ''response tag is truncated'')
                     else if 32 < length src then Inl (AE_InvalidPayload ''trailing response bytes'')
                     else Inr \<lparr>ar_key_id = key_id, ar_client_nonce = client_nonce,
                               ar_client_time = client_time,
                               ar_client_capabilities = client_capabilities,
                               ar_tag = get_b32 src\<rparr>))))"

section \<open>The transcript and its tag\<close>

definition encoded_challenge_payload :: "auth_challenge \<Rightarrow> auth_error + byte list" where
  "encoded_challenge_payload c =
     and_then (map_err AE_Protocol (encoded_len (word_of_nat (length (ac_server_capabilities c))))) (\<lambda>_.
     and_then (map_err AE_Protocol (encoded_len (word_of_nat (length (ac_limits c))))) (\<lambda>_.
     challenge_encode c))"

definition encoded_response_prefix ::
    "byte list \<Rightarrow> bytes32 \<Rightarrow> u64 \<Rightarrow> byte list \<Rightarrow> auth_error + byte list" where
  "encoded_response_prefix key_id client_nonce client_time client_capabilities =
     and_then (map_err AE_Protocol (encoded_len (word_of_nat (length key_id)))) (\<lambda>_.
     and_then (map_err AE_Protocol (encoded_len (word_of_nat (length client_capabilities)))) (\<lambda>_.
     and_then (put_varbytes key_id) (\<lambda>kb.
     and_then (put_varbytes client_capabilities) (\<lambda>cb.
     Inr (kb @ put_b32 client_nonce @ put_u64 client_time @ cb)))))"

definition auth_mac ::
    "(byte list \<Rightarrow> byte list \<Rightarrow> bytes32) \<Rightarrow> byte list \<Rightarrow> bytes32 \<Rightarrow> auth_challenge \<Rightarrow> byte list
     \<Rightarrow> bytes32 \<Rightarrow> u64 \<Rightarrow> byte list \<Rightarrow> auth_error + bytes32" where
  "auth_mac hmac secret exporter_32 challenge key_id client_nonce client_time client_capabilities =
     and_then (validate_shared_secret secret) (\<lambda>_.
     let key_id_len_error = validate_key_id key_id in
     and_then (encoded_challenge_payload challenge) (\<lambda>challenge_bytes.
     and_then (encoded_response_prefix key_id client_nonce client_time client_capabilities) (\<lambda>response_bytes.
     and_then key_id_len_error (\<lambda>_.
     Inr (hmac secret (AUTH_LABEL @ put_b32 exporter_32 @ challenge_bytes @ response_bytes))))))"

definition compute_auth_tag ::
    "(byte list \<Rightarrow> byte list \<Rightarrow> bytes32) \<Rightarrow> byte list \<Rightarrow> bytes32 \<Rightarrow> auth_challenge \<Rightarrow> byte list
     \<Rightarrow> bytes32 \<Rightarrow> u64 \<Rightarrow> byte list \<Rightarrow> auth_error + bytes32" where
  "compute_auth_tag hmac secret exporter_32 challenge key_id client_nonce client_time client_capabilities =
     and_then (auth_mac hmac secret exporter_32 challenge key_id client_nonce client_time client_capabilities)
       (\<lambda>mac. Inr mac)"

definition for_challenge ::
    "(byte list \<Rightarrow> byte list \<Rightarrow> bytes32) \<Rightarrow> bytes32 \<Rightarrow> byte list \<Rightarrow> byte list \<Rightarrow> bytes32 \<Rightarrow> auth_challenge
     \<Rightarrow> u64 \<Rightarrow> byte list \<Rightarrow> auth_error + auth_response" where
  "for_challenge hmac random_nonce key_id secret exporter_32 challenge client_time client_capabilities =
     and_then (validate_key_id key_id) (\<lambda>_.
     and_then (validate_shared_secret secret) (\<lambda>_.
     and_then (compute_auth_tag hmac secret exporter_32 challenge key_id random_nonce client_time
                 client_capabilities) (\<lambda>tag.
     Inr \<lparr>ar_key_id = key_id, ar_client_nonce = random_nonce, ar_client_time = client_time,
          ar_client_capabilities = client_capabilities, ar_tag = tag\<rparr>)))"

section \<open>Verification\<close>

definition abs_diff :: "u64 \<Rightarrow> u64 \<Rightarrow> u64" where
  "abs_diff a b = (if a < b then b - a else a - b)"

definition timestamp_within_skew :: "u64 \<Rightarrow> u64 \<Rightarrow> duration \<Rightarrow> bool" where
  "timestamp_within_skew timestamp now allowed_skew =
     (if timestamp = UNREADABLE_CLOCK \<or> now = UNREADABLE_CLOCK then False
      else unat (abs_diff now timestamp) \<le> as_secs allowed_skew)"

definition verify_auth_response_stateless ::
    "(byte list \<Rightarrow> byte list \<Rightarrow> bytes32) \<Rightarrow> byte list \<Rightarrow> credential list \<Rightarrow> bytes32 \<Rightarrow> auth_challenge
     \<Rightarrow> auth_response \<Rightarrow> u64 \<Rightarrow> duration \<Rightarrow> auth_error + credential" where
  "verify_auth_response_stateless hmac dummy_secret credentials exporter_32 challenge response now allowed_skew =
     (let matched = find_credential credentials (ar_key_id response);
          secret = (case matched of
                      Some c \<Rightarrow> if is_ok (validate_auth_material c) then cr_secret c else dummy_secret
                    | None \<Rightarrow> dummy_secret)
      in and_then (auth_mac hmac secret exporter_32 challenge (ar_key_id response)
                     (ar_client_nonce response) (ar_client_time response)
                     (ar_client_capabilities response)) (\<lambda>mac.
         let tag_matches = (if mac = ar_tag response then Inr () else Inl AE_InvalidTag) in
         and_then (ok_or AE_UnknownKey matched) (\<lambda>c.
         and_then (validate_auth_material c) (\<lambda>_.
         and_then tag_matches (\<lambda>_.
         if \<not> is_active_at c now then Inl AE_CredentialNotActive
         else if \<not> timestamp_within_skew (ac_server_time challenge) now allowed_skew
              \<or> \<not> timestamp_within_skew (ar_client_time response) now allowed_skew
         then Inl AE_ClockSkew
         else Inr c)))))"

definition verify_auth_response_identity_stateless ::
    "(byte list \<Rightarrow> byte list \<Rightarrow> bytes32) \<Rightarrow> byte list \<Rightarrow> credential list \<Rightarrow> bytes32 \<Rightarrow> auth_challenge
     \<Rightarrow> auth_response \<Rightarrow> u64 \<Rightarrow> duration \<Rightarrow> auth_error + authenticated_identity" where
  "verify_auth_response_identity_stateless hmac dummy_secret credentials exporter_32 challenge response now allowed_skew =
     and_then (verify_auth_response_stateless hmac dummy_secret credentials exporter_32 challenge response
                 now allowed_skew) (\<lambda>c. Inr (identity_from c))"

definition verify_auth_response_credential ::
    "(byte list \<Rightarrow> byte list \<Rightarrow> bytes32) \<Rightarrow> byte list \<Rightarrow> instant \<Rightarrow> credential list \<Rightarrow> bytes32
     \<Rightarrow> auth_challenge \<Rightarrow> auth_response \<Rightarrow> u64 \<Rightarrow> duration \<Rightarrow> replay_cache
     \<Rightarrow> (auth_error + credential) \<times> replay_cache" where
  "verify_auth_response_credential hmac dummy_secret clock credentials exporter_32 challenge response now
     allowed_skew replay_cache =
     (case verify_auth_response_stateless hmac dummy_secret credentials exporter_32 challenge response now
             allowed_skew of
        Inl e \<Rightarrow> (Inl e, replay_cache)
      | Inr c \<Rightarrow>
          (case check_and_insert_at replay_cache clock (ac_server_nonce challenge) (ar_client_nonce response) of
             (Inl e, replay_cache) \<Rightarrow> (Inl e, replay_cache)
           | (Inr _, replay_cache) \<Rightarrow> (Inr c, replay_cache)))"

definition verify_auth_response_identity ::
    "(byte list \<Rightarrow> byte list \<Rightarrow> bytes32) \<Rightarrow> byte list \<Rightarrow> instant \<Rightarrow> credential list \<Rightarrow> bytes32
     \<Rightarrow> auth_challenge \<Rightarrow> auth_response \<Rightarrow> u64 \<Rightarrow> duration \<Rightarrow> replay_cache
     \<Rightarrow> (auth_error + authenticated_identity) \<times> replay_cache" where
  "verify_auth_response_identity hmac dummy_secret clock credentials exporter_32 challenge response now
     allowed_skew replay_cache =
     (case verify_auth_response_credential hmac dummy_secret clock credentials exporter_32 challenge response
             now allowed_skew replay_cache of
        (r, replay_cache) \<Rightarrow> (and_then r (\<lambda>c. Inr (identity_from c)), replay_cache))"

section \<open>Branch-free tests\<close>

lemma foldl_or_eq_0: "foldl (\<lambda>d b. d OR f b) a bs = (0 :: byte) \<longleftrightarrow> a = 0 \<and> (\<forall>b \<in> set bs. f b = 0)"
proof (induction bs arbitrary: a)
  case (Cons b bs)
  have "a OR f b = 0 \<longleftrightarrow> a = 0 \<and> f b = 0"
    by (metis bit.disj_zero_right or_eq_0_iff)
  with Cons show ?case by auto
qed simp

lemma xor_eq_0_iff: "b XOR a = 0 \<longleftrightarrow> b = (a :: byte)"
proof
  assume "b XOR a = 0"
  have "b = (b XOR a) XOR a" by (simp add: xor.assoc)
  also have "\<dots> = a" using \<open>b XOR a = 0\<close> by simp
  finally show "b = a" .
qed simp

lemma is_single_repeated_byte_iff:
  "is_single_repeated_byte secret \<longleftrightarrow> secret \<noteq> [] \<and> (\<forall>b \<in> set secret. b = hd secret)"
  by (cases secret) (auto simp: is_single_repeated_byte_def foldl_or_eq_0 xor_eq_0_iff)

lemma seen_foldl:
  assumes "length seen = 256"
  shows "length (foldl (\<lambda>seen (byte :: byte). seen[unat byte := True]) seen bs) = 256 \<and>
    (\<forall>i < 256. foldl (\<lambda>seen byte. seen[unat byte := True]) seen bs ! i \<longleftrightarrow> seen ! i \<or> i \<in> unat ` set bs)"
  using assms
proof (induction bs arbitrary: seen)
  case (Cons b bs)
  have "seen[unat b := True] ! i \<longleftrightarrow> seen ! i \<or> i = unat b" if "i < 256" for i
    using Cons.prems that by (cases "i = unat b") simp_all
  with Cons.IH [of "seen[unat b := True]"] Cons.prems show ?case by auto
qed simp

lemma distinct_byte_count_eq: "distinct_byte_count secret = card (set secret)"
proof -
  let ?seen = "foldl (\<lambda>seen (byte :: byte). seen[unat byte := True]) (replicate 256 False) secret"
  have seen: "length ?seen = 256" "\<And>i. i < 256 \<Longrightarrow> ?seen ! i \<longleftrightarrow> i \<in> unat ` set secret"
    using seen_foldl [of "replicate 256 False" secret] by auto
  have "distinct_byte_count secret = card {i. i < 256 \<and> ?seen ! i}"
    by (simp add: distinct_byte_count_def length_filter_conv_card seen(1))
  also have "{i. i < 256 \<and> ?seen ! i} = unat ` set secret"
    using seen(2) unat_byte_less by auto
  also have "card (unat ` set secret) = card (set secret)"
    by (rule card_image) (auto intro: inj_onI unsigned_word_eqI)
  finally show ?thesis .
qed

section \<open>Credential lookup\<close>

lemma pad_key_id_inject:
  assumes "length a \<le> MAX_KEY_ID_LEN" and "length b \<le> MAX_KEY_ID_LEN"
  shows "pad_key_id_for_ct a = pad_key_id_for_ct b \<longleftrightarrow> a = b"
proof
  assume eq: "pad_key_id_for_ct a = pad_key_id_for_ct b"
  have pad: "pad_key_id_for_ct k = (k @ replicate (64 - length k) 0) @ rev (put_u64 (word_of_nat (length k)))"
    if "length k \<le> MAX_KEY_ID_LEN" for k
    using that by (simp add: pad_key_id_for_ct_def Let_def MAX_KEY_ID_LEN_def min_absorb1)
  have "length (k @ replicate (64 - length k) (0 :: byte)) = 64" if "length k \<le> MAX_KEY_ID_LEN" for k
    using that by (simp add: MAX_KEY_ID_LEN_def)
  with assms have "length (a @ replicate (64 - length a) (0 :: byte)) = length (b @ replicate (64 - length b) (0 :: byte))"
    by simp
  with eq assms have *: "a @ replicate (64 - length a) 0 = b @ replicate (64 - length b) 0"
    "put_u64 (word_of_nat (length a)) = put_u64 (word_of_nat (length b))"
    unfolding pad [OF assms(1)] pad [OF assms(2)] by (auto simp: append_eq_append_conv simp del: append_assoc)
  have "length a < 2 ^ 64" "length b < 2 ^ 64" using assms by (simp_all add: MAX_KEY_ID_LEN_def)
  with *(2) have "length a = length b" by (metis put_u64_inject unat_u64_of_nat)
  with *(1) show "a = b" by simp
qed simp

lemma find_credential_from_eq:
  "find_credential_from m p cs = (case m of Some c \<Rightarrow> Some c
     | None \<Rightarrow> List.find (\<lambda>c. p = pad_key_id_for_ct (cr_key_id c)) cs)"
  by (induction cs arbitrary: m) (auto simp: Let_def split: option.splits)

lemma find_credential_eq:
  "find_credential cs k = List.find (\<lambda>c. pad_key_id_for_ct k = pad_key_id_for_ct (cr_key_id c)) cs"
  by (simp add: find_credential_def find_credential_from_eq)

lemma find_credential_Some:
  assumes "find_credential cs k = Some c" and "length k \<le> MAX_KEY_ID_LEN"
    and "validate_auth_material c = Inr ()"
  shows "c \<in> set cs \<and> cr_key_id c = k"
proof -
  from assms(1) have "c \<in> set cs" "pad_key_id_for_ct k = pad_key_id_for_ct (cr_key_id c)"
    by (auto simp: find_credential_eq find_Some_iff)
  moreover have "length (cr_key_id c) \<le> MAX_KEY_ID_LEN"
    using assms(3) by (auto simp: validate_auth_material_def validate_key_id_def result_simps split: if_splits)
  ultimately show ?thesis using pad_key_id_inject [OF assms(2)] by simp
qed

section \<open>Payload codecs\<close>

lemma put_varbytes_small: "length bs \<le> 1024 \<Longrightarrow> \<exists>out. put_varbytes bs = Inr out"
  using encoded_len_Inr_iff [of "word_of_nat (length bs)"]
  by (auto simp: put_varbytes_def varint_encode_Inr_iff unat_u64_of_nat result_simps)

lemma put_varbytes_iff:
  "put_varbytes bs = Inr out \<longleftrightarrow> (\<exists>len. varint_encode (word_of_nat (length bs)) = Inr len \<and> out = len @ bs)"
  by (auto simp: put_varbytes_def result_simps)

lemma read_varbytes_iff:
  "read_varbytes src name = Inr (bs, rest) \<longleftrightarrow>
     length bs \<le> MAX_AUTH_CAPABILITIES_LEN \<and> (\<exists>out. put_varbytes bs = Inr out \<and> src = out @ rest)"
proof
  assume "read_varbytes src name = Inr (bs, rest)"
  then obtain v src1 where v: "varint_decode src = Inr (v, src1)" and le: "unat v \<le> MAX_AUTH_CAPABILITIES_LEN"
    and src1: "unat v \<le> length src1" "bs = take (unat v) src1" "rest = drop (unat v) src1"
    by (auto simp: read_varbytes_def result_simps split: if_splits)
  from src1 have len: "length bs = unat v" and "src1 = bs @ rest" by simp_all
  with v obtain out where "varint_encode v = Inr out" "src = out @ bs @ rest" by (auto simp: varint.dec_iff)
  moreover have "word_of_nat (length bs) = v" by (simp add: len)
  ultimately show "length bs \<le> MAX_AUTH_CAPABILITIES_LEN \<and> (\<exists>out. put_varbytes bs = Inr out \<and> src = out @ rest)"
    using le len by (simp add: put_varbytes_iff)
next
  assume *: "length bs \<le> MAX_AUTH_CAPABILITIES_LEN \<and> (\<exists>out. put_varbytes bs = Inr out \<and> src = out @ rest)"
  then obtain len where len: "varint_encode (word_of_nat (length bs)) = Inr len" "src = len @ bs @ rest"
    by (auto simp: put_varbytes_iff)
  have "unat (word_of_nat (length bs) :: u64) = length bs"
    using * by (simp add: MAX_AUTH_CAPABILITIES_LEN_def unat_u64_of_nat)
  with * len varint.roundtrip [OF len(1)] show "read_varbytes src name = Inr (bs, rest)"
    by (simp add: read_varbytes_def)
qed

lemma challenge_decode_iff: "challenge_decode src = Inr c \<longleftrightarrow> challenge_encode c = Inr src"
proof
  assume "challenge_decode src = Inr c"
  then obtain src1 where l: "40 \<le> length src" and n: "ac_server_nonce c = get_b32 src"
    and t: "ac_server_time c = get_u64 (drop 32 src)"
    and c: "read_varbytes (drop 8 (drop 32 src)) ''server capabilities'' = Inr (ac_server_capabilities c, src1)"
    and li: "read_varbytes src1 ''limits'' = Inr (ac_limits c, [])"
    by (auto simp: challenge_decode_def Let_def result_simps split: if_splits)
  from c li obtain cb lb where "put_varbytes (ac_server_capabilities c) = Inr cb" "put_varbytes (ac_limits c) = Inr lb"
    "drop 8 (drop 32 src) = cb @ lb" "length (ac_server_capabilities c) \<le> 1024" "length (ac_limits c) \<le> 1024"
    by (auto simp: read_varbytes_iff MAX_AUTH_CAPABILITIES_LEN_def)
  moreover have "src = put_b32 (ac_server_nonce c) @ put_u64 (ac_server_time c) @ drop 8 (drop 32 src)"
    using l by (simp add: n t put_get_b32 put_get_u64 del: drop_drop)
  ultimately show "challenge_encode c = Inr src"
    by (simp add: challenge_encode_def validate_capabilities_len_def MAX_AUTH_CAPABILITIES_LEN_def)
next
  assume "challenge_encode c = Inr src"
  then obtain cb lb where b: "put_varbytes (ac_server_capabilities c) = Inr cb" "put_varbytes (ac_limits c) = Inr lb"
    and le: "length (ac_server_capabilities c) \<le> MAX_AUTH_CAPABILITIES_LEN"
      "length (ac_limits c) \<le> MAX_AUTH_CAPABILITIES_LEN"
    and src: "src = put_b32 (ac_server_nonce c) @ put_u64 (ac_server_time c) @ cb @ lb"
    by (auto simp: challenge_encode_def result_simps validate_capabilities_len_def split: if_splits)
  have "read_varbytes (cb @ lb) ''server capabilities'' = Inr (ac_server_capabilities c, lb)"
    "read_varbytes lb ''limits'' = Inr (ac_limits c, [])"
    using b le by (auto simp: read_varbytes_iff)
  then show "challenge_decode src = Inr c"
    by (simp add: challenge_decode_def Let_def src)
qed

lemma response_encode_iff:
  "response_encode r = Inr src \<longleftrightarrow>
     (\<exists>kb cb. validate_key_id (ar_key_id r) = Inr () \<and> length (ar_client_capabilities r) \<le> MAX_AUTH_CAPABILITIES_LEN \<and>
        put_varbytes (ar_key_id r) = Inr kb \<and> put_varbytes (ar_client_capabilities r) = Inr cb \<and>
        src = kb @ put_b32 (ar_client_nonce r) @ put_u64 (ar_client_time r) @ cb @ put_b32 (ar_tag r))"
  by (auto simp: response_encode_def result_simps validate_capabilities_len_def split: if_splits)

lemma put_varbytes_nonempty: "put_varbytes bs = Inr out \<Longrightarrow> 1 + length bs \<le> length out"
  by (auto simp: put_varbytes_iff dest!: varint_encode_length encoded_len_cases)

lemma response_decode_iff: "response_decode src = Inr r \<longleftrightarrow> response_encode r = Inr src"
proof
  assume "response_decode src = Inr r"
  then obtain v src1 src2 src3 where v: "varint_decode src = Inr (v, src1)"
    and kid: "unat v \<le> length src1" "ar_key_id r = take (unat v) src1" "src2 = drop (unat v) src1"
      "validate_key_id (ar_key_id r) = Inr ()"
    and l: "MIN_RESPONSE_TAIL_LEN \<le> length src2"
    and nt: "ar_client_nonce r = get_b32 src2" "ar_client_time r = get_u64 (drop 32 src2)"
    and c: "read_varbytes (drop 8 (drop 32 src2)) ''client capabilities'' = Inr (ar_client_capabilities r, src3)"
    and tag: "length src3 = 32" "ar_tag r = get_b32 src3"
    by (auto simp: response_decode_def Let_def result_simps not_less split: if_splits)
  have "length (ar_key_id r) = unat v" "src1 = ar_key_id r @ src2" using kid by simp_all
  with v obtain kb where kb: "put_varbytes (ar_key_id r) = Inr kb" "src = kb @ src2"
    by (auto simp: put_varbytes_iff varint.dec_iff)
  from c obtain cb where cb: "put_varbytes (ar_client_capabilities r) = Inr cb"
    "drop 8 (drop 32 src2) = cb @ src3" "length (ar_client_capabilities r) \<le> MAX_AUTH_CAPABILITIES_LEN"
    by (auto simp: read_varbytes_iff)
  have "src3 = put_b32 (ar_tag r)" using tag by (simp add: put_get_b32)
  moreover have "src2 = put_b32 (ar_client_nonce r) @ put_u64 (ar_client_time r) @ drop 8 (drop 32 src2)"
    using l by (simp add: nt put_get_b32 put_get_u64 MIN_RESPONSE_TAIL_LEN_def del: drop_drop)
  ultimately show "response_encode r = Inr src"
    unfolding response_encode_iff using kb cb kid(4) by simp
next
  assume "response_encode r = Inr src"
  then obtain kb cb where valid: "validate_key_id (ar_key_id r) = Inr ()"
    and le: "length (ar_client_capabilities r) \<le> MAX_AUTH_CAPABILITIES_LEN"
    and kb: "put_varbytes (ar_key_id r) = Inr kb" and cb: "put_varbytes (ar_client_capabilities r) = Inr cb"
    and src: "src = kb @ put_b32 (ar_client_nonce r) @ put_u64 (ar_client_time r) @ cb @ put_b32 (ar_tag r)"
    unfolding response_encode_iff by blast
  from kb obtain len where len: "varint_encode (word_of_nat (length (ar_key_id r))) = Inr len" "kb = len @ ar_key_id r"
    by (auto simp: put_varbytes_iff)
  have kid: "ar_key_id r \<noteq> []" "length (ar_key_id r) \<le> MAX_KEY_ID_LEN"
    using valid by (auto simp: validate_key_id_def split: if_splits)
  then have unat: "unat (word_of_nat (length (ar_key_id r)) :: u64) = length (ar_key_id r)"
    by (simp add: MAX_KEY_ID_LEN_def unat_u64_of_nat)
  have "read_varbytes (cb @ put_b32 (ar_tag r)) ''client capabilities'' = Inr (ar_client_capabilities r, put_b32 (ar_tag r))"
    using cb le by (auto simp: read_varbytes_iff)
  moreover have "cb \<noteq> []" using put_varbytes_nonempty [OF cb] by auto
  ultimately show "response_decode src = Inr r"
    using varint.roundtrip [OF len(1)] kid valid
    by (simp add: response_decode_def Let_def src len(2) unat MIN_RESPONSE_TAIL_LEN_def)
qed

interpretation challenge_payload: payload_codec challenge_encode challenge_decode
  by unfold_locales (rule challenge_decode_iff)

interpretation response_payload: payload_codec response_encode response_decode
  by unfold_locales (rule response_decode_iff)

section \<open>What the tag covers\<close>

definition auth_message ::
    "bytes32 \<Rightarrow> auth_challenge \<Rightarrow> byte list \<Rightarrow> bytes32 \<Rightarrow> u64 \<Rightarrow> byte list \<Rightarrow> auth_error + byte list" where
  "auth_message exporter_32 challenge key_id client_nonce client_time client_capabilities =
     and_then (encoded_challenge_payload challenge) (\<lambda>cb.
     and_then (encoded_response_prefix key_id client_nonce client_time client_capabilities) (\<lambda>rb.
     Inr (AUTH_LABEL @ put_b32 exporter_32 @ cb @ rb)))"

lemma auth_mac_iff:
  "auth_mac hmac secret e c k n t caps = Inr x \<longleftrightarrow>
     validate_shared_secret secret = Inr () \<and> validate_key_id k = Inr () \<and>
     (\<exists>m. auth_message e c k n t caps = Inr m \<and> x = hmac secret m)"
  by (auto simp: auth_mac_def auth_message_def Let_def result_simps)

lemma put_varbytes_prefix:
  assumes "put_varbytes a = Inr x" and "put_varbytes b = Inr y" and "x @ xs = y @ ys"
    and "length a < 2 ^ 64" and "length b < 2 ^ 64"
  shows "a = b \<and> xs = ys"
proof -
  from assms(1,2) obtain la lb where l: "varint_encode (word_of_nat (length a)) = Inr la" "x = la @ a"
    "varint_encode (word_of_nat (length b)) = Inr lb" "y = lb @ b" by (auto simp: put_varbytes_iff)
  from varint.roundtrip [OF l(1), of "a @ xs"] varint.roundtrip [OF l(3), of "b @ ys"] assms(3) l(2,4)
  have eq: "(word_of_nat (length a) :: u64) = word_of_nat (length b)" "a @ xs = b @ ys" by simp_all
  from eq(1) have "length a = length b" using assms(4,5) by (metis unat_u64_of_nat)
  with eq(2) show ?thesis by simp
qed

lemma challenge_encode_prefix:
  assumes "challenge_encode c = Inr x" and "challenge_encode d = Inr y" and "x @ xs = y @ ys"
  shows "c = d \<and> xs = ys"
proof -
  from assms(1) obtain a b where 1: "put_varbytes (ac_server_capabilities c) = Inr a" "put_varbytes (ac_limits c) = Inr b"
    "x = put_b32 (ac_server_nonce c) @ put_u64 (ac_server_time c) @ a @ b"
    "length (ac_server_capabilities c) < 2 ^ 64" "length (ac_limits c) < 2 ^ 64"
    by (auto simp: challenge_encode_def result_simps validate_capabilities_len_def MAX_AUTH_CAPABILITIES_LEN_def
        split: if_splits)
  from assms(2) obtain a' b' where 2: "put_varbytes (ac_server_capabilities d) = Inr a'" "put_varbytes (ac_limits d) = Inr b'"
    "y = put_b32 (ac_server_nonce d) @ put_u64 (ac_server_time d) @ a' @ b'"
    "length (ac_server_capabilities d) < 2 ^ 64" "length (ac_limits d) < 2 ^ 64"
    by (auto simp: challenge_encode_def result_simps validate_capabilities_len_def MAX_AUTH_CAPABILITIES_LEN_def
        split: if_splits)
  from assms(3) 1(3) 2(3) have fixed: "ac_server_nonce c = ac_server_nonce d" "ac_server_time c = ac_server_time d"
    "a @ (b @ xs) = a' @ (b' @ ys)" by simp_all
  from put_varbytes_prefix [OF 1(1) 2(1) fixed(3) 1(4) 2(4)]
  have caps: "ac_server_capabilities c = ac_server_capabilities d" "b @ xs = b' @ ys" by simp_all
  from put_varbytes_prefix [OF 1(2) 2(2) caps(2) 1(5) 2(5)] fixed caps show ?thesis by simp
qed

lemma auth_message_inject:
  assumes "auth_message e c k n t caps = Inr m" and "auth_message e' c' k' n' t' caps' = Inr m"
    and "length k < 2 ^ 64" "length k' < 2 ^ 64" "length caps < 2 ^ 64" "length caps' < 2 ^ 64"
  shows "e = e' \<and> c = c' \<and> k = k' \<and> n = n' \<and> t = t' \<and> caps = caps'"
proof -
  from assms(1) obtain cb kb pb where 1: "challenge_encode c = Inr cb" "put_varbytes k = Inr kb" "put_varbytes caps = Inr pb"
    "m = AUTH_LABEL @ put_b32 e @ cb @ kb @ put_b32 n @ put_u64 t @ pb"
    by (auto simp: auth_message_def encoded_challenge_payload_def encoded_response_prefix_def result_simps)
  from assms(2) obtain cb' kb' pb' where 2: "challenge_encode c' = Inr cb'" "put_varbytes k' = Inr kb'" "put_varbytes caps' = Inr pb'"
    "m = AUTH_LABEL @ put_b32 e' @ cb' @ kb' @ put_b32 n' @ put_u64 t' @ pb'"
    by (auto simp: auth_message_def encoded_challenge_payload_def encoded_response_prefix_def result_simps)
  from 1(4) 2(4) have "e = e'" and rest: "cb @ (kb @ put_b32 n @ put_u64 t @ pb) = cb' @ (kb' @ put_b32 n' @ put_u64 t' @ pb')"
    by simp_all
  from challenge_encode_prefix [OF 1(1) 2(1) rest]
  have c: "c = c'" and rest2: "kb @ (put_b32 n @ put_u64 t @ pb) = kb' @ (put_b32 n' @ put_u64 t' @ pb')" by simp_all
  from put_varbytes_prefix [OF 1(2) 2(2) rest2 assms(3,4)]
  have k: "k = k'" and "put_b32 n @ put_u64 t @ pb = put_b32 n' @ put_u64 t' @ pb'" by simp_all
  then have nt: "n = n'" "t = t'" "pb @ [] = pb' @ []" by simp_all
  from put_varbytes_prefix [OF 1(3) 2(3) nt(3) assms(5,6)] \<open>e = e'\<close> c k nt show ?thesis by simp
qed

section \<open>Verification\<close>

lemma verify_stateless_iff:
  "verify_auth_response_stateless hmac dummy cs e ch r now skew = Inr c \<longleftrightarrow>
     find_credential cs (ar_key_id r) = Some c \<and> validate_auth_material c = Inr () \<and>
     auth_mac hmac (cr_secret c) e ch (ar_key_id r) (ar_client_nonce r) (ar_client_time r)
       (ar_client_capabilities r) = Inr (ar_tag r) \<and>
     is_active_at c now \<and> timestamp_within_skew (ac_server_time ch) now skew \<and>
     timestamp_within_skew (ar_client_time r) now skew"
  by (auto simp: verify_auth_response_stateless_def Let_def result_simps is_ok_iff split: if_splits option.splits)

lemma validate_key_id_iff: "validate_key_id k = Inr () \<longleftrightarrow> k \<noteq> [] \<and> length k \<le> 64"
  by (auto simp: validate_key_id_def MAX_KEY_ID_LEN_def)

lemma validate_shared_secret_iff:
  "validate_shared_secret s = Inr () \<longleftrightarrow> 32 \<le> length s \<and> (\<exists>b \<in> set s. b \<noteq> hd s)"
  by (cases s) (auto simp: validate_shared_secret_def MIN_SECRET_LEN_def is_single_repeated_byte_iff)

lemma verify_stateless_key:
  assumes "verify_auth_response_stateless hmac dummy cs e ch r now skew = Inr c"
  shows "c \<in> set cs \<and> cr_key_id c = ar_key_id r"
  using assms find_credential_Some [of cs "ar_key_id r" c]
  by (auto simp: verify_stateless_iff auth_mac_iff validate_key_id_iff MAX_KEY_ID_LEN_def)

lemma nat_distance: "(if a < b then b - a else a - b) \<le> c \<longleftrightarrow> \<bar>int a - int b\<bar> \<le> int c"
  by (cases "a < b") (simp_all, arith+)

lemma timestamp_within_skew_iff:
  "timestamp_within_skew t now skew \<longleftrightarrow>
     t \<noteq> UNREADABLE_CLOCK \<and> now \<noteq> UNREADABLE_CLOCK \<and>
     \<bar>int (unat now) - int (unat t)\<bar> \<le> int (as_secs skew)"
proof -
  have "unat (abs_diff now t) = (if unat now < unat t then unat t - unat now else unat now - unat t)"
    by (simp add: abs_diff_def unat_sub word_less_nat_alt word_le_nat_alt)
  then have "unat (abs_diff now t) \<le> as_secs skew \<longleftrightarrow> \<bar>int (unat now) - int (unat t)\<bar> \<le> int (as_secs skew)"
    by (simp only: nat_distance)
  then show ?thesis by (simp add: timestamp_within_skew_def)
qed

lemma is_active_at_iff:
  "is_active_at c now \<longleftrightarrow>
     now \<noteq> UNREADABLE_CLOCK \<and> cr_status c = CS_Active \<and>
     pred_option (\<lambda>b. b \<le> now) (cr_not_before c) \<and> pred_option (\<lambda>a. now \<le> a) (cr_not_after c)"
  by (auto simp: is_active_at_def not_less split: option.splits)

section \<open>Properties\<close>

abbreviation nonce_pair :: "auth_challenge \<Rightarrow> auth_response \<Rightarrow> replay_key" where
  "nonce_pair ch r \<equiv> \<lparr>rk_server_nonce = ac_server_nonce ch, rk_client_nonce = ar_client_nonce r\<rparr>"

text \<open>C5: A response is accepted only on proof of the secret. If verification returns a credential,
  it is one of the configured credentials, carries the key id of the response, is active at this
  time, and the tag is the HMAC under its secret of the message that binds this exporter value,
  this challenge and this response; both clocks are readable and within the allowed skew, the
  nonce pair was not among the live pairs of the replay cache, and now it is recorded there.\<close>

theorem auth_verification_sound:
  assumes "verify_auth_response_credential hmac dummy clock cs e ch r now skew cache = (Inr c, cache')"
    and "replay_inv cache" and "times_le clock cache"
  shows "c \<in> set cs \<and> cr_key_id c = ar_key_id r \<and>
    (\<exists>m. auth_message e ch (ar_key_id r) (ar_client_nonce r) (ar_client_time r) (ar_client_capabilities r) = Inr m
       \<and> ar_tag r = hmac (cr_secret c) m) \<and>
    now \<noteq> UNREADABLE_CLOCK \<and> cr_status c = CS_Active \<and>
    pred_option (\<lambda>b. b \<le> now) (cr_not_before c) \<and> pred_option (\<lambda>a. now \<le> a) (cr_not_after c) \<and>
    \<bar>int (unat now) - int (unat (ac_server_time ch))\<bar> \<le> int (as_secs skew) \<and>
    \<bar>int (unat now) - int (unat (ar_client_time r))\<bar> \<le> int (as_secs skew) \<and>
    nonce_pair ch r \<notin> snd ` set (live (rc_window cache) clock (rc_order cache)) \<and>
    nonce_pair ch r \<in> snd ` set (rc_order cache')"
proof -
  from assms(1) have v: "verify_auth_response_stateless hmac dummy cs e ch r now skew = Inr c"
    and ins: "check_and_insert_at cache clock (ac_server_nonce ch) (ar_client_nonce r) = (Inr (), cache')"
    by (auto simp: verify_auth_response_credential_def split: sum.splits prod.splits)
  have "nonce_pair ch r \<notin> snd ` set (live (rc_window cache) clock (rc_order cache))"
    "nonce_pair ch r \<in> snd ` set (rc_order cache')"
    using check_and_insert_at_refines [OF assms(2,3) ins] by (auto simp: queue_insert_iff split: if_splits)
  moreover note verify_stateless_key [OF v]
  ultimately show ?thesis
    using v by (auto simp: verify_stateless_iff auth_mac_iff is_active_at_iff timestamp_within_skew_iff)
qed

text \<open>C20: An honest client is accepted. The response that \<open>for_challenge\<close> builds with a configured,
  active credential (the first with its key id) passes verification when both clocks are within
  the allowed skew and the nonce pair is fresh.\<close>

theorem auth_verification_complete:
  assumes "for_challenge hmac nonce (cr_key_id c) (cr_secret c) e ch client_time caps = Inr r"
    and "find_credential cs (cr_key_id c) = Some c" and "is_active_at c now"
    and "timestamp_within_skew (ac_server_time ch) now skew" and "timestamp_within_skew client_time now skew"
    and "replay_inv cache" and "times_le clock cache"
    and "nonce_pair ch r \<notin> snd ` set (live (rc_window cache) clock (rc_order cache))"
  shows "fst (verify_auth_response_credential hmac dummy clock cs e ch r now skew cache) = Inr c"
proof -
  from assms(1) have r: "ar_key_id r = cr_key_id c" "ar_client_nonce r = nonce" "ar_client_time r = client_time"
    "ar_client_capabilities r = caps"
    and mac: "auth_mac hmac (cr_secret c) e ch (cr_key_id c) nonce client_time caps = Inr (ar_tag r)"
    and "validate_auth_material c = Inr ()"
    by (auto simp: for_challenge_def compute_auth_tag_def validate_auth_material_def result_simps)
  with assms(2-5) have v: "verify_auth_response_stateless hmac dummy cs e ch r now skew = Inr c"
    by (simp add: verify_stateless_iff)
  obtain res cache' where ins: "check_and_insert_at cache clock (ac_server_nonce ch) (ar_client_nonce r) = (res, cache')"
    by force
  then have "res = Inr ()"
    using check_and_insert_at_refines [OF assms(6,7) ins] assms(8) by (simp add: queue_insert_iff)
  with v ins show ?thesis by (simp add: verify_auth_response_credential_def)
qed

definition sample_hmac :: "byte list \<Rightarrow> byte list \<Rightarrow> bytes32" where
  "sample_hmac key message = word_of_int (foldl (\<lambda>a b. a * 31 + uint b) 7 (key @ message))"

definition sample_credential :: credential where
  "sample_credential = \<lparr>cr_key_id = [1, 2], cr_secret = 9 # replicate 31 8, cr_status = CS_Active,
     cr_not_before = Some 50, cr_not_after = None, cr_policy_group = None\<rparr>"

definition sample_challenge :: auth_challenge where
  "sample_challenge = challenge_generate 77 100"

definition sample_response :: auth_response where
  "sample_response = projr (for_challenge sample_hmac 88 [1, 2] (9 # replicate 31 8) 5 sample_challenge 100 [])"

lemma sample_response_eq:
  "for_challenge sample_hmac 88 (cr_key_id sample_credential) (cr_secret sample_credential) 5 sample_challenge 100 []
     = Inr sample_response"
  by code_simp

lemma empty_cache_inv: "replay_inv (with_max_entries 10 2)" "times_le t (with_max_entries 10 2)"
  "snd ` set (live w t (rc_order (with_max_entries 10 2))) = {}"
  by (simp_all add: replay_inv_new) (simp_all add: with_max_entries_def live_def)

theorem auth_verification_complete_witness:
  "fst (verify_auth_response_credential sample_hmac [] 0 [sample_credential] 5 sample_challenge sample_response
     100 0 (with_max_entries 10 2)) = Inr sample_credential"
proof (rule auth_verification_complete [OF sample_response_eq])
  show "find_credential [sample_credential] (cr_key_id sample_credential) = Some sample_credential"
    and "is_active_at sample_credential 100"
    by (simp_all add: find_credential_eq is_active_at_def) code_simp
  show "timestamp_within_skew (ac_server_time sample_challenge) 100 0"
    "timestamp_within_skew 100 100 0"
    by (simp_all add: timestamp_within_skew_iff sample_challenge_def challenge_generate_def UNREADABLE_CLOCK_def
        as_secs_def)
  show "times_le 0 (with_max_entries 10 2)" by (rule empty_cache_inv)
qed (simp_all add: empty_cache_inv)

theorem auth_verification_sound_witness:
  "sample_credential \<in> set [sample_credential] \<and>
   nonce_pair sample_challenge sample_response \<in> snd ` set (rc_order (snd (verify_auth_response_credential
     sample_hmac [] 0 [sample_credential] 5 sample_challenge sample_response 100 0 (with_max_entries 10 2))))"
proof -
  have "fst (verify_auth_response_credential sample_hmac [] 0 [sample_credential] 5 sample_challenge sample_response
      100 0 (with_max_entries 10 2)) = Inr sample_credential"
    by code_simp
  then have "verify_auth_response_credential sample_hmac [] 0 [sample_credential] 5 sample_challenge sample_response
      100 0 (with_max_entries 10 2) = (Inr sample_credential, snd (verify_auth_response_credential
     sample_hmac [] 0 [sample_credential] 5 sample_challenge sample_response 100 0 (with_max_entries 10 2)))"
    by (metis prod.collapse)
  from auth_verification_sound [OF this empty_cache_inv(1,2)] show ?thesis by blast
qed

text \<open>C21: The message under the tag determines everything it covers: two messages are equal only if
  the exporter value, the whole challenge, the key id, the client nonce, the client time and the
  client capabilities are equal. The tag is the HMAC of that message under the secret, so it cannot
  be moved to another connection, challenge or response.\<close>

theorem auth_tag_binds_transcript:
  assumes "length k < 2 ^ 64" "length k' < 2 ^ 64" "length caps < 2 ^ 64" "length caps' < 2 ^ 64"
  shows "(auth_mac hmac secret e c k n t caps = Inr x \<longleftrightarrow>
       validate_shared_secret secret = Inr () \<and> validate_key_id k = Inr () \<and>
       (\<exists>m. auth_message e c k n t caps = Inr m \<and> x = hmac secret m)) \<and>
     (auth_message e c k n t caps = Inr m \<and> auth_message e' c' k' n' t' caps' = Inr m \<longrightarrow>
       e = e' \<and> c = c' \<and> k = k' \<and> n = n' \<and> t = t' \<and> caps = caps')"
  using auth_message_inject [OF _ _ assms] by (simp add: auth_mac_iff) blast

theorem auth_tag_binds_transcript_witness:
  "auth_message 5 sample_challenge [1, 2] 88 101 [] \<noteq> auth_message 6 sample_challenge [1, 2] 88 101 []"
proof
  assume eq: "auth_message 5 sample_challenge [1, 2] 88 101 [] = auth_message 6 sample_challenge [1, 2] 88 101 []"
  have "is_ok (auth_message 5 sample_challenge [1, 2] 88 101 [])" by code_simp
  then obtain m where "auth_message 5 sample_challenge [1, 2] 88 101 [] = Inr m" by (auto simp: is_ok_iff)
  with eq auth_tag_binds_transcript [of "[1, 2]" "[1, 2]" "[]" "[]" _ _ 5 sample_challenge 88 101 _ m 6 sample_challenge 88 101]
  show False by simp
qed

text \<open>C22: Without the secret a prober learns nothing about the server clock or the validity of a
  credential: the errors for an inactive credential and for a clock out of range are returned only
  to a response whose tag is right under the secret of a configured credential with its key id.\<close>

theorem auth_errors_need_the_secret:
  assumes "verify_auth_response_stateless hmac dummy cs e ch r now skew = Inl err"
    and "err = AE_CredentialNotActive \<or> err = AE_ClockSkew"
  shows "\<exists>c m. c \<in> set cs \<and> cr_key_id c = ar_key_id r \<and> validate_auth_material c = Inr () \<and>
    auth_message e ch (ar_key_id r) (ar_client_nonce r) (ar_client_time r) (ar_client_capabilities r) = Inr m \<and>
    ar_tag r = hmac (cr_secret c) m"
proof -
  have no_mac: "auth_mac hmac s e ch k n t caps \<noteq> Inl err" for s k n t caps
    using assms(2) by (auto simp: auth_mac_def Let_def and_then_eq_Inl validate_shared_secret_def validate_key_id_def
        encoded_challenge_payload_def encoded_response_prefix_def challenge_encode_def put_varbytes_def
        validate_capabilities_len_def map_err_eq_Inl split: if_splits)
  have no_mat: "validate_auth_material c \<noteq> Inl err" for c
    using assms(2) by (auto simp: validate_auth_material_def and_then_eq_Inl validate_shared_secret_def
        validate_key_id_def split: if_splits)
  have "err \<noteq> AE_UnknownKey" "err \<noteq> AE_InvalidTag" using assms(2) by auto
  with assms(1) no_mac no_mat obtain c where find: "find_credential cs (ar_key_id r) = Some c"
    and mat: "validate_auth_material c = Inr ()"
    and mac: "auth_mac hmac (cr_secret c) e ch (ar_key_id r) (ar_client_nonce r) (ar_client_time r)
      (ar_client_capabilities r) = Inr (ar_tag r)"
    by (auto simp: verify_auth_response_stateless_def Let_def and_then_eq_Inl is_ok_iff
        split: option.splits if_splits)
  from mac have "length (ar_key_id r) \<le> MAX_KEY_ID_LEN"
    by (simp add: auth_mac_iff validate_key_id_iff MAX_KEY_ID_LEN_def)
  with find_credential_Some [OF find _ mat] mat mac show ?thesis by (auto simp: auth_mac_iff)
qed

theorem auth_errors_need_the_secret_witness:
  "\<exists>c. c \<in> set [sample_credential] \<and> cr_key_id c = ar_key_id sample_response"
proof -
  have "verify_auth_response_stateless sample_hmac [] [sample_credential] 5 sample_challenge sample_response
      900 0 = Inl AE_ClockSkew" by code_simp
  from auth_errors_need_the_secret [OF this] show ?thesis by blast
qed

text \<open>Each authentication payload has exactly one wire form: a byte string is accepted if and only
  if it is the encoding of the challenge or response returned, and no response is shorter than
  \<open>MIN_AUTH_RESPONSE_PAYLOAD_SIZE\<close>.\<close>

lemma auth_payload_forms:
  "(challenge_decode src = Inr c \<longleftrightarrow> challenge_encode c = Inr src) \<and>
   (response_decode src = Inr r \<longleftrightarrow> response_encode r = Inr src) \<and>
   (response_encode r = Inr out \<longrightarrow> unat MIN_AUTH_RESPONSE_PAYLOAD_SIZE \<le> length out)"
proof (intro conjI impI)
  assume "response_encode r = Inr out"
  then obtain kb cb where "ar_key_id r \<noteq> []" "put_varbytes (ar_key_id r) = Inr kb"
    "put_varbytes (ar_client_capabilities r) = Inr cb"
    "out = kb @ put_b32 (ar_client_nonce r) @ put_u64 (ar_client_time r) @ cb @ put_b32 (ar_tag r)"
    unfolding response_encode_iff validate_key_id_iff by blast
  then show "unat MIN_AUTH_RESPONSE_PAYLOAD_SIZE \<le> length out"
    using put_varbytes_nonempty [of "ar_key_id r" kb] put_varbytes_nonempty [of "ar_client_capabilities r" cb]
    by (cases "ar_key_id r") (simp_all add: MIN_AUTH_RESPONSE_PAYLOAD_SIZE_def)
qed (simp_all add: challenge_payload.pdec_iff response_payload.pdec_iff)

text \<open>C23: The routines written without data-dependent branches compute what they stand for. For key
  ids of at most 64 bytes, comparing padded key ids is comparing key ids, so the lookup that always
  walks the whole list finds the first credential with the key id and the credential comparison is
  equality; the folded test finds exactly the secrets of one repeated byte, and the table of seen
  bytes counts the distinct ones.\<close>

theorem constant_time_routines:
  assumes "length k \<le> 64" and "list_all (\<lambda>c. length (cr_key_id c) \<le> 64) cs" and "c \<in> set cs" and "d \<in> set cs"
  shows "find_credential cs k = List.find (\<lambda>c. cr_key_id c = k) cs \<and>
    (credential_eq c d \<longleftrightarrow> c = d) \<and>
    (is_single_repeated_byte s \<longleftrightarrow> s \<noteq> [] \<and> (\<forall>b \<in> set s. b = hd s)) \<and>
    distinct_byte_count s = card (set s)"
proof (intro conjI)
  show "find_credential cs k = List.find (\<lambda>c. cr_key_id c = k) cs"
    unfolding find_credential_eq using assms(1,2) pad_key_id_inject
    by (intro find_cong) (auto simp: list_all_iff MAX_KEY_ID_LEN_def)
  show "credential_eq c d \<longleftrightarrow> c = d"
    using assms(2-4) pad_key_id_inject [of "cr_key_id c" "cr_key_id d"]
    by (auto simp: credential_eq_def list_all_iff MAX_KEY_ID_LEN_def)
qed (simp_all add: is_single_repeated_byte_iff distinct_byte_count_eq)

theorem constant_time_routines_witness:
  "find_credential [sample_credential] [1, 2] = Some sample_credential \<and> distinct_byte_count [3, 4, 3] = card {3 :: byte, 4}"
  using constant_time_routines [of "[1, 2]" "[sample_credential]" sample_credential sample_credential "[3, 4, 3]"]
  by (simp add: sample_credential_def insert_commute)

end
