(* ===== verification/Policy.thy ===== *)
theory Policy
  imports Target Auth
begin

text \<open>
  \<open>crates/uk-policy/src/lib.rs\<close>: the policy engine. Addresses are numbers and strings are their
  UTF-8 bytes; the TOML parser of \<open>PolicySet::from_toml\<close> is the parameter \<open>toml_from_str\<close>, which
  returns the raw rules or a message.
\<close>

section \<open>Address classes\<close>

text \<open>The octets of an IPv4 and the segments of an IPv6 address, and the classes of
  \<open>std::net\<close> that the policy uses.\<close>

definition octet :: "nat \<Rightarrow> u32 \<Rightarrow> u32" where
  "octet i ip = drop_bit (8 * (3 - i)) ip AND 0xff"

definition segment :: "nat \<Rightarrow> u128 \<Rightarrow> u128" where
  "segment i ip = drop_bit (16 * (7 - i)) ip AND 0xffff"

definition ipv4_new :: "u32 \<Rightarrow> u32 \<Rightarrow> u32 \<Rightarrow> u32 \<Rightarrow> u32" where
  "ipv4_new a b c d = push_bit 24 a OR push_bit 16 b OR push_bit 8 c OR d"

definition std_ipv4_is_private :: "u32 \<Rightarrow> bool" where
  "std_ipv4_is_private ip \<longleftrightarrow>
     octet 0 ip = 10 \<or> (octet 0 ip = 172 \<and> 16 \<le> octet 1 ip \<and> octet 1 ip \<le> 31)
     \<or> (octet 0 ip = 192 \<and> octet 1 ip = 168)"

definition std_ipv4_is_loopback :: "u32 \<Rightarrow> bool" where
  "std_ipv4_is_loopback ip \<longleftrightarrow> octet 0 ip = 127"

definition std_ipv4_is_link_local :: "u32 \<Rightarrow> bool" where
  "std_ipv4_is_link_local ip \<longleftrightarrow> octet 0 ip = 169 \<and> octet 1 ip = 254"

definition std_ipv4_is_multicast :: "u32 \<Rightarrow> bool" where
  "std_ipv4_is_multicast ip \<longleftrightarrow> 224 \<le> octet 0 ip \<and> octet 0 ip \<le> 239"

definition is_ipv4_this_network :: "u32 \<Rightarrow> bool" where
  "is_ipv4_this_network ip \<longleftrightarrow> octet 0 ip = 0"

definition is_ipv4_documentation :: "u32 \<Rightarrow> bool" where
  "is_ipv4_documentation ip \<longleftrightarrow>
     octet 0 ip = 192 \<and> octet 1 ip = 0 \<and> octet 2 ip = 2
     \<or> octet 0 ip = 198 \<and> octet 1 ip = 51 \<and> octet 2 ip = 100
     \<or> octet 0 ip = 203 \<and> octet 1 ip = 0 \<and> octet 2 ip = 113"

definition is_ipv4_shared_address :: "u32 \<Rightarrow> bool" where
  "is_ipv4_shared_address ip \<longleftrightarrow> octet 0 ip = 100 \<and> 64 \<le> octet 1 ip \<and> octet 1 ip \<le> 127"

definition is_ipv4_benchmarking :: "u32 \<Rightarrow> bool" where
  "is_ipv4_benchmarking ip \<longleftrightarrow> octet 0 ip = 198 \<and> (octet 1 ip = 18 \<or> octet 1 ip = 19)"

definition is_ipv4_protocol_assignment :: "u32 \<Rightarrow> bool" where
  "is_ipv4_protocol_assignment ip \<longleftrightarrow> octet 0 ip = 192 \<and> octet 1 ip = 0 \<and> octet 2 ip = 0"

definition is_ipv4_6to4_relay_anycast :: "u32 \<Rightarrow> bool" where
  "is_ipv4_6to4_relay_anycast ip \<longleftrightarrow> octet 0 ip = 192 \<and> octet 1 ip = 88 \<and> octet 2 ip = 99"

definition is_ipv4_reserved :: "u32 \<Rightarrow> bool" where
  "is_ipv4_reserved ip \<longleftrightarrow> 240 \<le> octet 0 ip"

definition is_restricted_ipv4 :: "u32 \<Rightarrow> bool" where
  "is_restricted_ipv4 ip \<longleftrightarrow>
     std_ipv4_is_private ip \<or> std_ipv4_is_loopback ip \<or> std_ipv4_is_link_local ip
     \<or> ip = 0 \<or> ip = - 1 \<or> std_ipv4_is_multicast ip \<or> is_ipv4_documentation ip
     \<or> is_ipv4_shared_address ip \<or> is_ipv4_benchmarking ip \<or> is_ipv4_protocol_assignment ip
     \<or> is_ipv4_6to4_relay_anycast ip \<or> is_ipv4_reserved ip \<or> is_ipv4_this_network ip"

definition std_ipv6_is_unique_local :: "u128 \<Rightarrow> bool" where
  "std_ipv6_is_unique_local ip \<longleftrightarrow> segment 0 ip AND 0xfe00 = 0xfc00"

definition std_ipv6_is_multicast :: "u128 \<Rightarrow> bool" where
  "std_ipv6_is_multicast ip \<longleftrightarrow> segment 0 ip AND 0xff00 = 0xff00"

definition is_ipv6_unicast_link_local :: "u128 \<Rightarrow> bool" where
  "is_ipv6_unicast_link_local ip \<longleftrightarrow> segment 0 ip AND 0xffc0 = 0xfe80"

definition is_ipv6_site_local :: "u128 \<Rightarrow> bool" where
  "is_ipv6_site_local ip \<longleftrightarrow> segment 0 ip AND 0xffc0 = 0xfec0"

definition is_ipv6_documentation :: "u128 \<Rightarrow> bool" where
  "is_ipv6_documentation ip \<longleftrightarrow>
     segment 0 ip = 0x2001 \<and> segment 1 ip = 0x0db8
     \<or> segment 0 ip = 0x3fff \<and> segment 1 ip AND 0xf000 = 0"

definition is_ipv6_orchid :: "u128 \<Rightarrow> bool" where
  "is_ipv6_orchid ip \<longleftrightarrow> segment 0 ip = 0x2001 \<and> segment 1 ip AND 0xfff0 = 0x0010"

definition ipv4_from_segments :: "u128 \<Rightarrow> u128 \<Rightarrow> u32" where
  "ipv4_from_segments high low =
     ipv4_new (ucast (drop_bit 8 high)) (ucast (high AND 0xff)) (ucast (drop_bit 8 low)) (ucast (low AND 0xff))"

definition ipv4_mapped :: "u128 \<Rightarrow> u32 option" where
  "ipv4_mapped ip =
     (if map (\<lambda>i. segment i ip) [0..<5] = [0, 0, 0, 0, 0] \<and> segment 5 ip = 0xffff
      then Some (ipv4_from_segments (segment 6 ip) (segment 7 ip)) else None)"

definition embedded_ipv4 :: "u128 \<Rightarrow> u32 option" where
  "embedded_ipv4 ip =
     (case ipv4_mapped ip of
        Some mapped \<Rightarrow> Some mapped
      | None \<Rightarrow>
          if map (\<lambda>i. segment i ip) [0..<6] = [0x0064, 0xff9b, 0, 0, 0, 0]
          then Some (ipv4_from_segments (segment 6 ip) (segment 7 ip))
          else if map (\<lambda>i. segment i ip) [0..<6] = [0, 0, 0, 0, 0, 0]
                  \<and> \<not> (segment 6 ip = 0 \<and> segment 7 ip \<le> 1)
          then Some (ipv4_from_segments (segment 6 ip) (segment 7 ip))
          else if segment 0 ip = 0x2002
          then Some (ipv4_from_segments (segment 1 ip) (segment 2 ip))
          else None)"

fun is_private :: "ip_addr \<Rightarrow> bool" where
  "is_private (V4 ip) = is_restricted_ipv4 ip"
| "is_private (V6 ip) =
     ((case embedded_ipv4 ip of Some v4 \<Rightarrow> is_restricted_ipv4 v4 | None \<Rightarrow> False)
      \<or> std_ipv6_is_unique_local ip \<or> ip = 1 \<or> ip = 0 \<or> std_ipv6_is_multicast ip
      \<or> is_ipv6_unicast_link_local ip \<or> is_ipv6_site_local ip \<or> is_ipv6_documentation ip
      \<or> is_ipv6_orchid ip)"

definition is_metadata_ipv4 :: "u32 \<Rightarrow> bool" where
  "is_metadata_ipv4 ip \<longleftrightarrow>
     ip = ipv4_new 169 254 169 254 \<or> ip = ipv4_new 169 254 170 2
     \<or> ip = ipv4_new 100 100 100 200 \<or> ip = ipv4_new 168 63 129 16"

fun is_metadata_service_ip :: "ip_addr \<Rightarrow> bool" where
  "is_metadata_service_ip (V4 ip) = is_metadata_ipv4 ip"
| "is_metadata_service_ip (V6 ip) =
     ((case embedded_ipv4 ip of Some v4 \<Rightarrow> is_metadata_ipv4 v4 | None \<Rightarrow> False)
      \<or> ip = 0xfd000ec2000000000000000000000254)"

section \<open>Networks\<close>

datatype policy_error =
    InvalidCidr "byte list" | InvalidPortRange | InvalidAction "byte list"
  | InvalidDomain "byte list" | InvalidKeyId "byte list" | InvalidPolicyGroup "byte list"
  | InvalidToml "byte list"

datatype cidr = CidrV4 u32 u8 | CidrV6 u128 u8

definition ipv4_mask :: "u8 \<Rightarrow> u32" where
  "ipv4_mask prefix =
     (if prefix = 0 then 0 else if prefix \<le> 32 then push_bit (32 - unat prefix) (- 1) else - 1)"

definition ipv6_mask :: "u8 \<Rightarrow> u128" where
  "ipv6_mask prefix =
     (if prefix = 0 then 0 else if prefix \<le> 128 then push_bit (128 - unat prefix) (- 1) else - 1)"

fun cidr_contains :: "cidr \<Rightarrow> ip_addr \<Rightarrow> bool" where
  "cidr_contains (CidrV4 network prefix) (V4 ip) =
     (let mask = ipv4_mask prefix in network AND mask = ip AND mask)"
| "cidr_contains (CidrV4 network prefix) (V6 ip) =
     (case ipv4_mapped ip of
        Some mapped \<Rightarrow> (let mask = ipv4_mask prefix in network AND mask = mapped AND mask)
      | None \<Rightarrow> False)"
| "cidr_contains (CidrV6 network prefix) (V6 ip) =
     (let mask = ipv6_mask prefix in network AND mask = ip AND mask)"
| "cidr_contains (CidrV6 network prefix) (V4 ip) = False"

text \<open>The constructors return the network or refuse it; every caller in the program replaces the
  message of the refusal by the input it parsed.\<close>

definition cidr_new_v4 :: "u32 \<Rightarrow> u8 \<Rightarrow> cidr option" where
  "cidr_new_v4 network prefix = (if prefix \<le> 32 then Some (CidrV4 network prefix) else None)"

definition cidr_new_v6 :: "u128 \<Rightarrow> u8 \<Rightarrow> cidr option" where
  "cidr_new_v6 network prefix = (if prefix \<le> 128 then Some (CidrV6 network prefix) else None)"

fun split_once :: "byte \<Rightarrow> byte list \<Rightarrow> (byte list \<times> byte list) option" where
  "split_once sep [] = None"
| "split_once sep (b # bs) =
     (if b = sep then Some ([], bs) else map_option (\<lambda>(l, r). (b # l, r)) (split_once sep bs))"

fun parse_digits_u8 :: "nat \<Rightarrow> byte list \<Rightarrow> nat option" where
  "parse_digits_u8 acc [] = Some acc"
| "parse_digits_u8 acc (b # bs) =
     (case to_digit 10 b of
        None \<Rightarrow> None
      | Some d \<Rightarrow> if 255 < acc * 10 + d then None else parse_digits_u8 (acc * 10 + d) bs)"

definition parse_u8 :: "byte list \<Rightarrow> u8 option" where
  "parse_u8 bs =
     (let digits = (case bs of b # rest \<Rightarrow> if b = 0x2b then rest else bs | [] \<Rightarrow> [])
      in if digits = [] then None else map_option word_of_nat (parse_digits_u8 0 digits))"

definition cidr_from_str :: "byte list \<Rightarrow> policy_error + cidr" where
  "cidr_from_str input =
     and_then (ok_or (InvalidCidr input) (split_once 0x2f input)) (\<lambda>(addr, prefix).
     and_then (ok_or (InvalidCidr input) (parse_u8 prefix)) (\<lambda>prefix.
     and_then (ok_or (InvalidCidr input) (parse_ip_addr addr)) (\<lambda>ip.
     ok_or (InvalidCidr input)
       (case ip of V4 ip \<Rightarrow> cidr_new_v4 ip prefix | V6 ip \<Rightarrow> cidr_new_v6 ip prefix))))"

section \<open>Rules\<close>

datatype policy_decision = Allow | Deny

datatype pre_resolve_decision = DeniedWithoutResolution | NeedsResolution

record policy_context =
  pc_key_id :: "byte list"
  pc_policy_group :: "byte list option"
  pc_target :: target
  pc_resolved_ips :: "ip_addr list"

record policy_rule =
  pr_action :: policy_decision
  pr_key_id :: "byte list option"
  pr_policy_group :: "byte list option"
  pr_domain :: "byte list option"
  pr_domain_suffix :: "byte list option"
  pr_cidr :: "cidr option"
  pr_ports :: "(u16 \<times> u16) option"
  pr_private :: "bool option"

record policy_set =
  ps_rules :: "policy_rule list"

definition is_some_and :: "'a option \<Rightarrow> ('a \<Rightarrow> bool) \<Rightarrow> bool" where
  "is_some_and x p = (case x of Some v \<Rightarrow> p v | None \<Rightarrow> False)"

definition is_none_or :: "'a option \<Rightarrow> ('a \<Rightarrow> bool) \<Rightarrow> bool" where
  "is_none_or x p = (case x of Some v \<Rightarrow> p v | None \<Rightarrow> True)"

definition policy_rule_new :: "policy_decision \<Rightarrow> policy_rule" where
  "policy_rule_new action =
     \<lparr>pr_action = action, pr_key_id = None, pr_policy_group = None, pr_domain = None,
      pr_domain_suffix = None, pr_cidr = None, pr_ports = None,
      pr_private = (case action of Allow \<Rightarrow> Some False | Deny \<Rightarrow> None)\<rparr>"

definition is_blanket_private_deny :: "policy_rule \<Rightarrow> bool" where
  "is_blanket_private_deny r \<longleftrightarrow>
     pr_action r = Deny \<and> pr_private r = Some True \<and> pr_key_id r = None \<and> pr_policy_group r = None
     \<and> pr_domain r = None \<and> pr_domain_suffix r = None \<and> pr_ports r = None \<and> pr_cidr r = None"

fun target_domain :: "target \<Rightarrow> byte list option" where
  "target_domain (Domain domain _) = Some domain"
| "target_domain (Ipv4 _ _) = None"
| "target_domain (Ipv6 _ _) = None"

definition trim_end_matches :: "byte \<Rightarrow> byte list \<Rightarrow> byte list" where
  "trim_end_matches c bs = rev (dropWhile (\<lambda>b. b = c) (rev bs))"

definition normalize_domain :: "byte list \<Rightarrow> byte list" where
  "normalize_domain domain = map to_ascii_lowercase (trim_end_matches dot domain)"

definition str_ends_with :: "byte list \<Rightarrow> byte list \<Rightarrow> bool" where
  "str_ends_with bs suffix \<longleftrightarrow>
     length suffix \<le> length bs \<and> drop (length bs - length suffix) bs = suffix"

definition str_strip_suffix :: "byte list \<Rightarrow> byte list \<Rightarrow> byte list option" where
  "str_strip_suffix bs suffix =
     (if str_ends_with bs suffix then Some (take (length bs - length suffix) bs) else None)"

definition domain_matches_exact :: "byte list \<Rightarrow> byte list \<Rightarrow> bool" where
  "domain_matches_exact domain want =
     (let domain = normalize_domain domain; want = normalize_domain want
      in want \<noteq> [] \<and> domain = want)"

definition domain_matches_suffix :: "byte list \<Rightarrow> byte list \<Rightarrow> bool" where
  "domain_matches_suffix domain suffix =
     (let domain = normalize_domain domain; suffix = normalize_domain suffix
      in if suffix = [] then False
         else case strip_prefix [dot] suffix of
                Some stripped \<Rightarrow>
                  stripped \<noteq> [] \<and> length stripped < length domain \<and> str_ends_with domain suffix
              | None \<Rightarrow>
                  domain = suffix
                  \<or> is_some_and (str_strip_suffix domain suffix) (\<lambda>prefix. ends_with dot prefix))"

fun target_ips :: "target \<Rightarrow> ip_addr list \<Rightarrow> ip_addr list" where
  "target_ips (Domain _ _) resolved_ips = resolved_ips"
| "target_ips (Ipv4 ip _) resolved_ips = [V4 ip]"
| "target_ips (Ipv6 ip _) resolved_ips = [V6 ip]"

definition cidr_matches :: "policy_decision \<Rightarrow> cidr \<Rightarrow> target \<Rightarrow> ip_addr list \<Rightarrow> bool" where
  "cidr_matches action cidr target resolved_ips =
     (let ips = target_ips target resolved_ips
      in if ips = [] then False
         else case action of
                Allow \<Rightarrow> list_all (cidr_contains cidr) ips
              | Deny \<Rightarrow> list_ex (cidr_contains cidr) ips)"

definition target_or_resolution_contains_metadata_service_ip :: "target \<Rightarrow> ip_addr list \<Rightarrow> bool" where
  "target_or_resolution_contains_metadata_service_ip target resolved_ips =
     list_ex is_metadata_service_ip (target_ips target resolved_ips)"

fun target_or_resolution_is_private :: "target \<Rightarrow> ip_addr list \<Rightarrow> bool" where
  "target_or_resolution_is_private (Ipv4 ip _) resolved_ips = is_restricted_ipv4 ip"
| "target_or_resolution_is_private (Ipv6 ip _) resolved_ips = is_private (V6 ip)"
| "target_or_resolution_is_private (Domain _ _) resolved_ips =
     (if resolved_ips = [] then True else list_ex is_private resolved_ips)"

definition private_matches :: "policy_context \<Rightarrow> bool \<Rightarrow> bool" where
  "private_matches ctx want_private =
     (let ips = target_ips (pc_target ctx) (pc_resolved_ips ctx)
      in if ips = [] then False
         else if want_private then list_ex is_private ips
         else list_all (\<lambda>ip. \<not> is_private ip) ips)"

definition matches_fixed_predicates :: "policy_rule \<Rightarrow> policy_context \<Rightarrow> bool" where
  "matches_fixed_predicates r ctx =
     (if is_some_and (pr_key_id r) (\<lambda>key_id. key_id \<noteq> pc_key_id ctx) then False
      else if is_some_and (pr_policy_group r) (\<lambda>group.
                is_none_or (pc_policy_group ctx) (\<lambda>context_group. context_group \<noteq> group)) then False
      else if is_some_and (pr_domain r) (\<lambda>want.
                is_none_or (target_domain (pc_target ctx)) (\<lambda>domain. \<not> domain_matches_exact domain want))
      then False
      else if is_some_and (pr_domain_suffix r) (\<lambda>suffix.
                is_none_or (target_domain (pc_target ctx)) (\<lambda>domain. \<not> domain_matches_suffix domain suffix))
      then False
      else if is_some_and (pr_ports r) (\<lambda>(start, stop).
                \<not> (start \<le> target_port (pc_target ctx) \<and> target_port (pc_target ctx) \<le> stop)) then False
      else True)"

definition rule_matches :: "policy_rule \<Rightarrow> policy_context \<Rightarrow> bool" where
  "rule_matches r ctx =
     (if \<not> matches_fixed_predicates r ctx then False
      else if is_some_and (pr_cidr r) (\<lambda>cidr.
                \<not> cidr_matches (pr_action r) cidr (pc_target ctx) (pc_resolved_ips ctx)) then False
      else if is_some_and (pr_private r) (\<lambda>want_private. \<not> private_matches ctx want_private) then False
      else True)"

fun resolution_dependent :: "policy_rule \<Rightarrow> target \<Rightarrow> bool" where
  "resolution_dependent r (Ipv4 _ _) = False"
| "resolution_dependent r (Ipv6 _ _) = False"
| "resolution_dependent r (Domain _ _) =
     (if pr_cidr r \<noteq> None then True
      else case (pr_action r, pr_private r) of
             (Deny, None) \<Rightarrow> False
           | _ \<Rightarrow> True)"

section \<open>Policy sets\<close>

fun evaluate_rules :: "policy_rule list \<Rightarrow> policy_context \<Rightarrow> policy_decision" where
  "evaluate_rules [] ctx = Deny"
| "evaluate_rules (r # rs) ctx =
     (if rule_matches r ctx
      then if pr_action r = Allow \<and> pr_private r \<noteq> Some True
              \<and> target_or_resolution_is_private (pc_target ctx) (pc_resolved_ips ctx)
           then Deny
           else pr_action r
      else evaluate_rules rs ctx)"

definition evaluate :: "policy_set \<Rightarrow> policy_context \<Rightarrow> policy_decision" where
  "evaluate ps ctx =
     (if target_or_resolution_contains_metadata_service_ip (pc_target ctx) (pc_resolved_ips ctx)
      then Deny else evaluate_rules (ps_rules ps) ctx)"

fun pre_resolve_rules :: "policy_rule list \<Rightarrow> policy_context \<Rightarrow> pre_resolve_decision" where
  "pre_resolve_rules [] ctx = DeniedWithoutResolution"
| "pre_resolve_rules (r # rs) ctx =
     (if \<not> matches_fixed_predicates r ctx then pre_resolve_rules rs ctx
      else if resolution_dependent r (pc_target ctx) then NeedsResolution
      else case pr_action r of
             Deny \<Rightarrow> DeniedWithoutResolution
           | Allow \<Rightarrow> NeedsResolution)"

definition evaluate_pre_resolve :: "policy_set \<Rightarrow> policy_context \<Rightarrow> pre_resolve_decision" where
  "evaluate_pre_resolve ps ctx =
     (let literal = (case evaluate ps ctx of
                       Allow \<Rightarrow> NeedsResolution
                     | Deny \<Rightarrow> DeniedWithoutResolution)
      in case pc_target ctx of
           Ipv4 _ _ \<Rightarrow> literal
         | Ipv6 _ _ \<Rightarrow> literal
         | Domain _ _ \<Rightarrow>
             if \<not> list_ex (\<lambda>r. pr_action r = Allow \<and> matches_fixed_predicates r ctx) (ps_rules ps)
             then DeniedWithoutResolution
             else pre_resolve_rules (ps_rules ps) ctx)"

fun unrestricted_private_allow_from :: "bool \<Rightarrow> policy_rule list \<Rightarrow> bool" where
  "unrestricted_private_allow_from has_blanket_private_deny [] = False"
| "unrestricted_private_allow_from has_blanket_private_deny (r # rs) =
     (if is_blanket_private_deny r then unrestricted_private_allow_from True rs
      else if pr_action r = Allow \<and> \<not> has_blanket_private_deny \<and> pr_private r = Some True then True
      else unrestricted_private_allow_from has_blanket_private_deny rs)"

definition has_unrestricted_private_allow :: "policy_set \<Rightarrow> bool" where
  "has_unrestricted_private_allow ps = unrestricted_private_allow_from False (ps_rules ps)"

section \<open>Rules from configuration\<close>

record raw_policy_rule =
  rr_action :: "byte list"
  rr_key_id :: "byte list option"
  rr_policy_group :: "byte list option"
  rr_domain :: "byte list option"
  rr_domain_suffix :: "byte list option"
  rr_cidr :: "byte list option"
  rr_port_start :: "u16 option"
  rr_port_end :: "u16 option"
  rr_private :: "bool option"

definition eq_ignore_ascii_case :: "byte list \<Rightarrow> byte list \<Rightarrow> bool" where
  "eq_ignore_ascii_case a b \<longleftrightarrow> map to_ascii_lowercase a = map to_ascii_lowercase b"

definition validate_key_id_match :: "byte list \<Rightarrow> policy_error + byte list" where
  "validate_key_id_match key_id =
     and_then (map_err (\<lambda>_. InvalidKeyId key_id) (validate_key_id key_id)) (\<lambda>_. Inr key_id)"

definition validate_policy_group_match :: "byte list \<Rightarrow> policy_error + byte list" where
  "validate_policy_group_match grp =
     (if grp = [] \<or> list_ex is_ascii_control grp then Inl (InvalidPolicyGroup grp) else Inr grp)"

definition validate_domain_match :: "byte list \<Rightarrow> policy_error + byte list" where
  "validate_domain_match domain =
     (let normalized = normalize_domain domain
      in if starts_with dot normalized \<or> \<not> is_ok (validate_domain_name normalized)
         then Inl (InvalidDomain domain) else Inr domain)"

definition validate_domain_suffix_match :: "byte list \<Rightarrow> policy_error + byte list" where
  "validate_domain_suffix_match suffix =
     (let normalized = normalize_domain suffix
      in if \<not> is_ok (validate_domain_pattern normalized) then Inl (InvalidDomain suffix) else Inr suffix)"

definition transpose :: "('a \<Rightarrow> 'e + 'b) \<Rightarrow> 'a option \<Rightarrow> 'e + 'b option" where
  "transpose f x = (case x of None \<Rightarrow> Inr None | Some v \<Rightarrow> and_then (f v) (\<lambda>w. Inr (Some w)))"

definition policy_rule_try_from :: "raw_policy_rule \<Rightarrow> policy_error + policy_rule" where
  "policy_rule_try_from raw =
     and_then (if eq_ignore_ascii_case (rr_action raw) [0x61, 0x6c, 0x6c, 0x6f, 0x77] then Inr Allow
               else if eq_ignore_ascii_case (rr_action raw) [0x64, 0x65, 0x6e, 0x79] then Inr Deny
               else Inl (InvalidAction (rr_action raw))) (\<lambda>action.
     and_then (case (rr_port_start raw, rr_port_end raw) of
                 (Some start, Some stop) \<Rightarrow>
                   if start \<le> stop \<and> start \<noteq> 0 then Inr (Some (start, stop)) else Inl InvalidPortRange
               | (None, None) \<Rightarrow> Inr None
               | _ \<Rightarrow> Inl InvalidPortRange) (\<lambda>ports.
     let private = (if action = Allow \<and> rr_private raw = None then Some False else rr_private raw) in
     and_then (transpose validate_key_id_match (rr_key_id raw)) (\<lambda>key_id.
     and_then (transpose validate_policy_group_match (rr_policy_group raw)) (\<lambda>policy_group.
     and_then (transpose validate_domain_match (rr_domain raw)) (\<lambda>domain.
     and_then (transpose validate_domain_suffix_match (rr_domain_suffix raw)) (\<lambda>domain_suffix.
     and_then (transpose cidr_from_str (rr_cidr raw)) (\<lambda>cidr.
     Inr \<lparr>pr_action = action, pr_key_id = key_id, pr_policy_group = policy_group, pr_domain = domain,
          pr_domain_suffix = domain_suffix, pr_cidr = cidr, pr_ports = ports,
          pr_private = private\<rparr>)))))))"

fun policy_rules_try_from :: "raw_policy_rule list \<Rightarrow> policy_error + policy_rule list" where
  "policy_rules_try_from [] = Inr []"
| "policy_rules_try_from (raw # raws) =
     and_then (policy_rule_try_from raw) (\<lambda>r.
     and_then (policy_rules_try_from raws) (\<lambda>rs. Inr (r # rs)))"

definition policy_set_try_from :: "raw_policy_rule list \<Rightarrow> policy_error + policy_set" where
  "policy_set_try_from raws = and_then (policy_rules_try_from raws) (\<lambda>rs. Inr \<lparr>ps_rules = rs\<rparr>)"

definition policy_set_from_toml ::
    "(byte list \<Rightarrow> byte list + raw_policy_rule list) \<Rightarrow> byte list \<Rightarrow> policy_error + policy_set" where
  "policy_set_from_toml toml_from_str input =
     and_then (map_err InvalidToml (toml_from_str input)) policy_set_try_from"

end
