(* ===== verification/Policy_Props.thy ===== *)
theory Policy_Props
  imports Policy
begin

text \<open>
  What the policy engine guarantees: the first-match semantics of rule sets, the soundness of the
  decision before name resolution, the protection of private and metadata addresses, and the
  meaning of networks, embedded addresses and domain suffixes.
\<close>

section \<open>First match\<close>

definition blocked_allow :: "policy_rule \<Rightarrow> policy_context \<Rightarrow> bool" where
  "blocked_allow r ctx \<longleftrightarrow>
     pr_action r = Allow \<and> pr_private r \<noteq> Some True \<and>
     target_or_resolution_is_private (pc_target ctx) (pc_resolved_ips ctx)"

lemma evaluate_rules_find:
  "evaluate_rules rs ctx =
     (case List.find (\<lambda>r. rule_matches r ctx) rs of
        None \<Rightarrow> Deny
      | Some r \<Rightarrow> if blocked_allow r ctx then Deny else pr_action r)"
  by (induction rs) (auto simp: blocked_allow_def)

lemma target_private_iff:
  "target_or_resolution_is_private t ips \<longleftrightarrow>
     target_ips t ips = [] \<or> list_ex is_private (target_ips t ips)"
  by (cases t) auto

lemma evaluate_Allow:
  assumes "evaluate ps ctx = Allow"
  shows "list_all (\<lambda>ip. \<not> is_metadata_service_ip ip) (target_ips (pc_target ctx) (pc_resolved_ips ctx)) \<and>
    (\<exists>r \<in> set (ps_rules ps). pr_action r = Allow \<and> rule_matches r ctx \<and>
       (target_or_resolution_is_private (pc_target ctx) (pc_resolved_ips ctx) \<longrightarrow> pr_private r = Some True))"
proof -
  from assms have meta: "\<not> list_ex is_metadata_service_ip (target_ips (pc_target ctx) (pc_resolved_ips ctx))"
    and "evaluate_rules (ps_rules ps) ctx = Allow"
    by (auto simp: evaluate_def target_or_resolution_contains_metadata_service_ip_def split: if_splits)
  then obtain r where "List.find (\<lambda>r. rule_matches r ctx) (ps_rules ps) = Some r"
    "\<not> blocked_allow r ctx" "pr_action r = Allow"
    by (auto simp: evaluate_rules_find split: option.splits if_splits)
  then have "r \<in> set (ps_rules ps)" "rule_matches r ctx" by (auto simp: find_Some_iff)
  with \<open>\<not> blocked_allow r ctx\<close> \<open>pr_action r = Allow\<close> meta show ?thesis
    by (auto simp: blocked_allow_def list_all_iff list_ex_iff)
qed

lemma rule_matches_private:
  "rule_matches r ctx \<Longrightarrow> pr_private r = Some True \<Longrightarrow>
     target_ips (pc_target ctx) (pc_resolved_ips ctx) \<noteq> [] \<and>
     list_ex is_private (target_ips (pc_target ctx) (pc_resolved_ips ctx))"
  by (auto simp: rule_matches_def private_matches_def is_some_and_def Let_def split: if_splits)

lemma evaluate_Allow_resolved:
  "evaluate ps ctx = Allow \<Longrightarrow> target_ips (pc_target ctx) (pc_resolved_ips ctx) \<noteq> []"
  using evaluate_Allow [of ps ctx] rule_matches_private [of _ ctx] by (auto simp: target_private_iff)

section \<open>Blanket denials\<close>

lemma blanket_private_deny_matches:
  assumes "is_blanket_private_deny r" and "list_ex is_private (target_ips (pc_target ctx) (pc_resolved_ips ctx))"
  shows "rule_matches r ctx"
  using assms by (auto simp: is_blanket_private_deny_def rule_matches_def matches_fixed_predicates_def
      private_matches_def is_some_and_def)

lemma private_allow_is_unrestricted:
  assumes "list_ex is_private (target_ips (pc_target ctx) (pc_resolved_ips ctx))"
    and "evaluate_rules rs ctx = Allow"
  shows "unrestricted_private_allow_from False rs"
  using assms
proof (induction rs)
  case (Cons r rs)
  show ?case
  proof (cases "is_blanket_private_deny r")
    case True
    with Cons.prems blanket_private_deny_matches [OF True] show ?thesis
      by (simp add: is_blanket_private_deny_def)
  next
    case False
    with Cons show ?thesis by (auto simp: target_private_iff split: if_splits)
  qed
qed simp

section \<open>Before resolution\<close>

lemma fixed_predicates_update [simp]:
  "matches_fixed_predicates r (ctx\<lparr>pc_resolved_ips := ips\<rparr>) = matches_fixed_predicates r ctx"
  by (simp add: matches_fixed_predicates_def)

lemma fixed_only_deny_matches:
  assumes "matches_fixed_predicates r ctx" and "\<not> resolution_dependent r (Domain d p)"
  shows "pr_action r = Deny \<and> rule_matches r (ctx\<lparr>pc_resolved_ips := ips\<rparr>)"
  using assms by (auto simp: rule_matches_def is_some_and_def split: if_splits option.splits policy_decision.splits)

lemma pre_resolve_rules_sound:
  assumes "pre_resolve_rules rs ctx = DeniedWithoutResolution" and "pc_target ctx = Domain d p"
  shows "evaluate_rules rs (ctx\<lparr>pc_resolved_ips := ips\<rparr>) = Deny"
  using assms
proof (induction rs)
  case (Cons r rs)
  show ?case
  proof (cases "matches_fixed_predicates r ctx")
    case True
    with Cons.prems have "\<not> resolution_dependent r (Domain d p)" by (auto split: if_splits)
    from fixed_only_deny_matches [OF True this, of ips] show ?thesis by simp
  next
    case False
    with Cons show ?thesis by (simp add: rule_matches_def)
  qed
qed simp

lemma no_allow_denies:
  assumes "\<not> list_ex (\<lambda>r. pr_action r = Allow \<and> matches_fixed_predicates r ctx) rs"
  shows "evaluate_rules rs (ctx\<lparr>pc_resolved_ips := ips\<rparr>) = Deny"
  using assms
proof (induction rs)
  case (Cons r rs)
  then show ?case by (cases "pr_action r") (auto simp: rule_matches_def)
qed simp

lemma evaluate_literal:
  assumes "\<And>d p. pc_target ctx \<noteq> Domain d p"
  shows "evaluate ps (ctx\<lparr>pc_resolved_ips := ips\<rparr>) = evaluate ps ctx"
proof -
  have ips: "target_ips (pc_target ctx) x = target_ips (pc_target ctx) y" for x y
    using assms by (cases "pc_target ctx") auto
  then have rule: "rule_matches r (ctx\<lparr>pc_resolved_ips := ips\<rparr>) = rule_matches r ctx" for r
    unfolding rule_matches_def cidr_matches_def private_matches_def by (simp add: ips [of ips "pc_resolved_ips ctx"])
  have "evaluate_rules rs (ctx\<lparr>pc_resolved_ips := ips\<rparr>) = evaluate_rules rs ctx" for rs
    by (induction rs) (simp_all add: rule target_private_iff ips [of ips "pc_resolved_ips ctx"])
  then show ?thesis
    by (simp add: evaluate_def target_or_resolution_contains_metadata_service_ip_def ips [of ips "pc_resolved_ips ctx"])
qed

section \<open>Networks\<close>

lemma and_mask_eq_iff:
  fixes a b :: "'a::len word"
  shows "a AND push_bit k (- 1) = b AND push_bit k (- 1) \<longleftrightarrow> drop_bit k a = drop_bit k b"
proof
  assume eq: "a AND push_bit k (- 1) = b AND push_bit k (- 1)"
  show "drop_bit k a = drop_bit k b"
  proof (rule bit_word_eqI)
    fix n assume "n < LENGTH('a)"
    from eq have "bit (a AND push_bit k (- 1)) (k + n) = bit (b AND push_bit k (- 1)) (k + n)" by simp
    then show "bit (drop_bit k a) n = bit (drop_bit k b) n"
      by (auto simp: bit_simps dest: bit_imp_le_length)
  qed
next
  assume eq: "drop_bit k a = drop_bit k b"
  show "a AND push_bit k (- 1) = b AND push_bit k (- 1)"
  proof (rule bit_word_eqI)
    fix n assume "n < LENGTH('a)"
    from eq have "bit (drop_bit k a) (n - k) = bit (drop_bit k b) (n - k)" by simp
    then show "bit (a AND push_bit k (- 1)) n = bit (b AND push_bit k (- 1)) n"
      by (auto simp: bit_simps)
  qed
qed

lemma ipv4_mask_eq_iff:
  "a AND ipv4_mask prefix = b AND ipv4_mask prefix \<longleftrightarrow>
     drop_bit (32 - unat prefix) a = drop_bit (32 - unat prefix) b"
proof -
  have zero: "drop_bit 32 x = 0" for x :: u32 by (rule bit_word_eqI) (auto simp: bit_simps dest: bit_imp_le_length)
  have "unat prefix > 32" if "\<not> prefix \<le> 32" using that by (simp add: word_le_nat_alt)
  then show ?thesis by (auto simp: ipv4_mask_def and_mask_eq_iff zero simp del: push_bit_minus_one_eq_not_mask)
qed

lemma ipv6_mask_eq_iff:
  "a AND ipv6_mask prefix = b AND ipv6_mask prefix \<longleftrightarrow>
     drop_bit (128 - unat prefix) a = drop_bit (128 - unat prefix) b"
proof -
  have zero: "drop_bit 128 x = 0" for x :: u128 by (rule bit_word_eqI) (auto simp: bit_simps dest: bit_imp_le_length)
  have "unat prefix > 128" if "\<not> prefix \<le> 128" using that by (simp add: word_le_nat_alt)
  then show ?thesis by (auto simp: ipv6_mask_def and_mask_eq_iff zero simp del: push_bit_minus_one_eq_not_mask)
qed

section \<open>Embedded addresses\<close>

definition ipv6_new :: "u16 list \<Rightarrow> u128" where
  "ipv6_new ss = word_of_int (foldl (\<lambda>acc s. acc * 65536 + uint s) 0 ss)"

definition v4_high :: "u32 \<Rightarrow> u16" where "v4_high a = ucast (drop_bit 16 a)"
definition v4_low :: "u32 \<Rightarrow> u16" where "v4_low a = ucast a"

lemma segment_div: "uint (segment i ip) = uint ip div 65536 ^ (7 - i) mod 65536"
proof -
  have "segment i ip = take_bit 16 (drop_bit (16 * (7 - i)) ip)"
    by (simp add: segment_def take_bit_eq_mask mask_eq_exp_minus_1)
  then have "uint (segment i ip) = take_bit 16 (drop_bit (16 * (7 - i)) (uint ip))"
    using take_bit_int_eq_self [of "uint ip" "LENGTH(128)"] uint_lt2p [of ip]
    by (simp only: unsigned_take_bit_eq unsigned_drop_bit_eq) simp
  moreover have "(2 :: int) ^ (16 * (7 - i)) = 65536 ^ (7 - i)" by (simp add: power_mult)
  ultimately show ?thesis by (simp add: take_bit_eq_mod drop_bit_eq_div)
qed

lemma horner_bounds:
  "0 \<le> foldl (\<lambda>acc (s :: u16). acc * 65536 + uint s) 0 ss \<and>
   foldl (\<lambda>acc s. acc * 65536 + uint s) 0 ss < 65536 ^ length ss"
proof (induction ss rule: rev_induct)
  case (snoc s ss)
  have "0 \<le> uint s" "uint s < 65536" using uint_lt2p [of s] by simp_all
  with snoc show ?case by simp
qed simp

lemma horner_div:
  assumes "k \<le> length ss"
  shows "foldl (\<lambda>acc (s :: u16). acc * 65536 + uint s) 0 ss div 65536 ^ k =
    foldl (\<lambda>acc s. acc * 65536 + uint s) 0 (take (length ss - k) ss)"
  using assms
proof (induction k)
  case (Suc k)
  let ?h = "foldl (\<lambda>acc (s :: u16). acc * 65536 + uint s) 0"
  have "?h ss div 65536 ^ Suc k = ?h ss div 65536 ^ k div 65536"
    by (simp add: zdiv_zmult2_eq [symmetric] mult.commute)
  also have "\<dots> = ?h (take (length ss - k) ss) div 65536" using Suc by simp
  also have "take (length ss - k) ss = take (length ss - Suc k) ss @ [ss ! (length ss - Suc k)]"
    using Suc.prems by (metis Suc_diff_Suc Suc_le_lessD diff_less lessI less_le_trans take_Suc_conv_app_nth zero_less_Suc)
  also have "?h \<dots> div 65536 = ?h (take (length ss - Suc k) ss)"
    using uint_lt2p [of "ss ! (length ss - Suc k)"] by simp
  finally show ?case .
qed simp

lemma segment_ipv6_new:
  assumes "length ss = 8" and "i < 8"
  shows "segment i (ipv6_new ss) = ucast (ss ! i)"
proof (rule unsigned_word_eqI)
  let ?h = "foldl (\<lambda>acc (s :: u16). acc * 65536 + uint s) 0"
  have "uint (ipv6_new ss) = ?h ss"
    using horner_bounds [of ss] assms(1) by (simp add: ipv6_new_def unsigned_of_int take_bit_eq_mod)
  then have "uint (segment i (ipv6_new ss)) = ?h (take (Suc i) ss) mod 65536"
    using horner_div [of "7 - i" ss] assms by (simp add: segment_div Suc_diff_le less_Suc_eq_le eval_nat_numeral)
  also have "take (Suc i) ss = take i ss @ [ss ! i]" using assms by (simp add: take_Suc_conv_app_nth)
  also have "?h (take i ss @ [ss ! i]) mod 65536 = uint (ss ! i)"
    using uint_lt2p [of "ss ! i"] by simp
  finally show "uint (segment i (ipv6_new ss)) = uint (ucast (ss ! i) :: u128)"
    using uint_lt2p [of "ss ! i"] by (simp add: unsigned_ucast_eq take_bit_eq_mod mod_pos_pos_trivial)
qed

lemma ipv4_from_halves: "ipv4_from_segments (ucast (v4_high a)) (ucast (v4_low a)) = a"
proof (rule bit_word_eqI)
  have mask: "x AND 0xff = take_bit 8 x" for x :: u128 by (simp add: take_bit_eq_mask mask_eq_exp_minus_1)
  fix n assume "n < LENGTH(32)"
  then have "n < 8 \<or> 8 \<le> n \<and> n < 16 \<or> 16 \<le> n \<and> n < 24 \<or> 24 \<le> n \<and> n < 32" by auto
  then show "bit (ipv4_from_segments (ucast (v4_high a)) (ucast (v4_low a))) n = bit a n"
    unfolding ipv4_from_segments_def ipv4_new_def v4_high_def v4_low_def mask
    by (elim disjE) (auto simp: bit_simps)
qed

lemma unat_ucast_u16: "unat (ucast (x :: u16) :: u128) = unat x"
  using unat_less_pow [of x] by (simp add: unsigned_ucast_eq take_bit_eq_mod)

lemma ucast_u16_small:
  "(ucast (x :: u16) :: u128) = 0 \<longleftrightarrow> x = 0" "(ucast (x :: u16) :: u128) \<le> 1 \<longleftrightarrow> x \<le> 1"
  using unat_ucast_u16 [of x] unat_ucast_u16 [of 0]
  by (auto simp: word_le_nat_alt intro: unsigned_word_eqI)

lemma first_segments:
  "map f [0..<5] = [f 0, f 1, f 2, f 3, f 4]" "map f [0..<6] = [f 0, f 1, f 2, f 3, f 4, f 5]"
  by (simp_all add: upt_rec eval_nat_numeral)

lemma embedded_forms:
  "embedded_ipv4 (ipv6_new [0, 0, 0, 0, 0, 0xffff, v4_high a, v4_low a]) = Some a"
  "embedded_ipv4 (ipv6_new [0x64, 0xff9b, 0, 0, 0, 0, v4_high a, v4_low a]) = Some a"
  "embedded_ipv4 (ipv6_new [0x2002, v4_high a, v4_low a, s3, s4, s5, s6, s7]) = Some a"
  "\<not> (v4_high a = 0 \<and> v4_low a \<le> 1) \<Longrightarrow>
     embedded_ipv4 (ipv6_new [0, 0, 0, 0, 0, 0, v4_high a, v4_low a]) = Some a"
  by (auto simp: embedded_ipv4_def ipv4_mapped_def segment_ipv6_new ipv4_from_halves first_segments
      ucast_u16_small split: option.split)

section \<open>Domain suffixes\<close>

lemma str_ends_with_iff: "str_ends_with bs suffix \<longleftrightarrow> (\<exists>p. bs = p @ suffix)"
proof
  assume "str_ends_with bs suffix"
  then show "\<exists>p. bs = p @ suffix"
    by (metis append_take_drop_id str_ends_with_def)
qed (auto simp: str_ends_with_def)

lemma suffix_labels_iff:
  "(\<exists>p. bs = p @ dot # t) \<longleftrightarrow> (\<exists>ls. ls \<noteq> [] \<and> split_on dot bs = ls @ split_on dot t)"
proof
  assume "\<exists>p. bs = p @ dot # t"
  then show "\<exists>ls. ls \<noteq> [] \<and> split_on dot bs = ls @ split_on dot t"
    by (metis split_on_append_sep split_on_ne)
next
  assume "\<exists>ls. ls \<noteq> [] \<and> split_on dot bs = ls @ split_on dot t"
  then obtain ls where ls: "ls \<noteq> []" "split_on dot bs = ls @ split_on dot t" by blast
  have "join_with dot (xs @ ys) = join_with dot xs @ dot # join_with dot ys" if "xs \<noteq> []" "ys \<noteq> []" for xs ys
    using that by (induction "dot" xs rule: join_with.induct) (cases ys; auto)+
  from this [OF ls(1), of "split_on dot t"] have "join_with dot (split_on dot bs) = join_with dot ls @ dot # t"
    by (simp add: ls(2))
  then show "\<exists>p. bs = p @ dot # t" by auto
qed

lemma domain_matches_suffix_iff:
  "domain_matches_suffix d s \<longleftrightarrow>
     (let t = strip_leading_dot (normalize_domain s) in
      t \<noteq> [] \<and> (\<exists>ls. split_on dot (normalize_domain d) = ls @ split_on dot t \<and>
        (starts_with dot (normalize_domain s) \<longrightarrow> ls \<noteq> [])))"
proof -
  let ?d = "normalize_domain d" and ?s = "normalize_domain s"
  show ?thesis
  proof (cases "starts_with dot ?s")
    case True
    then obtain t where t: "?s = dot # t" by (cases "?s") (auto simp: starts_with_def)
    have "domain_matches_suffix d s \<longleftrightarrow> t \<noteq> [] \<and> (\<exists>p. ?d = p @ dot # t)"
      by (auto simp: domain_matches_suffix_def Let_def t strip_prefix_def str_ends_with_iff)
    then show ?thesis
      using True by (auto simp: suffix_labels_iff t strip_leading_dot_def)
  next
    case False
    then have strip: "strip_prefix [dot] ?s = None" "strip_leading_dot ?s = ?s"
      by (cases "?s"; auto simp: strip_prefix_def starts_with_def strip_leading_dot_def)+
    have suf: "is_some_and (str_strip_suffix ?d ?s) (\<lambda>p. ends_with dot p) \<longleftrightarrow> (\<exists>p. ?d = p @ dot # ?s)"
    proof
      assume "is_some_and (str_strip_suffix ?d ?s) (\<lambda>p. ends_with dot p)"
      then obtain p where "?d = p @ ?s" "ends_with dot p"
        by (auto simp: is_some_and_def str_strip_suffix_def str_ends_with_iff split: if_splits)
      then show "\<exists>p. ?d = p @ dot # ?s"
        by (metis append.assoc append_Cons append_Nil append_butlast_last_id ends_with_def)
    next
      assume "\<exists>p. ?d = p @ dot # ?s"
      then obtain p where "?d = (p @ [dot]) @ ?s" by auto
      then show "is_some_and (str_strip_suffix ?d ?s) (\<lambda>p. ends_with dot p)"
        unfolding is_some_and_def str_strip_suffix_def str_ends_with_iff by (auto simp: ends_with_def)
    qed
    have "domain_matches_suffix d s \<longleftrightarrow> ?s \<noteq> [] \<and> (?d = ?s \<or> (\<exists>p. ?d = p @ dot # ?s))"
      by (simp add: domain_matches_suffix_def Let_def strip suf)
    moreover have "?d = ?s \<longleftrightarrow> split_on dot ?d = split_on dot ?s" by (metis join_split_on)
    ultimately show ?thesis
      using False by (auto simp: suffix_labels_iff strip Let_def)
  qed
qed

section \<open>Configured rules\<close>

definition rule_wf :: "policy_rule \<Rightarrow> bool" where
  "rule_wf r \<longleftrightarrow>
     (pr_action r = Allow \<longrightarrow> pr_private r \<noteq> None) \<and>
     pred_option (\<lambda>(start, stop). 0 < start \<and> start \<le> stop) (pr_ports r) \<and>
     pred_option (\<lambda>k. k \<noteq> [] \<and> length k \<le> 64) (pr_key_id r) \<and>
     pred_option (\<lambda>d. hostname (normalize_domain d)) (pr_domain r) \<and>
     pred_option (\<lambda>d. \<exists>h. hostname h \<and> normalize_domain d \<in> {h, dot # h}) (pr_domain_suffix r) \<and>
     pred_option (\<lambda>c. case c of CidrV4 _ n \<Rightarrow> n \<le> 32 | CidrV6 _ n \<Rightarrow> n \<le> 128) (pr_cidr r)"

lemma transpose_iff:
  "transpose f x = Inr y \<longleftrightarrow> (case x of None \<Rightarrow> y = None | Some v \<Rightarrow> \<exists>w. f v = Inr w \<and> y = Some w)"
  by (auto simp: transpose_def result_simps split: option.split)

lemma transpose_pred:
  "transpose f x = Inr y \<Longrightarrow> (\<And>v w. f v = Inr w \<Longrightarrow> P w) \<Longrightarrow> pred_option P y"
  by (auto simp: transpose_iff split: option.splits)

lemma normalize_no_trailing_dot: "\<not> ends_with dot (normalize_domain d)"
proof -
  have low: "to_ascii_lowercase b = dot \<longleftrightarrow> b = dot" for b
    by (auto simp: to_ascii_lowercase_def is_ascii_upper_def word_le_nat_alt unat_word_ariths
        word_unat_eq_iff)
  have "\<not> ends_with dot (trim_end_matches dot d)"
    using hd_dropWhile [of "\<lambda>b. b = dot" "rev d"]
    by (auto simp: ends_with_def trim_end_matches_def last_rev simp del: dropWhile_eq_Nil_conv)
  then show ?thesis
    by (cases "trim_end_matches dot d" rule: rev_cases) (auto simp: ends_with_def normalize_domain_def low)
qed

lemma hostname_no_leading_dot: "hostname h \<Longrightarrow> \<not> starts_with dot h"
  using hostname_no_edge_dot by blast

lemma validate_domain_suffix_match_hostname:
  assumes "validate_domain_suffix_match d = Inr s"
  shows "\<exists>h. hostname h \<and> normalize_domain s \<in> {h, dot # h}"
proof -
  from assms have "s = d" and "validate_domain_pattern (normalize_domain d) = Inr ()"
    by (auto simp: validate_domain_suffix_match_def Let_def is_ok_iff split: if_splits)
  then obtain h where "hostname h" "normalize_domain s \<in> {h, dot # h, h @ [dot], dot # h @ [dot]}"
    by (auto simp: validate_domain_pattern_iff)
  with normalize_no_trailing_dot [of s] show ?thesis by (auto simp: ends_with_def)
qed

lemma cidr_from_str_bounded:
  assumes "cidr_from_str bs = Inr c"
  shows "case c of CidrV4 _ n \<Rightarrow> n \<le> 32 | CidrV6 _ n \<Rightarrow> n \<le> 128"
proof -
  from assms obtain ip n where
    "(case ip of V4 ip \<Rightarrow> cidr_new_v4 ip n | V6 ip \<Rightarrow> cidr_new_v6 ip n) = Some c"
    by (auto simp: cidr_from_str_def result_simps)
  then show ?thesis by (cases ip) (auto simp: cidr_new_v4_def cidr_new_v6_def split: if_splits)
qed

lemma policy_rule_try_from_wf:
  assumes "policy_rule_try_from raw = Inr r"
  shows "rule_wf r \<and> (pr_private r = Some True \<longrightarrow> rr_private raw = Some True)"
proof -
  from assms obtain ports where
    p: "(case (rr_port_start raw, rr_port_end raw) of
           (Some start, Some stop) \<Rightarrow> if start \<le> stop \<and> start \<noteq> 0 then Inr (Some (start, stop)) else Inl InvalidPortRange
         | (None, None) \<Rightarrow> Inr None | _ \<Rightarrow> Inl InvalidPortRange) = Inr (pr_ports r)"
    and priv: "pr_private r = (if pr_action r = Allow \<and> rr_private raw = None then Some False else rr_private raw)"
    and t: "transpose validate_key_id_match (rr_key_id raw) = Inr (pr_key_id r)"
      "transpose validate_domain_match (rr_domain raw) = Inr (pr_domain r)"
      "transpose validate_domain_suffix_match (rr_domain_suffix raw) = Inr (pr_domain_suffix r)"
      "transpose cidr_from_str (rr_cidr raw) = Inr (pr_cidr r)"
    by (auto simp: policy_rule_try_from_def Let_def and_then_eq_Inr)
  have "pred_option (\<lambda>(start, stop). 0 < start \<and> start \<le> stop) (pr_ports r)"
    using p by (cases "pr_ports r") (auto simp: word_neq_0_conv split: option.splits if_splits)
  moreover have "pred_option (\<lambda>k. k \<noteq> [] \<and> length k \<le> 64) (pr_key_id r)"
    using t(1) by (rule transpose_pred) (auto simp: validate_key_id_match_def result_simps validate_key_id_iff)
  moreover have "pred_option (\<lambda>d. hostname (normalize_domain d)) (pr_domain r)"
    using t(2) by (rule transpose_pred)
      (auto simp: validate_domain_match_def Let_def is_ok_iff validate_domain_name_def validate_domain_iff split: if_splits)
  moreover have "pred_option (\<lambda>d. \<exists>h. hostname h \<and> normalize_domain d \<in> {h, dot # h}) (pr_domain_suffix r)"
    using t(3) by (rule transpose_pred) (rule validate_domain_suffix_match_hostname)
  moreover have "pred_option (\<lambda>c. case c of CidrV4 _ n \<Rightarrow> n \<le> 32 | CidrV6 _ n \<Rightarrow> n \<le> 128) (pr_cidr r)"
    using t(4) by (rule transpose_pred) (rule cidr_from_str_bounded)
  ultimately show ?thesis by (auto simp: rule_wf_def priv)
qed

lemma policy_rules_try_from_wf:
  "policy_rules_try_from raws = Inr rs \<Longrightarrow>
     list_all2 (\<lambda>raw r. policy_rule_try_from raw = Inr r) raws rs"
  by (induction raws arbitrary: rs) (auto simp: result_simps)

section \<open>Properties\<close>

abbreviation ctx_ips :: "policy_context \<Rightarrow> ip_addr list" where
  "ctx_ips ctx \<equiv> target_ips (pc_target ctx) (pc_resolved_ips ctx)"

text \<open>C25: A decision to deny before name resolution is final: if \<open>evaluate_pre_resolve\<close> answers
  \<open>DeniedWithoutResolution\<close>, then \<open>evaluate\<close> denies the same request whatever addresses the name
  resolves to.\<close>

theorem pre_resolve_denial_is_final:
  assumes "evaluate_pre_resolve ps ctx = DeniedWithoutResolution"
  shows "evaluate ps (ctx\<lparr>pc_resolved_ips := ips\<rparr>) = Deny"
proof (cases "pc_target ctx")
  case (Domain d p)
  with assms consider
      "\<not> list_ex (\<lambda>r. pr_action r = Allow \<and> matches_fixed_predicates r ctx) (ps_rules ps)"
    | "pre_resolve_rules (ps_rules ps) ctx = DeniedWithoutResolution"
    by (auto simp: evaluate_pre_resolve_def Let_def split: if_splits)
  then have "evaluate_rules (ps_rules ps) (ctx\<lparr>pc_resolved_ips := ips\<rparr>) = Deny"
    by cases (rule no_allow_denies pre_resolve_rules_sound [OF _ Domain], assumption)+
  then show ?thesis by (simp add: evaluate_def)
next
  case (Ipv4 a p)
  with assms have "evaluate ps ctx = Deny"
    by (cases "evaluate ps ctx") (simp_all add: evaluate_pre_resolve_def)
  then show ?thesis using evaluate_literal [of ctx ps ips] Ipv4 by simp
next
  case (Ipv6 a p)
  with assms have "evaluate ps ctx = Deny"
    by (cases "evaluate ps ctx") (simp_all add: evaluate_pre_resolve_def)
  then show ?thesis using evaluate_literal [of ctx ps ips] Ipv6 by simp
qed

definition sample_ctx :: "ip_addr list \<Rightarrow> policy_context" where
  "sample_ctx ips = \<lparr>pc_key_id = [1], pc_policy_group = None, pc_target = Domain [0x61] 80, pc_resolved_ips = ips\<rparr>"

definition sample_rules :: policy_set where
  "sample_rules = \<lparr>ps_rules =
     [(policy_rule_new Deny)\<lparr>pr_ports := Some (80, 80)\<rparr>, policy_rule_new Allow]\<rparr>"

theorem pre_resolve_denial_is_final_witness:
  "evaluate sample_rules ((sample_ctx [])\<lparr>pc_resolved_ips := [V4 0x08080808]\<rparr>) = Deny"
proof (rule pre_resolve_denial_is_final)
  show "evaluate_pre_resolve sample_rules (sample_ctx []) = DeniedWithoutResolution" by code_simp
qed

lemma evaluate_Allow_addresses:
  assumes "evaluate ps ctx = Allow"
  shows "ctx_ips ctx \<noteq> [] \<and> list_all (\<lambda>ip. \<not> is_metadata_service_ip ip) (ctx_ips ctx) \<and>
    (\<exists>r \<in> set (ps_rules ps). pr_action r = Allow \<and> rule_matches r ctx \<and>
       (list_ex is_private (ctx_ips ctx) \<longrightarrow> pr_private r = Some True)) \<and>
    (list_ex is_private (ctx_ips ctx) \<longrightarrow> has_unrestricted_private_allow ps)"
proof -
  from assms have "evaluate_rules (ps_rules ps) ctx = Allow" by (auto simp: evaluate_def split: if_splits)
  then have "list_ex is_private (ctx_ips ctx) \<longrightarrow> has_unrestricted_private_allow ps"
    using private_allow_is_unrestricted by (auto simp: has_unrestricted_private_allow_def)
  with evaluate_Allow [OF assms] evaluate_Allow_resolved [OF assms] show ?thesis
    by (auto simp: target_private_iff)
qed




definition sample_raw :: raw_policy_rule where
  "sample_raw = \<lparr>rr_action = [0x41, 0x6c, 0x6c, 0x6f, 0x77], rr_key_id = None, rr_policy_group = None, rr_domain = None,
     rr_domain_suffix = None, rr_cidr = None, rr_port_start = Some 80,
     rr_port_end = Some 443, rr_private = None\<rparr>"

definition www_ctx :: policy_context where
  "www_ctx = \<lparr>pc_key_id = [1], pc_policy_group = None,
     pc_target = Domain [0x61, 0x2e, 0x62] 443, pc_resolved_ips = [V4 0x08080808]\<rparr>"


text \<open>A network contains exactly the addresses that share its prefix: the leading \<open>prefix\<close> bits
  for a prefix within the address width, the whole address beyond it, so an out-of-range prefix
  never widens a rule. An IPv4 network also contains the IPv4-mapped form of its addresses, and
  an IPv6 network no IPv4 address.\<close>

lemma cidr_contains_prefix:
  "(cidr_contains (CidrV4 net4 n) (V4 a) \<longleftrightarrow> drop_bit (32 - unat n) net4 = drop_bit (32 - unat n) a) \<and>
   (cidr_contains (CidrV4 net4 n) (V6 b) \<longleftrightarrow>
      (\<exists>m. ipv4_mapped b = Some m \<and> drop_bit (32 - unat n) net4 = drop_bit (32 - unat n) m)) \<and>
   (cidr_contains (CidrV6 net6 n) (V6 b) \<longleftrightarrow> drop_bit (128 - unat n) net6 = drop_bit (128 - unat n) b) \<and>
   \<not> cidr_contains (CidrV6 net6 n) (V4 a)"
  by (auto simp: Let_def ipv4_mask_eq_iff ipv6_mask_eq_iff split: option.split)

text \<open>C27: Wrapping an IPv4 address in IPv6 does not hide it. For every restricted IPv4 address its
  IPv4-mapped, NAT64 and 6to4 forms, and its IPv4-compatible form unless that is the unspecified
  or the loopback address, which are private themselves, are private; and the same forms of a
  metadata address are metadata addresses.\<close>

theorem embedded_ipv4_is_classified:
  assumes "is_restricted_ipv4 a" and "is_metadata_ipv4 m"
  shows "is_private (V6 (ipv6_new [0, 0, 0, 0, 0, 0xffff, v4_high a, v4_low a])) \<and>
    is_private (V6 (ipv6_new [0x64, 0xff9b, 0, 0, 0, 0, v4_high a, v4_low a])) \<and>
    is_private (V6 (ipv6_new [0x2002, v4_high a, v4_low a, s3, s4, s5, s6, s7])) \<and>
    is_private (V6 (ipv6_new [0, 0, 0, 0, 0, 0, v4_high a, v4_low a])) \<and>
    is_metadata_service_ip (V6 (ipv6_new [0, 0, 0, 0, 0, 0xffff, v4_high m, v4_low m])) \<and>
    is_metadata_service_ip (V6 (ipv6_new [0x64, 0xff9b, 0, 0, 0, 0, v4_high m, v4_low m])) \<and>
    is_metadata_service_ip (V6 (ipv6_new [0x2002, v4_high m, v4_low m, s3, s4, s5, s6, s7])) \<and>
    is_metadata_service_ip (V6 (ipv6_new [0, 0, 0, 0, 0, 0, v4_high m, v4_low m]))"
proof -
  have "is_private (V6 (ipv6_new [0, 0, 0, 0, 0, 0, v4_high a, v4_low a]))"
  proof (cases "v4_high a = 0 \<and> v4_low a \<le> 1")
    case True
    then have "v4_low a = 0 \<or> v4_low a = 1" by (auto simp: word_le_nat_alt le_Suc_eq word_unat_eq_iff)
    with True show ?thesis by (auto simp: ipv6_new_def)
  next
    case False
    then show ?thesis using assms(1) by (simp add: embedded_forms(4))
  qed
  moreover have "\<not> (v4_high m = 0 \<and> v4_low m \<le> 1)"
    using assms(2) unfolding is_metadata_ipv4_def by (elim disjE) (hypsubst, code_simp)+
  ultimately show ?thesis using assms by (simp add: embedded_forms)
qed

theorem embedded_ipv4_is_classified_witness:
  "is_private (V6 (ipv6_new [0, 0, 0, 0, 0, 0xffff, 0x7f00, 1])) \<and>
   is_metadata_service_ip (V6 (ipv6_new [0x64, 0xff9b, 0, 0, 0, 0, 0xa9fe, 0xa9fe]))"
proof -
  have "is_restricted_ipv4 0x7f000001" "is_metadata_ipv4 0xa9fea9fe"
    "v4_high 0x7f000001 = 0x7f00" "v4_low 0x7f000001 = 1" "v4_high 0xa9fea9fe = 0xa9fe" "v4_low 0xa9fea9fe = 0xa9fe"
    by code_simp+
  with embedded_ipv4_is_classified [of "0x7f000001" "0xa9fea9fe"] show ?thesis by simp
qed

text \<open>A domain suffix matches whole labels. With the trailing dots and the case of letters put
  aside, a suffix matches the domains whose labels end with its labels, and with a leading dot
  only those with at least one label more; \<open>badexample.com\<close> never matches \<open>example.com\<close>.\<close>

lemma domain_suffix_matches_labels:
  "domain_matches_suffix d s \<longleftrightarrow>
     (let t = strip_leading_dot (normalize_domain s) in
      t \<noteq> [] \<and> (\<exists>ls. split_on dot (normalize_domain d) = ls @ split_on dot t \<and>
        (starts_with dot (normalize_domain s) \<longrightarrow> ls \<noteq> [])))"
  by (rule domain_matches_suffix_iff)

end
