(* ===== verification/Rate_Limit.thy ===== *)
theory Rate_Limit
  imports Policy
begin

text \<open>
  \<open>crates/uk-server/src/rate_limit.rs\<close>: bans after repeated authentication failures. Every
  operation holds the mutex from its first access to its last, so it is one atomic step; the
  clock reading is an argument. Where the code iterates over the hash map, the parameter \<open>iter\<close>
  gives the order, of which only that it lists the same entries is used. \<open>Instant::checked_add\<close>
  fails beyond the parameter \<open>max_instant\<close>.
\<close>

section \<open>The limiter\<close>

record auth_rate_limit_config =
  rl_max_failures :: u32
  rl_window_secs :: u64
  rl_ban_secs :: u64

definition default_auth_rate_limit_config :: auth_rate_limit_config where
  "default_auth_rate_limit_config = \<lparr>rl_max_failures = 5, rl_window_secs = 60, rl_ban_secs = 300\<rparr>"

definition PRUNE_INTERVAL :: duration where "PRUNE_INTERVAL = from_secs 10"
definition MAX_ENTRIES :: nat where "MAX_ENTRIES = 65536"
definition EVICTION_BATCH_SIZE :: nat where "EVICTION_BATCH_SIZE = 128"

datatype rate_limit_key = V4Key u32 | V6Prefix u64

fun key_from_ip :: "ip_addr \<Rightarrow> rate_limit_key" where
  "key_from_ip (V4 v4) = V4Key v4"
| "key_from_ip (V6 v6) =
     (case ipv4_mapped v6 of
        Some v4 \<Rightarrow> V4Key v4
      | None \<Rightarrow> V6Prefix (ucast (drop_bit 64 v6)))"

record ip_failure_record =
  if_failures :: u32
  if_window_start :: instant
  if_banned_until :: "instant option"

record rate_limit_state =
  rs_entries :: "(rate_limit_key, ip_failure_record) hash_map"
  rs_last_prune :: instant

record auth_rate_limiter =
  al_config :: auth_rate_limit_config
  al_allowlist :: "cidr list"
  al_records :: rate_limit_state

definition with_allowlist :: "instant \<Rightarrow> auth_rate_limit_config \<Rightarrow> cidr list \<Rightarrow> auth_rate_limiter" where
  "with_allowlist now config allowlist =
     \<lparr>al_config = config, al_allowlist = allowlist,
      al_records = \<lparr>rs_entries = [], rs_last_prune = now\<rparr>\<rparr>"

definition limiter_new :: "instant \<Rightarrow> auth_rate_limit_config \<Rightarrow> auth_rate_limiter" where
  "limiter_new now config = with_allowlist now config []"

definition is_allowlisted :: "auth_rate_limiter \<Rightarrow> ip_addr \<Rightarrow> bool" where
  "is_allowlisted l ip = list_ex (\<lambda>cidr. cidr_contains cidr ip) (al_allowlist l)"

definition reset_record :: "instant \<Rightarrow> ip_failure_record \<Rightarrow> ip_failure_record" where
  "reset_record now rec = rec\<lparr>if_banned_until := None, if_failures := 0, if_window_start := now\<rparr>"

definition set_entries ::
    "auth_rate_limiter \<Rightarrow> (rate_limit_key, ip_failure_record) hash_map \<Rightarrow> auth_rate_limiter" where
  "set_entries l es = l\<lparr>al_records := (al_records l)\<lparr>rs_entries := es\<rparr>\<rparr>"

abbreviation entries :: "auth_rate_limiter \<Rightarrow> (rate_limit_key, ip_failure_record) hash_map" where
  "entries l \<equiv> rs_entries (al_records l)"

definition limiter_check :: "instant \<Rightarrow> auth_rate_limiter \<Rightarrow> ip_addr \<Rightarrow> bool \<times> auth_rate_limiter" where
  "limiter_check now l ip =
     (if is_allowlisted l ip then (True, l)
      else if rl_max_failures (al_config l) = 0 then (True, l)
      else let key = key_from_ip ip
           in case hm_get (entries l) key of
                None \<Rightarrow> (True, l)
              | Some rec \<Rightarrow>
                  (case if_banned_until rec of
                     None \<Rightarrow> (True, l)
                   | Some banned_until \<Rightarrow>
                       if now < banned_until then (False, l)
                       else (True, set_entries l (hm_insert key (reset_record now rec) (entries l)))))"

definition retained :: "instant \<Rightarrow> duration \<Rightarrow> ip_failure_record \<Rightarrow> bool" where
  "retained now window rec =
     (case if_banned_until rec of
        Some banned_until \<Rightarrow> now < banned_until
      | None \<Rightarrow> if_window_start rec \<le> now \<and> now - if_window_start rec < window)"

definition prune_entries :: "instant \<Rightarrow> auth_rate_limiter \<Rightarrow> auth_rate_limiter" where
  "prune_entries now l =
     (if (1024 < hm_len (entries l) \<or> MAX_ENTRIES \<le> hm_len (entries l))
         \<and> PRUNE_INTERVAL \<le> now - rs_last_prune (al_records l)
      then let window = from_secs (unat (rl_window_secs (al_config l)))
           in l\<lparr>al_records :=
                \<lparr>rs_entries = filter (\<lambda>(_, rec). retained now window rec) (entries l),
                 rs_last_prune = now\<rparr>\<rparr>
      else l)"

fun collect_victims ::
    "rate_limit_key list \<Rightarrow> (rate_limit_key \<times> ip_failure_record) list \<Rightarrow> rate_limit_key list" where
  "collect_victims victims [] = victims"
| "collect_victims victims ((entry_key, rec) # es) =
     (if if_banned_until rec = None
      then let victims = victims @ [entry_key]
           in if EVICTION_BATCH_SIZE \<le> length victims then victims else collect_victims victims es
      else collect_victims victims es)"

definition evict_batch ::
    "((rate_limit_key \<times> ip_failure_record) list \<Rightarrow> (rate_limit_key \<times> ip_failure_record) list)
     \<Rightarrow> rate_limit_key \<Rightarrow> auth_rate_limiter \<Rightarrow> auth_rate_limiter" where
  "evict_batch iter key l =
     (if hm_get (entries l) key = None \<and> MAX_ENTRIES \<le> hm_len (entries l)
      then set_entries l (fold hm_remove (collect_victims [] (iter (entries l))) (entries l))
      else l)"

definition instant_checked_add :: "instant \<Rightarrow> instant \<Rightarrow> duration \<Rightarrow> instant option" where
  "instant_checked_add max_instant now d = (if now + d \<le> max_instant then Some (now + d) else None)"

definition u32_saturating_add :: "u32 \<Rightarrow> u32 \<Rightarrow> u32" where
  "u32_saturating_add a b = (if unat a + unat b < 2 ^ 32 then a + b else - 1)"

definition refresh_record :: "auth_rate_limit_config \<Rightarrow> instant \<Rightarrow> ip_failure_record \<Rightarrow> ip_failure_record" where
  "refresh_record config now rec =
     (case if_banned_until rec of
        Some banned_until \<Rightarrow> if banned_until \<le> now then reset_record now rec else rec
      | None \<Rightarrow>
          if if_window_start rec \<le> now
             \<and> from_secs (unat (rl_window_secs config)) \<le> now - if_window_start rec
          then rec\<lparr>if_failures := 0, if_window_start := now\<rparr>
          else rec)"

definition count_failure ::
    "instant \<Rightarrow> auth_rate_limit_config \<Rightarrow> instant \<Rightarrow> ip_failure_record \<Rightarrow> bool \<times> ip_failure_record" where
  "count_failure max_instant config now rec =
     (let rec = refresh_record config now rec;
          rec = rec\<lparr>if_failures := u32_saturating_add (if_failures rec) 1\<rparr>
      in if rl_max_failures config \<le> if_failures rec
         then (True, rec\<lparr>if_banned_until :=
                 instant_checked_add max_instant now (from_secs (unat (rl_ban_secs config)))\<rparr>)
         else (False, rec))"

definition record_failure ::
    "((rate_limit_key \<times> ip_failure_record) list \<Rightarrow> (rate_limit_key \<times> ip_failure_record) list)
     \<Rightarrow> instant \<Rightarrow> instant \<Rightarrow> auth_rate_limiter \<Rightarrow> ip_addr \<Rightarrow> bool \<times> auth_rate_limiter" where
  "record_failure iter max_instant now l ip =
     (if is_allowlisted l ip then (False, l)
      else if rl_max_failures (al_config l) = 0 then (False, l)
      else let key = key_from_ip ip;
               l = evict_batch iter key (prune_entries now l)
           in if hm_get (entries l) key = None \<and> MAX_ENTRIES \<le> hm_len (entries l) then (False, l)
              else let rec = (case hm_get (entries l) key of
                                Some rec \<Rightarrow> rec
                              | None \<Rightarrow> \<lparr>if_failures = 0, if_window_start = now, if_banned_until = None\<rparr>)
                   in case count_failure max_instant (al_config l) now rec of
                        (banned, rec) \<Rightarrow> (banned, set_entries l (hm_insert key rec (entries l))))"

definition record_success :: "auth_rate_limiter \<Rightarrow> ip_addr \<Rightarrow> auth_rate_limiter" where
  "record_success l ip = set_entries l (hm_remove (key_from_ip ip) (entries l))"

section \<open>The table of records\<close>

type_synonym hash_order =
  "(rate_limit_key \<times> ip_failure_record) list \<Rightarrow> (rate_limit_key \<times> ip_failure_record) list"

definition lists_entries :: "hash_order \<Rightarrow> bool" where
  "lists_entries iter \<longleftrightarrow> (\<forall>es. set (iter es) = set es)"

definition limiter_inv :: "auth_rate_limiter \<Rightarrow> bool" where
  "limiter_inv l \<longleftrightarrow> hm_wf (entries l) \<and> hm_len (entries l) \<le> MAX_ENTRIES"

lemma entries_set_entries [simp]:
  "entries (set_entries l es) = es" "al_config (set_entries l es) = al_config l"
  "al_allowlist (set_entries l es) = al_allowlist l"
  by (simp_all add: set_entries_def)

lemma is_allowlisted_cong: "al_allowlist l' = al_allowlist l \<Longrightarrow> is_allowlisted l' ip = is_allowlisted l ip"
  by (simp add: is_allowlisted_def)

lemma prune_frame [simp]:
  "al_config (prune_entries now l) = al_config l" "al_allowlist (prune_entries now l) = al_allowlist l"
  by (simp_all add: prune_entries_def Let_def)

lemma evict_frame [simp]:
  "al_config (evict_batch iter key l) = al_config l" "al_allowlist (evict_batch iter key l) = al_allowlist l"
  by (simp_all add: evict_batch_def)

lemma prune_get:
  assumes "hm_wf (entries l)"
  shows "hm_get (entries (prune_entries now l)) k = hm_get (entries l) k \<or>
    hm_get (entries (prune_entries now l)) k = None \<and>
      pred_option (\<lambda>rec. \<not> retained now (from_secs (unat (rl_window_secs (al_config l)))) rec)
        (hm_get (entries l) k)"
  using assms by (auto simp: prune_entries_def Let_def hm_get_filter split: option.splits)

lemma prune_inv: "limiter_inv l \<Longrightarrow> limiter_inv (prune_entries now l)"
  using hm_len_filter [of _ "entries l"] order_trans
  by (auto simp: limiter_inv_def prune_entries_def Let_def)

lemma prune_len: "hm_len (entries (prune_entries now l)) \<le> hm_len (entries l)"
  by (auto simp: prune_entries_def Let_def hm_len_filter)

lemma collect_victims_unbanned:
  "k \<in> set (collect_victims vs es) \<Longrightarrow>
     k \<in> set vs \<or> (\<exists>rec. (k, rec) \<in> set es \<and> if_banned_until rec = None)"
  by (induction vs es rule: collect_victims.induct) (auto simp: Let_def split: if_splits)

lemma evict_get:
  assumes "hm_wf (entries l)" "lists_entries iter"
  shows "hm_get (entries (evict_batch iter key l)) k = hm_get (entries l) k \<or>
    hm_get (entries (evict_batch iter key l)) k = None \<and> MAX_ENTRIES \<le> hm_len (entries l) \<and>
      pred_option (\<lambda>rec. if_banned_until rec = None) (hm_get (entries l) k)"
  using assms
  by (auto simp: evict_batch_def hm_remove_all lists_entries_def hm_mem_get
      dest!: collect_victims_unbanned)

lemma evict_inv: "limiter_inv l \<Longrightarrow> limiter_inv (evict_batch iter key l)"
  using hm_remove_all(3) [of "entries l"] order_trans
  by (auto simp: limiter_inv_def evict_batch_def hm_remove_all(2))

lemma evict_len: "hm_wf (entries l) \<Longrightarrow> hm_len (entries (evict_batch iter key l)) \<le> hm_len (entries l)"
  by (simp add: evict_batch_def hm_remove_all(3))

section \<open>Operations in sequence\<close>

datatype limiter_op = OpCheck ip_addr | OpFailure hash_order ip_addr | OpSuccess ip_addr

fun op_key :: "limiter_op \<Rightarrow> rate_limit_key" where
  "op_key (OpCheck ip) = key_from_ip ip"
| "op_key (OpFailure _ ip) = key_from_ip ip"
| "op_key (OpSuccess ip) = key_from_ip ip"

fun op_ok :: "limiter_op \<Rightarrow> bool" where
  "op_ok (OpCheck _) = True"
| "op_ok (OpFailure iter _) = lists_entries iter"
| "op_ok (OpSuccess _) = True"

fun limiter_step :: "instant \<Rightarrow> auth_rate_limiter \<Rightarrow> instant \<times> limiter_op \<Rightarrow> auth_rate_limiter" where
  "limiter_step max_instant l (now, OpCheck ip) = snd (limiter_check now l ip)"
| "limiter_step max_instant l (now, OpFailure iter ip) = snd (record_failure iter max_instant now l ip)"
| "limiter_step max_instant l (now, OpSuccess ip) = record_success l ip"

definition limiter_run :: "instant \<Rightarrow> auth_rate_limiter \<Rightarrow> (instant \<times> limiter_op) list \<Rightarrow> auth_rate_limiter" where
  "limiter_run max_instant = foldl (limiter_step max_instant)"

lemma limiter_run_simps [simp]:
  "limiter_run m l [] = l" "limiter_run m l (op # ops) = limiter_run m (limiter_step m l op) ops"
  by (simp_all add: limiter_run_def)

definition fresh_record :: "instant \<Rightarrow> ip_failure_record option \<Rightarrow> ip_failure_record" where
  "fresh_record now r =
     (case r of Some rec \<Rightarrow> rec
      | None \<Rightarrow> \<lparr>if_failures = 0, if_window_start = now, if_banned_until = None\<rparr>)"

text \<open>What \<open>record_failure\<close> does once the guards have passed: housekeeping, then one record.\<close>

definition tidied :: "hash_order \<Rightarrow> rate_limit_key \<Rightarrow> instant \<Rightarrow> auth_rate_limiter \<Rightarrow> auth_rate_limiter" where
  "tidied iter key now l = evict_batch iter key (prune_entries now l)"

lemma tidied_frame [simp]:
  "al_config (tidied iter key now l) = al_config l" "al_allowlist (tidied iter key now l) = al_allowlist l"
  by (simp_all add: tidied_def)

lemma tidied_inv: "limiter_inv l \<Longrightarrow> limiter_inv (tidied iter key now l)"
  by (simp add: tidied_def evict_inv prune_inv)

lemma tidied_len: "limiter_inv l \<Longrightarrow> hm_len (entries (tidied iter key now l)) \<le> hm_len (entries l)"
  using prune_inv [of l now] evict_len [of "prune_entries now l" iter key] prune_len [of now l]
  by (simp add: tidied_def limiter_inv_def)

lemma tidied_get:
  assumes "limiter_inv l" "lists_entries iter"
  shows "hm_get (entries (tidied iter key now l)) k = hm_get (entries l) k \<or>
    hm_get (entries (tidied iter key now l)) k = None \<and>
    pred_option (\<lambda>rec. \<not> retained now (from_secs (unat (rl_window_secs (al_config l)))) rec \<or>
       MAX_ENTRIES \<le> hm_len (entries l) \<and> if_banned_until rec = None) (hm_get (entries l) k)"
  using evict_get [of "prune_entries now l" iter key k] prune_get [of l now k] prune_inv [of l now]
    prune_len [of now l] assms
  by (cases "hm_get (entries l) k") (auto simp: tidied_def limiter_inv_def)

lemma record_failure_cases:
  obtains
    (ignored) "is_allowlisted l ip \<or> rl_max_failures (al_config l) = 0"
      "record_failure iter max_instant now l ip = (False, l)"
  | (full) "\<not> is_allowlisted l ip" "rl_max_failures (al_config l) \<noteq> 0"
      "MAX_ENTRIES \<le> hm_len (entries (tidied iter (key_from_ip ip) now l))"
      "hm_get (entries (tidied iter (key_from_ip ip) now l)) (key_from_ip ip) = None"
      "record_failure iter max_instant now l ip = (False, tidied iter (key_from_ip ip) now l)"
  | (counted) banned rec where "\<not> is_allowlisted l ip" "rl_max_failures (al_config l) \<noteq> 0"
      "hm_get (entries (tidied iter (key_from_ip ip) now l)) (key_from_ip ip) \<noteq> None \<or>
       hm_len (entries (tidied iter (key_from_ip ip) now l)) < MAX_ENTRIES"
      "count_failure max_instant (al_config l) now
         (fresh_record now (hm_get (entries (tidied iter (key_from_ip ip) now l)) (key_from_ip ip))) = (banned, rec)"
      "record_failure iter max_instant now l ip =
         (banned, set_entries (tidied iter (key_from_ip ip) now l)
            (hm_insert (key_from_ip ip) rec (entries (tidied iter (key_from_ip ip) now l))))"
proof -
  let ?t = "tidied iter (key_from_ip ip) now l"
  obtain banned rec where c: "count_failure max_instant (al_config l) now
      (fresh_record now (hm_get (entries ?t) (key_from_ip ip))) = (banned, rec)"
    by fastforce
  have eq: "record_failure iter max_instant now l ip =
    (if is_allowlisted l ip \<or> rl_max_failures (al_config l) = 0 then (False, l)
     else if hm_get (entries ?t) (key_from_ip ip) = None \<and> MAX_ENTRIES \<le> hm_len (entries ?t) then (False, ?t)
     else (banned, set_entries ?t (hm_insert (key_from_ip ip) rec (entries ?t))))"
    using c by (auto simp: record_failure_def Let_def tidied_def fresh_record_def)
  consider "is_allowlisted l ip \<or> rl_max_failures (al_config l) = 0"
    | "\<not> (is_allowlisted l ip \<or> rl_max_failures (al_config l) = 0)"
      "hm_get (entries ?t) (key_from_ip ip) = None \<and> MAX_ENTRIES \<le> hm_len (entries ?t)"
    | "\<not> (is_allowlisted l ip \<or> rl_max_failures (al_config l) = 0)"
      "\<not> (hm_get (entries ?t) (key_from_ip ip) = None \<and> MAX_ENTRIES \<le> hm_len (entries ?t))"
    by blast
  then show thesis
  proof cases
    case 1
    with eq show thesis by (intro ignored) simp_all
  next
    case 2
    with eq show thesis by (intro full) simp_all
  next
    case 3
    with eq c show thesis by (intro counted [of banned rec]) (simp_all add: not_le)
  qed
qed

lemma hm_insert_inv:
  assumes "limiter_inv l" "hm_get (entries l) k \<noteq> None \<or> hm_len (entries l) < MAX_ENTRIES"
  shows "limiter_inv (set_entries l (hm_insert k rec (entries l)))"
  using assms hm.len_insert [of "entries l" k rec]
  by (auto simp: limiter_inv_def hm.wf_insert hm.keys_dom)

lemma limiter_step_inv: "limiter_inv l \<Longrightarrow> limiter_inv (limiter_step m l (now, op))"
proof (cases op)
  case (OpCheck ip)
  then show "limiter_inv l \<Longrightarrow> ?thesis"
    using hm_insert_inv [of l "key_from_ip ip"]
    by (auto simp: limiter_check_def Let_def split: option.splits)
next
  case (OpFailure iter ip)
  show "limiter_inv l \<Longrightarrow> ?thesis"
    by (rule record_failure_cases [of l ip iter m now])
      (auto simp: OpFailure tidied_inv intro!: hm_insert_inv)
next
  case (OpSuccess ip)
  then show "limiter_inv l \<Longrightarrow> ?thesis"
    using hm.len_remove_le [of "entries l" "key_from_ip ip"]
    by (auto simp: record_success_def limiter_inv_def hm.wf_remove intro: order_trans)
qed

lemma limiter_run_inv: "limiter_inv l \<Longrightarrow> limiter_inv (limiter_run m l ops)"
  by (induction ops arbitrary: l) (auto simp: limiter_step_inv)

lemma limiter_step_frame:
  "al_config (limiter_step m l (now, op)) = al_config l \<and>
   al_allowlist (limiter_step m l (now, op)) = al_allowlist l"
proof (cases op)
  case (OpFailure iter ip)
  show ?thesis
    by (rule record_failure_cases [of l ip iter m now]) (simp_all add: OpFailure)
qed (auto simp: limiter_check_def record_success_def Let_def split: option.splits)

lemma limiter_run_frame:
  "al_config (limiter_run m l ops) = al_config l" "al_allowlist (limiter_run m l ops) = al_allowlist l"
  by (induction ops arbitrary: l) (auto simp: limiter_step_frame)

section \<open>Bans\<close>

abbreviation ban_of :: "auth_rate_limiter \<Rightarrow> duration" where
  "ban_of l \<equiv> from_secs (unat (rl_ban_secs (al_config l)))"

abbreviation window_of :: "auth_rate_limiter \<Rightarrow> duration" where
  "window_of l \<equiv> from_secs (unat (rl_window_secs (al_config l)))"

definition banned_to :: "auth_rate_limiter \<Rightarrow> rate_limit_key \<Rightarrow> instant \<Rightarrow> bool" where
  "banned_to l k b \<longleftrightarrow>
     (\<exists>rec u. hm_get (entries l) k = Some rec \<and> if_banned_until rec = Some u \<and> b \<le> u)"

lemma banned_to_set_entries:
  "banned_to (set_entries l es) k b \<longleftrightarrow>
     (\<exists>rec u. hm_get es k = Some rec \<and> if_banned_until rec = Some u \<and> b \<le> u)"
  by (simp add: banned_to_def)

lemma banned_to_tidied:
  assumes "limiter_inv l" "lists_entries iter" "banned_to l k b" "now < b"
  shows "banned_to (tidied iter key now l) k b"
  using assms(3,4) tidied_get [OF assms(1,2), of key now k]
  by (auto simp: banned_to_def retained_def)

lemma count_failure_banned:
  assumes "if_banned_until rec = Some u" "now < u" "b \<le> u" "b \<le> now + from_secs (unat (rl_ban_secs config))"
    "now + from_secs (unat (rl_ban_secs config)) \<le> max_instant"
    "count_failure max_instant config now rec = (banned, rec')"
  shows "\<exists>u. if_banned_until rec' = Some u \<and> b \<le> u"
  using assms by (auto simp: count_failure_def refresh_record_def instant_checked_add_def Let_def split: if_splits)

lemma limiter_step_ban:
  assumes inv: "limiter_inv l" and ok: "op_ok op" and ban: "banned_to l k b" "now < b"
    and bound: "b \<le> now + ban_of l" "now + ban_of l \<le> m"
    and other: "\<And>ip. op = OpSuccess ip \<Longrightarrow> key_from_ip ip \<noteq> k"
  shows "banned_to (limiter_step m l (now, op)) k b"
proof (cases op)
  case (OpCheck ip)
  with ban show ?thesis
    by (auto simp: limiter_check_def Let_def banned_to_def hm.get_insert split: option.splits)
next
  case (OpSuccess ip)
  with ban other show ?thesis
    by (auto simp: record_success_def banned_to_def hm.get_remove)
next
  case (OpFailure iter ip)
  with inv ok ban have t: "banned_to (tidied iter (key_from_ip ip) now l) k b"
    by (simp add: banned_to_tidied)
  show ?thesis
  proof (rule record_failure_cases [of l ip iter m now])
    fix banned rec
    assume c: "count_failure m (al_config l) now (fresh_record now
        (hm_get (entries (tidied iter (key_from_ip ip) now l)) (key_from_ip ip))) = (banned, rec)"
      and eq: "record_failure iter m now l ip = (banned, set_entries (tidied iter (key_from_ip ip) now l)
            (hm_insert (key_from_ip ip) rec (entries (tidied iter (key_from_ip ip) now l))))"
    show ?thesis
      using t eq c count_failure_banned [OF _ _ _ bound, where banned = banned and rec' = rec] ban(2)
      by (cases "k = key_from_ip ip")
        (auto simp: OpFailure banned_to_def hm.get_insert fresh_record_def)
  qed (use ban t in \<open>simp_all add: OpFailure\<close>)
qed

lemma record_failure_bans:
  assumes "record_failure iter m now l ip = (True, l')" "now + ban_of l \<le> m"
  shows "banned_to l' (key_from_ip ip) (now + ban_of l) \<and> rl_max_failures (al_config l) \<noteq> 0 \<and>
    \<not> is_allowlisted l ip"
  by (rule record_failure_cases [of l ip iter m now])
    (use assms in \<open>auto simp: banned_to_def hm.get_insert count_failure_def instant_checked_add_def Let_def
      split: if_splits\<close>)

lemma banned_to_check:
  assumes "banned_to l (key_from_ip ip) b" "now < b" "\<not> is_allowlisted l ip" "rl_max_failures (al_config l) \<noteq> 0"
  shows "limiter_check now l ip = (False, l)"
  using assms by (auto simp: limiter_check_def banned_to_def)

lemma limiter_run_ban:
  assumes "limiter_inv l" "banned_to l k b"
    "list_all (\<lambda>(now, op). op_ok op \<and> now < b \<and> b \<le> now + ban_of l \<and> now + ban_of l \<le> m \<and>
       (\<forall>ip. op = OpSuccess ip \<longrightarrow> key_from_ip ip \<noteq> k)) ops"
  shows "banned_to (limiter_run m l ops) k b"
  using assms
proof (induction ops arbitrary: l)
  case (Cons nop ops)
  obtain now op where [simp]: "nop = (now, op)" by (cases nop)
  have "banned_to (limiter_step m l (now, op)) k b"
    using Cons.prems by (intro limiter_step_ban) auto
  with Cons show ?case
    by (simp add: limiter_step_inv limiter_step_frame)
qed simp

text \<open>C28: Once a failure has banned a client, every later check of that client is refused until the
  ban time has passed, whatever checks, failures of any client, prunings, evictions from a full
  table and successes of other clients happen in between, and in whatever order the hash map is
  walked. Addresses with the same key, such as an IPv4-mapped IPv6 address or the same \<open>/64\<close>,
  count as the same client.\<close>

theorem ban_is_enforced:
  assumes "limiter_inv l"
    and "record_failure iter max_instant t0 l ip = (True, l0)"
    and "t0 + ban_of l \<le> max_instant"
    and "list_all (\<lambda>(now, op). op_ok op \<and> t0 \<le> now \<and> now < t0 + ban_of l \<and> now + ban_of l \<le> max_instant \<and>
           (\<forall>other. op = OpSuccess other \<longrightarrow> key_from_ip other \<noteq> key_from_ip ip)) ops"
    and "key_from_ip ip' = key_from_ip ip" "\<not> is_allowlisted l ip'" "t < t0 + ban_of l"
  shows "\<not> fst (limiter_check t (limiter_run max_instant l0 ops) ip')"
proof -
  have l0: "limiter_step max_instant l (t0, OpFailure iter ip) = l0"
    using assms(2) by simp
  note frame = limiter_step_frame [of max_instant l t0 "OpFailure iter ip", unfolded l0]
  note inv = limiter_step_inv [OF assms(1), of max_instant t0 "OpFailure iter ip", unfolded l0]
  note bans = record_failure_bans [OF assms(2,3)]
  have "banned_to (limiter_run max_instant l0 ops) (key_from_ip ip) (t0 + ban_of l)"
    using bans inv assms(4) by (intro limiter_run_ban) (auto simp: frame list_all_iff)
  moreover have "\<not> is_allowlisted (limiter_run max_instant l0 ops) ip'"
    using assms(6) frame is_allowlisted_cong [of "limiter_run max_instant l0 ops" l ip']
    by (simp add: limiter_run_frame)
  ultimately show ?thesis
    using banned_to_check [of "limiter_run max_instant l0 ops" ip' "t0 + ban_of l" t] assms(5,7) bans frame
    by (simp add: limiter_run_frame)
qed

definition strict_limiter :: "u32 \<Rightarrow> auth_rate_limiter" where
  "strict_limiter n = limiter_new 0 \<lparr>rl_max_failures = n, rl_window_secs = 60, rl_ban_secs = 300\<rparr>"

lemma strict_limiter_simps:
  "limiter_inv (strict_limiter n)" "entries (strict_limiter n) = []" "\<not> is_allowlisted (strict_limiter n) ip"
  "al_config (strict_limiter n) = \<lparr>rl_max_failures = n, rl_window_secs = 60, rl_ban_secs = 300\<rparr>"
  by (simp_all add: strict_limiter_def limiter_new_def with_allowlist_def limiter_inv_def is_allowlisted_def)

lemma lists_entries_refl: "lists_entries (\<lambda>es. es)"
  by (simp add: lists_entries_def)

theorem ban_is_enforced_witness:
  "\<not> fst (limiter_check 9 (limiter_run (10 ^ 15)
      (snd (record_failure (\<lambda>es. es) (10 ^ 15) 0 (strict_limiter 1) (V4 1)))
      [(5, OpFailure (\<lambda>es. es) (V4 1)), (7, OpSuccess (V4 2))]) (V6 0xFFFF00000001))"
proof -
  have key: "key_from_ip (V6 0xFFFF00000001) = key_from_ip (V4 1)"
    by code_simp
  have "record_failure (\<lambda>es. es) (10 ^ 15) 0 (strict_limiter 1) (V4 1) =
    (True, snd (record_failure (\<lambda>es. es) (10 ^ 15) 0 (strict_limiter 1) (V4 1)))"
    by (simp add: record_failure_def strict_limiter_simps Let_def evict_batch_def prune_entries_def MAX_ENTRIES_def
        count_failure_def refresh_record_def u32_saturating_add_def from_secs_def)
  from ban_is_enforced [OF strict_limiter_simps(1) this _ _ key strict_limiter_simps(3),
      of "[(5, OpFailure (\<lambda>es. es) (V4 1)), (7, OpSuccess (V4 2))]" 9]
  show ?thesis
    by (simp add: strict_limiter_simps from_secs_def lists_entries_refl)
qed

section \<open>Counting\<close>

fun counts_for :: "auth_rate_limiter \<Rightarrow> rate_limit_key \<Rightarrow> limiter_op \<Rightarrow> bool" where
  "counts_for l k (OpFailure _ ip) \<longleftrightarrow> key_from_ip ip = k \<and> \<not> is_allowlisted l ip"
| "counts_for l k _ \<longleftrightarrow> False"

definition counted_failures :: "auth_rate_limiter \<Rightarrow> rate_limit_key \<Rightarrow> (instant \<times> limiter_op) list \<Rightarrow> nat" where
  "counted_failures l k ops = length (filter (\<lambda>(_, op). counts_for l k op) ops)"

definition counting :: "auth_rate_limiter \<Rightarrow> rate_limit_key \<Rightarrow> instant \<Rightarrow> instant \<Rightarrow> nat \<Rightarrow> bool" where
  "counting l k t0 now c \<longleftrightarrow>
     (case hm_get (entries l) k of
        None \<Rightarrow> c = 0
      | Some rec \<Rightarrow> unat (if_failures rec) = c \<and> if_banned_until rec = None \<and>
          t0 \<le> if_window_start rec \<and> if_window_start rec \<le> now)"

lemma counting_mono: "counting l k t0 now c \<Longrightarrow> now \<le> now' \<Longrightarrow> counting l k t0 now' c"
  by (auto simp: counting_def split: option.splits)

lemma counting_tidied:
  assumes "limiter_inv l" "lists_entries iter" "hm_len (entries l) < MAX_ENTRIES"
    "counting l k t0 now c" "now < t0 + window_of l"
  shows "counting (tidied iter key now l) k t0 now c"
  using tidied_get [OF assms(1,2), of key now k] assms(3-5)
  by (auto simp: counting_def retained_def split: option.splits)

lemma unat_u32_saturating_add_1: "unat (u32_saturating_add a 1) = min (unat a + 1) (2 ^ 32 - 1)"
proof -
  have "unat a < 2 ^ 32"
    using unsigned_less [of a] by simp
  then show ?thesis
    by (auto simp: u32_saturating_add_def unat_word_ariths unsigned_minus_1_eq_mask mask_eq_exp_minus_1)
qed

lemma count_failure_counting:
  assumes "counting l k t0 now c" "now < t0 + window_of l" "t0 \<le> now" "c < unat (rl_max_failures (al_config l))"
    and cf: "count_failure m (al_config l) now (fresh_record now (hm_get (entries l) k)) = (banned, rec)"
  shows "unat (if_failures rec) = c + 1" "banned \<longleftrightarrow> c + 1 = unat (rl_max_failures (al_config l))"
    "\<not> banned \<Longrightarrow> if_banned_until rec = None" "t0 \<le> if_window_start rec" "if_window_start rec \<le> now"
proof -
  define r where "r = fresh_record now (hm_get (entries l) k)"
  have r: "unat (if_failures r) = c" "if_banned_until r = None" "t0 \<le> if_window_start r" "if_window_start r \<le> now"
    using assms(1,3) by (auto simp: r_def counting_def fresh_record_def split: option.splits)
  then have "refresh_record (al_config l) now r = r"
    using assms(2) by (auto simp: refresh_record_def)
  moreover have "unat (rl_max_failures (al_config l)) < 2 ^ 32"
    using unsigned_less [of "rl_max_failures (al_config l)"] by simp
  then have "unat (u32_saturating_add (if_failures r) 1) = c + 1"
    using r(1) assms(4) by (simp add: unat_u32_saturating_add_1)
  ultimately show "unat (if_failures rec) = c + 1" "banned \<longleftrightarrow> c + 1 = unat (rl_max_failures (al_config l))"
    "\<not> banned \<Longrightarrow> if_banned_until rec = None" "t0 \<le> if_window_start rec" "if_window_start rec \<le> now"
    using cf r assms(4)
    by (auto simp: count_failure_def r_def [symmetric] Let_def word_le_nat_alt split: if_splits)
qed

lemma limiter_step_counting:
  assumes inv: "limiter_inv l" and ok: "op_ok op" and room: "hm_len (entries l) < MAX_ENTRIES"
    and c: "counting l k t0 now c" and t: "t0 \<le> now" "now < t0 + window_of l"
    and other: "\<And>ip. op = OpSuccess ip \<Longrightarrow> key_from_ip ip \<noteq> k"
    and lim: "c + (if counts_for l k op then 1 else 0) < unat (rl_max_failures (al_config l))"
  shows "counting (limiter_step m l (now, op)) k t0 now (c + (if counts_for l k op then 1 else 0))"
proof (cases op)
  case (OpCheck ip)
  with c show ?thesis
    by (auto simp: limiter_check_def Let_def counting_def hm.get_insert split: option.splits)
next
  case (OpSuccess ip)
  with c other show ?thesis
    by (auto simp: record_success_def counting_def hm.get_remove)
next
  case (OpFailure iter ip)
  let ?t = "tidied iter (key_from_ip ip) now l"
  from inv ok room c t OpFailure have ct: "counting ?t k t0 now c"
    by (simp add: counting_tidied)
  have nz: "rl_max_failures (al_config l) \<noteq> 0" using lim by (intro notI) simp
  show ?thesis
  proof (rule record_failure_cases [of l ip iter m now])
    fix banned rec
    assume nal: "\<not> is_allowlisted l ip" and cf: "count_failure m (al_config l) now
        (fresh_record now (hm_get (entries ?t) (key_from_ip ip))) = (banned, rec)"
      and eq: "record_failure iter m now l ip = (banned, set_entries ?t (hm_insert (key_from_ip ip) rec (entries ?t)))"
    show ?thesis
    proof (cases "key_from_ip ip = k")
      case True
      note cnt = count_failure_counting [of ?t k t0 now c m banned rec]
      have "unat (if_failures rec) = c + 1" "\<not> banned" "if_banned_until rec = None"
        "t0 \<le> if_window_start rec" "if_window_start rec \<le> now"
        using cnt ct t lim True nal cf by (auto simp: OpFailure)
      with True nal show ?thesis by (simp add: OpFailure eq counting_def hm.get_insert)
    next
      case False
      with ct show ?thesis by (simp add: OpFailure eq counting_def hm.get_insert)
    qed
  qed (use c nz room tidied_len [OF inv, of iter "key_from_ip ip" now] in \<open>auto simp: OpFailure\<close>)
qed

lemma limiter_step_len: "limiter_inv l \<Longrightarrow> hm_len (entries (limiter_step m l (now, op))) \<le> hm_len (entries l) + 1"
proof (cases op)
  case (OpFailure iter ip)
  let ?t = "tidied iter (key_from_ip ip) now l"
  assume inv: "limiter_inv l"
  have "hm_len (hm_insert (key_from_ip ip) rec (entries ?t)) \<le> hm_len (entries l) + 1" for rec
    using hm.len_insert_le [of "entries ?t" "key_from_ip ip" rec] tidied_len [OF inv, of iter "key_from_ip ip" now]
      tidied_inv [OF inv, of iter "key_from_ip ip" now]
    by (simp add: limiter_inv_def)
  note le = this tidied_len [OF inv, of iter "key_from_ip ip" now, THEN le_SucI]
  show ?thesis
    by (rule record_failure_cases [of l ip iter m now]) (use le in \<open>simp_all add: OpFailure\<close>)
next
  case (OpCheck ip)
  assume "limiter_inv l"
  then show ?thesis
    using hm.len_insert_le [of "entries l" "key_from_ip ip"]
    by (auto simp: OpCheck limiter_check_def Let_def limiter_inv_def split: option.splits)
next
  case (OpSuccess ip)
  assume "limiter_inv l"
  then show ?thesis
    using hm.len_remove_le [of "entries l" "key_from_ip ip"]
    by (simp add: OpSuccess record_success_def limiter_inv_def)
qed

lemma limiter_run_len: "limiter_inv l \<Longrightarrow> hm_len (entries (limiter_run m l ops)) \<le> hm_len (entries l) + length ops"
proof (induction ops arbitrary: l)
  case (Cons op ops)
  from limiter_step_inv [OF Cons.prems, of m "fst op" "snd op"]
  have "hm_len (entries (limiter_run m (limiter_step m l op) ops)) \<le> hm_len (entries (limiter_step m l op)) + length ops"
    by (intro Cons.IH) simp
  with limiter_step_len [OF Cons.prems, of m "fst op" "snd op"] show ?case by simp
qed simp

lemma counts_for_cong: "al_allowlist l' = al_allowlist l \<Longrightarrow> counts_for l' k op = counts_for l k op"
  by (cases op) (simp_all add: is_allowlisted_def)

lemma limiter_run_counting:
  assumes "limiter_inv l" "hm_len (entries l) + length ops < MAX_ENTRIES" "counting l k t0 now c"
    "list_all (\<lambda>(_, op). op_ok op \<and> (\<forall>ip. op = OpSuccess ip \<longrightarrow> key_from_ip ip \<noteq> k)) ops"
    "t0 \<le> now" "sorted (now # map fst ops)" "list_all (\<lambda>(t, _). t < t0 + window_of l) ops"
    "c + counted_failures l k ops < unat (rl_max_failures (al_config l))"
  shows "\<exists>t \<le> last (now # map fst ops).
    counting (limiter_run m l ops) k t0 t (c + counted_failures l k ops)"
  using assms
proof (induction ops arbitrary: l now c)
  case (Cons nop ops)
  obtain t op where [simp]: "nop = (t, op)" by (cases nop)
  define d where "d = (if counts_for l k op then 1 else 0 :: nat)"
  let ?l = "limiter_step m l (t, op)"
  have eq: "counted_failures l k ((t, op) # ops) = d + counted_failures ?l k ops"
    using counts_for_cong [of ?l l k] limiter_step_frame [of m l t op]
    by (simp add: counted_failures_def d_def)
  have "counting l k t0 t c"
    using Cons.prems(3,6) by (auto intro: counting_mono)
  then have "counting ?l k t0 t (c + d)"
    unfolding d_def using Cons.prems eq
    by (intro limiter_step_counting) (auto simp: d_def split: if_splits)
  moreover have "hm_len (entries ?l) + length ops < MAX_ENTRIES"
    using limiter_step_len [OF Cons.prems(1), of m t op] Cons.prems(2) by simp
  ultimately have "\<exists>t' \<le> last (t # map fst ops).
      counting (limiter_run m ?l ops) k t0 t' ((c + d) + counted_failures ?l k ops)"
    using Cons.prems limiter_step_frame [of m l t op] eq
    by (intro Cons.IH) (auto simp: limiter_step_inv)
  then show ?case by (simp add: eq add.assoc)
qed (auto simp: counted_failures_def)

text \<open>C29: While the table has room, a client is banned at exactly the configured number of failures:
  if the failures counted for its key since a moment \<open>t0\<close> less than a window ago are fewer than the
  limit, the client is still admitted, and the next failure bans it precisely when it makes the
  count reach the limit. Checks and other clients' operations in between, and the prunings they
  cause, neither add to the count nor lose it.\<close>

theorem failures_ban_at_the_limit:
  assumes "limiter_inv l" "hm_get (entries l) (key_from_ip ip) = None" "\<not> is_allowlisted l ip"
    and "hm_len (entries l) + length ops < MAX_ENTRIES" "lists_entries iter"
    and "list_all (\<lambda>(_, op). op_ok op \<and> (\<forall>other. op = OpSuccess other \<longrightarrow> key_from_ip other \<noteq> key_from_ip ip)) ops"
    and "sorted (t0 # map fst ops @ [t])" "t < t0 + window_of l"
    and "counted_failures l (key_from_ip ip) ops < unat (rl_max_failures (al_config l))"
  shows "fst (limiter_check t (limiter_run max_instant l ops) ip) \<and>
    (fst (record_failure iter max_instant t (limiter_run max_instant l ops) ip) \<longleftrightarrow>
       counted_failures l (key_from_ip ip) ops + 1 = unat (rl_max_failures (al_config l)))"
proof -
  let ?k = "key_from_ip ip" and ?l = "limiter_run max_instant l ops"
  let ?c = "counted_failures l ?k ops"
  have "list_all (\<lambda>(s, _). s < t0 + window_of l) ops"
    using assms(7,8) by (fastforce simp: list_all_iff sorted_append)
  moreover have "counting l ?k t0 t0 0" using assms(2) by (simp add: counting_def)
  ultimately obtain s where "s \<le> last (t0 # map fst ops)" "counting ?l ?k t0 s ?c"
    using limiter_run_counting [of l ops ?k t0 t0 0 max_instant] assms by (auto simp: sorted_append)
  moreover have "last (t0 # map fst ops) \<le> t"
    using assms(7) by (auto simp: sorted_append last_map)
  ultimately have c: "counting ?l ?k t0 t ?c"
    using counting_mono order_trans by blast
  have frame: "al_config ?l = al_config l" "is_allowlisted ?l ip = is_allowlisted l ip"
    by (simp_all add: limiter_run_frame is_allowlisted_def)
  have room: "hm_len (entries ?l) < MAX_ENTRIES" using limiter_run_len [OF assms(1), of max_instant ops] assms(4) by simp
  have inv: "limiter_inv ?l" by (simp add: limiter_run_inv assms(1))
  have ct: "counting (tidied iter ?k t ?l) ?k t0 t ?c"
    using counting_tidied [OF inv assms(5) room c] assms(8) by (simp add: frame)
  have "fst (limiter_check t ?l ip)"
    using c by (auto simp: limiter_check_def counting_def Let_def split: option.splits)
  moreover have "fst (record_failure iter max_instant t ?l ip) \<longleftrightarrow> ?c + 1 = unat (rl_max_failures (al_config l))"
  proof (rule record_failure_cases [of ?l ip iter max_instant t])
    fix banned rec
    assume "count_failure max_instant (al_config ?l) t
        (fresh_record t (hm_get (entries (tidied iter ?k t ?l)) ?k)) = (banned, rec)"
      and "record_failure iter max_instant t ?l ip = (banned, set_entries (tidied iter ?k t ?l)
            (hm_insert ?k rec (entries (tidied iter ?k t ?l))))"
    then show ?thesis
      using count_failure_counting(2) [OF ct, of max_instant banned rec] assms(7-9) by (simp add: frame)
  qed (use assms(3,9) room tidied_len [OF inv, of iter ?k t] in \<open>auto simp: frame\<close>)
  ultimately show ?thesis by blast
qed

theorem failures_ban_at_the_limit_witness:
  "fst (limiter_check 9 (limiter_run (10 ^ 15) (strict_limiter 2)
      [(5, OpFailure (\<lambda>es. es) (V4 1)), (7, OpFailure (\<lambda>es. es) (V4 2))]) (V4 1)) \<and>
   fst (record_failure (\<lambda>es. es) (10 ^ 15) 9 (limiter_run (10 ^ 15) (strict_limiter 2)
      [(5, OpFailure (\<lambda>es. es) (V4 1)), (7, OpFailure (\<lambda>es. es) (V4 2))]) (V4 1))"
  using failures_ban_at_the_limit [OF strict_limiter_simps(1) _ strict_limiter_simps(3),
      of 2 "V4 1" "[(5, OpFailure (\<lambda>es. es) (V4 1)), (7, OpFailure (\<lambda>es. es) (V4 2))]" "\<lambda>es. es" 5 9 "10 ^ 15"]
  by (simp add: strict_limiter_simps from_secs_def lists_entries_refl MAX_ENTRIES_def counted_failures_def)

text \<open>The table of records never holds more than \<open>MAX_ENTRIES\<close> keys and no key twice, whatever
  operations a server performs from its start.\<close>

lemma limiter_table_is_bounded:
  "hm_len (entries (limiter_run max_instant (with_allowlist now config allowlist) ops)) \<le> MAX_ENTRIES \<and>
   hm_wf (entries (limiter_run max_instant (with_allowlist now config allowlist) ops))"
  using limiter_run_inv [of "with_allowlist now config allowlist" max_instant ops]
  by (simp add: limiter_inv_def with_allowlist_def)

end
