(* ===== verification/Mask_Replay.thy ===== *)
theory Mask_Replay
  imports UK_Prelude Hash_Map
begin

text \<open>
  \<open>crates/uk-mask/src/replay.rs\<close>: the registry of prelude identities. Each identity has the highest
  committed counter and a bitmap of 1024 bits over the counters at and below it. Counters are
  \<open>u64\<close> values; the distance of a counter from the highest is the number the bitmap is indexed by.
\<close>

section \<open>Entries\<close>

definition REPLAY_WINDOW :: nat where "REPLAY_WINDOW = 1024"

definition WINDOW_WORDS :: nat where "WINDOW_WORDS = REPLAY_WINDOW div 64"

datatype replayed = ZeroCounter | Duplicate | BelowWindow

datatype replay_decision = Accepted | Rejected replayed

record replay_entry =
  re_highest :: u64
  re_seen :: "u64 list"

definition bit_is_set :: "u64 list \<Rightarrow> nat \<Rightarrow> bool" where
  "bit_is_set seen distance \<longleftrightarrow> (seen ! (distance div 64)) AND push_bit (distance mod 64) 1 \<noteq> 0"

definition set_bit_at :: "u64 list \<Rightarrow> nat \<Rightarrow> u64 list" where
  "set_bit_at seen distance =
     seen[distance div 64 := (seen ! (distance div 64)) OR push_bit (distance mod 64) 1]"

definition entry_fresh :: "u64 \<Rightarrow> replay_entry" where
  "entry_fresh counter = \<lparr>re_highest = counter, re_seen = (replicate WINDOW_WORDS 0)[0 := 1]\<rparr>"

definition entry_set_bit :: "nat \<Rightarrow> replay_entry \<Rightarrow> replay_entry" where
  "entry_set_bit distance e = e\<lparr>re_seen := set_bit_at (re_seen e) distance\<rparr>"

definition advance :: "nat \<Rightarrow> replay_entry \<Rightarrow> replay_entry" where
  "advance adv e =
     (if REPLAY_WINDOW \<le> adv then e\<lparr>re_seen := replicate WINDOW_WORDS 0\<rparr>
      else e\<lparr>re_seen :=
        foldl (\<lambda>shifted target.
                 let source = target + adv
                 in if source < REPLAY_WINDOW \<and> bit_is_set (re_seen e) source
                    then set_bit_at shifted target else shifted)
          (replicate WINDOW_WORDS 0) [0..<REPLAY_WINDOW]\<rparr>)"

definition admits :: "replay_entry \<Rightarrow> u64 \<Rightarrow> replay_decision" where
  "admits e counter =
     (if counter = 0 then Rejected ZeroCounter
      else if re_highest e < counter then Accepted
      else let distance = unat (re_highest e - counter)
           in if distance = 0 \<or> (distance < REPLAY_WINDOW \<and> bit_is_set (re_seen e) distance)
              then Rejected Duplicate
              else if distance < REPLAY_WINDOW then Accepted
              else Rejected BelowWindow)"

section \<open>The registry\<close>

record replay_registry =
  rg_order :: "u64 list"
  rg_entries :: "(u64, replay_entry) hash_map"
  rg_capacity :: nat

text \<open>\<open>ReplayRegistry::new\<close> panics on a zero capacity.\<close>

definition registry_new :: "nat \<Rightarrow> replay_registry option" where
  "registry_new capacity =
     (if 0 < capacity then Some \<lparr>rg_order = [], rg_entries = [], rg_capacity = capacity\<rparr> else None)"

definition precheck :: "replay_registry \<Rightarrow> u64 \<Rightarrow> u64 \<Rightarrow> replay_decision" where
  "precheck r identity counter =
     (case hm_get (rg_entries r) identity of
        Some e \<Rightarrow> admits e counter
      | None \<Rightarrow> if counter = 0 then Rejected ZeroCounter else Accepted)"

definition update_entry :: "u64 \<Rightarrow> replay_entry \<Rightarrow> replay_entry" where
  "update_entry counter e =
     (if re_highest e < counter
      then entry_set_bit 0 ((advance (unat (counter - re_highest e)) e)\<lparr>re_highest := counter\<rparr>)
      else entry_set_bit (unat (re_highest e - counter)) e)"

definition evict_front :: "replay_registry \<Rightarrow> replay_registry" where
  "evict_front r =
     (if hm_len (rg_entries r) = rg_capacity r
      then case rg_order r of
             [] \<Rightarrow> r
           | evicted # order \<Rightarrow> r\<lparr>rg_order := order, rg_entries := hm_remove evicted (rg_entries r)\<rparr>
      else r)"

definition commit :: "replay_registry \<Rightarrow> u64 \<Rightarrow> u64 \<Rightarrow> replay_decision \<times> replay_registry" where
  "commit r identity counter =
     (case precheck r identity counter of
        Rejected why \<Rightarrow> (Rejected why, r)
      | Accepted \<Rightarrow>
          (case hm_get (rg_entries r) identity of
             Some e \<Rightarrow> (Accepted, r\<lparr>rg_entries := hm_insert identity (update_entry counter e) (rg_entries r)\<rparr>)
           | None \<Rightarrow>
               let r = evict_front r
               in (Accepted, r\<lparr>rg_order := rg_order r @ [identity],
                              rg_entries := hm_insert identity (entry_fresh counter) (rg_entries r)\<rparr>)))"

section \<open>The bitmap\<close>

lemma bit_is_set_bit: "bit_is_set seen d \<longleftrightarrow> bit (seen ! (d div 64)) (d mod 64)"
proof -
  have "(seen ! (d div 64)) AND push_bit (d mod 64) 1 \<noteq> 0 \<longleftrightarrow> bit (seen ! (d div 64)) (d mod 64)"
    using and_exp_eq_0_iff_not_bit [of "seen ! (d div 64)" "d mod 64"] by (simp add: push_bit_eq_mult)
  then show ?thesis by (simp add: bit_is_set_def)
qed

lemma length_set_bit_at [simp]: "length (set_bit_at seen d) = length seen"
  by (simp add: set_bit_at_def)

lemma bit_set_bit_at:
  assumes "length seen = WINDOW_WORDS" "d < REPLAY_WINDOW" "d' < REPLAY_WINDOW"
  shows "bit_is_set (set_bit_at seen d) d' \<longleftrightarrow> d' = d \<or> bit_is_set seen d'"
proof -
  have "d div 64 < length seen" using assms by (simp add: WINDOW_WORDS_def REPLAY_WINDOW_def)
  moreover have "d' = d \<longleftrightarrow> d' div 64 = d div 64 \<and> d' mod 64 = d mod 64"
    by (metis div_mult_mod_eq)
  moreover have "d' mod 64 < 64" by simp
  ultimately show ?thesis
    by (auto simp: bit_is_set_bit set_bit_at_def nth_list_update bit_or_iff bit_exp_iff)
qed

lemma bit_is_set_zero [simp]: "d < REPLAY_WINDOW \<Longrightarrow> \<not> bit_is_set (replicate WINDOW_WORDS 0) d"
  by (simp add: bit_is_set_bit WINDOW_WORDS_def REPLAY_WINDOW_def)

definition entry_ok :: "replay_entry \<Rightarrow> bool" where
  "entry_ok e \<longleftrightarrow> length (re_seen e) = WINDOW_WORDS"

lemma entry_fresh_simps [simp]:
  "re_highest (entry_fresh c) = c" "entry_ok (entry_fresh c)"
  "d < REPLAY_WINDOW \<Longrightarrow> bit_is_set (re_seen (entry_fresh c)) d \<longleftrightarrow> d = 0"
proof -
  have "(replicate WINDOW_WORDS 0)[0 := 1] = set_bit_at (replicate WINDOW_WORDS 0) 0"
    by (simp add: set_bit_at_def WINDOW_WORDS_def REPLAY_WINDOW_def)
  then show "d < REPLAY_WINDOW \<Longrightarrow> bit_is_set (re_seen (entry_fresh c)) d \<longleftrightarrow> d = 0"
    using bit_set_bit_at [of "replicate WINDOW_WORDS 0" 0 d]
    by (auto simp: entry_fresh_def REPLAY_WINDOW_def)
qed (simp_all add: entry_fresh_def entry_ok_def)

lemma shift_fold:
  assumes "length acc = WINDOW_WORDS" "n \<le> REPLAY_WINDOW" "d < REPLAY_WINDOW"
  shows "let s = foldl (\<lambda>shifted target. if P target then set_bit_at shifted target else shifted) acc [0..<n]
    in length s = WINDOW_WORDS \<and> (bit_is_set s d \<longleftrightarrow> bit_is_set acc d \<or> d < n \<and> P d)"
  using assms(2)
proof (induction n)
  case (Suc n)
  then show ?case using assms(1,3) bit_set_bit_at [of _ n d]
    by (auto simp: Let_def less_Suc_eq)
qed (use assms in simp)

lemma advance_simps:
  assumes "entry_ok e"
  shows "entry_ok (advance adv e)" "re_highest (advance adv e) = re_highest e"
    "d < REPLAY_WINDOW \<Longrightarrow> bit_is_set (re_seen (advance adv e)) d \<longleftrightarrow>
       d + adv < REPLAY_WINDOW \<and> bit_is_set (re_seen e) (d + adv)"
proof -
  show "entry_ok (advance adv e)"
    using shift_fold [of "replicate WINDOW_WORDS 0" REPLAY_WINDOW 0
        "\<lambda>target. target + adv < REPLAY_WINDOW \<and> bit_is_set (re_seen e) (target + adv)"]
    by (auto simp: advance_def entry_ok_def Let_def REPLAY_WINDOW_def)
  show "re_highest (advance adv e) = re_highest e" by (simp add: advance_def)
  show "bit_is_set (re_seen (advance adv e)) d \<longleftrightarrow> d + adv < REPLAY_WINDOW \<and> bit_is_set (re_seen e) (d + adv)"
    if "d < REPLAY_WINDOW"
    using that shift_fold [of "replicate WINDOW_WORDS 0" REPLAY_WINDOW d
        "\<lambda>target. target + adv < REPLAY_WINDOW \<and> bit_is_set (re_seen e) (target + adv)"]
    by (auto simp: advance_def Let_def)
qed

lemma update_entry_simps:
  assumes "entry_ok e"
  shows "entry_ok (update_entry c e)" "re_highest (update_entry c e) = max (re_highest e) c"
    "re_highest e < c \<Longrightarrow> d < REPLAY_WINDOW \<Longrightarrow> bit_is_set (re_seen (update_entry c e)) d \<longleftrightarrow>
       d = 0 \<or> d + unat (c - re_highest e) < REPLAY_WINDOW \<and> bit_is_set (re_seen e) (d + unat (c - re_highest e))"
    "c \<le> re_highest e \<Longrightarrow> unat (re_highest e - c) < REPLAY_WINDOW \<Longrightarrow> d < REPLAY_WINDOW \<Longrightarrow>
       bit_is_set (re_seen (update_entry c e)) d \<longleftrightarrow> d = unat (re_highest e - c) \<or> bit_is_set (re_seen e) d"
  using assms advance_simps [OF assms, where adv = "unat (c - re_highest e)"]
  by (auto simp: update_entry_def entry_set_bit_def entry_ok_def bit_set_bit_at REPLAY_WINDOW_def)

section \<open>Registry runs\<close>

definition registry_inv :: "replay_registry \<Rightarrow> bool" where
  "registry_inv r \<longleftrightarrow> 0 < rg_capacity r \<and> hm_wf (rg_entries r) \<and> distinct (rg_order r) \<and>
     set (rg_order r) = hm_keys (rg_entries r) \<and> length (rg_order r) \<le> rg_capacity r \<and>
     (\<forall>i e. hm_get (rg_entries r) i = Some e \<longrightarrow> entry_ok e \<and> re_highest e \<noteq> 0)"

lemma registry_inv_len: "registry_inv r \<Longrightarrow> hm_len (rg_entries r) = length (rg_order r)"
  by (metis distinct_card hm.len_keys registry_inv_def)

definition fifo_register :: "nat \<Rightarrow> u64 list \<Rightarrow> u64 \<Rightarrow> u64 list" where
  "fifo_register capacity order identity =
     (if identity \<in> set order then order
      else (if length order = capacity then tl order else order) @ [identity])"

lemma commit_rejected: "commit r i c = (Rejected why, r') \<Longrightarrow> r' = r"
  by (auto simp: commit_def Let_def split: replay_decision.splits option.splits)

lemma commit_Accepted_cases:
  assumes "registry_inv r" "commit r i c = (Accepted, r')"
  obtains (known) e where "hm_get (rg_entries r) i = Some e" "admits e c = Accepted"
      "r' = r\<lparr>rg_entries := hm_insert i (update_entry c e) (rg_entries r)\<rparr>"
  | (new) "i \<notin> set (rg_order r)" "c \<noteq> 0" "rg_capacity r' = rg_capacity r"
      "rg_order r' = fifo_register (rg_capacity r) (rg_order r) i"
      "hm_wf (rg_entries r')"
      "hm_get (rg_entries r') = (if length (rg_order r) = rg_capacity r
         then (hm_get (rg_entries r))(hd (rg_order r) := None) else hm_get (rg_entries r))(i \<mapsto> entry_fresh c)"
proof (cases "hm_get (rg_entries r) i")
  case (Some e)
  with assms(2) have "admits e c = Accepted"
    "r' = r\<lparr>rg_entries := hm_insert i (update_entry c e) (rg_entries r)\<rparr>"
    by (auto simp: commit_def precheck_def split: replay_decision.splits)
  with Some show thesis by (rule known)
next
  case None
  have i: "i \<notin> set (rg_order r)"
    using None assms(1) by (auto simp: registry_inv_def hm.keys_dom)
  have r': "c \<noteq> 0" "r' = (evict_front r)\<lparr>rg_order := rg_order (evict_front r) @ [i],
      rg_entries := hm_insert i (entry_fresh c) (rg_entries (evict_front r))\<rparr>"
    using assms(2) None by (auto simp: commit_def precheck_def Let_def split: if_splits)
  have inv: "hm_wf (rg_entries r)" "0 < rg_capacity r" using assms(1) by (auto simp: registry_inv_def)
  show thesis
  proof (cases "length (rg_order r) = rg_capacity r")
    case True
    with inv(2) obtain x xs where "rg_order r = x # xs" by (cases "rg_order r") auto
    with True i r' inv registry_inv_len [OF assms(1)] show thesis
      by (intro new) (auto simp: evict_front_def fifo_register_def hm.get_insert hm.get_remove
          hm.wf_insert hm.wf_remove)
  next
    case False
    with i r' inv registry_inv_len [OF assms(1)] show thesis
      by (intro new) (auto simp: evict_front_def fifo_register_def hm.get_insert hm.wf_insert)
  qed
qed

lemma commit_inv:
  assumes "registry_inv r"
  shows "registry_inv (snd (commit r i c))"
    "rg_order (snd (commit r i c)) =
       (if fst (commit r i c) = Accepted then fifo_register (rg_capacity r) (rg_order r) i else rg_order r)"
    "rg_capacity (snd (commit r i c)) = rg_capacity r"
proof -
  obtain d r' where eq: "commit r i c = (d, r')" by fastforce
  have "registry_inv r' \<and> rg_capacity r' = rg_capacity r \<and>
    rg_order r' = (if d = Accepted then fifo_register (rg_capacity r) (rg_order r) i else rg_order r)"
  proof (cases d)
    case (Rejected why)
    with eq assms show ?thesis by (auto dest: commit_rejected)
  next
    case Accepted
    note inv = assms [unfolded registry_inv_def]
    from assms eq [unfolded Accepted] show ?thesis
    proof (cases rule: commit_Accepted_cases)
      case (known e)
      then have i: "i \<in> set (rg_order r)" using inv by (auto simp: hm.keys_dom)
      have "entry_ok (update_entry c e) \<and> re_highest (update_entry c e) \<noteq> 0"
        using inv known(1) update_entry_simps(1,2) [of e c]
        by (metis max.cobounded1 word_le_0_iff)
      with known i inv Accepted show ?thesis
        by (auto simp: registry_inv_def hm.wf_insert hm.keys_insert hm.get_insert fifo_register_def)
    next
      case new
      have "set (rg_order r') = hm_keys (rg_entries r')"
      proof (cases "length (rg_order r) = rg_capacity r")
        case True
        with inv obtain x xs where x: "rg_order r = x # xs" by (cases "rg_order r") auto
        have "dom (hm_get (rg_entries r)) = insert x (set xs)" "x \<notin> set xs"
          using inv x by (auto simp: hm.keys_dom [symmetric])
        then show ?thesis using True new x by (auto simp: fifo_register_def hm.keys_dom)
      next
        case False
        with new inv show ?thesis by (auto simp: fifo_register_def hm.keys_dom)
      qed
      moreover have "distinct (rg_order r')" "length (rg_order r') \<le> rg_capacity r"
        using new inv by (cases "rg_order r"; auto simp: fifo_register_def)+
      moreover have "entry_ok e \<and> re_highest e \<noteq> 0" if "hm_get (rg_entries r') j = Some e" for j e
        using that new inv by (auto split: if_splits)
      ultimately show ?thesis using new inv Accepted by (simp add: registry_inv_def)
    qed
  qed
  then show "registry_inv (snd (commit r i c))"
    "rg_order (snd (commit r i c)) =
       (if fst (commit r i c) = Accepted then fifo_register (rg_capacity r) (rg_order r) i else rg_order r)"
    "rg_capacity (snd (commit r i c)) = rg_capacity r"
    using eq by simp_all
qed

fun registry_run :: "replay_registry \<Rightarrow> (u64 \<times> u64) list \<Rightarrow> replay_registry" where
  "registry_run r [] = r"
| "registry_run r ((i, c) # ics) = registry_run (snd (commit r i c)) ics"

lemma registry_run_inv: "registry_inv r \<Longrightarrow> registry_inv (registry_run r ics)"
  by (induction r ics rule: registry_run.induct) (auto simp: commit_inv)

lemma registry_run_capacity: "registry_inv r \<Longrightarrow> rg_capacity (registry_run r ics) = rg_capacity r"
  by (induction r ics rule: registry_run.induct) (auto simp: commit_inv)

lemma registry_new_inv: "registry_new n = Some r \<Longrightarrow> registry_inv r \<and> rg_capacity r = n"
  by (auto simp: registry_new_def registry_inv_def split: if_splits)

text \<open>The registry never tracks more identities than its capacity, whatever preludes arrive.
  Identities leave in the order in which they were first accepted: an accepted counter of an unknown
  identity appends it, dropping the oldest one when the registry is full, and nothing else changes
  the order.\<close>

lemma registry_is_a_bounded_fifo:
  assumes "registry_new n = Some r0" "r = registry_run r0 ics"
  shows "hm_len (rg_entries r) \<le> n \<and> hm_keys (rg_entries r) = set (rg_order r) \<and> distinct (rg_order r) \<and>
    rg_order (snd (commit r i c)) =
      (if fst (commit r i c) \<noteq> Accepted \<or> i \<in> set (rg_order r) then rg_order r
       else (if length (rg_order r) = n then tl (rg_order r) else rg_order r) @ [i])"
proof -
  have inv: "registry_inv r" and cap: "rg_capacity r = n"
    using registry_new_inv [OF assms(1)] by (simp_all add: assms(2) registry_run_inv registry_run_capacity)
  with registry_inv_len [OF inv] commit_inv(2) [OF inv, of i c] show ?thesis
    by (auto simp: registry_inv_def fifo_register_def)
qed

section \<open>What the window rejects\<close>

lemma admits_duplicate:
  assumes "c \<le> re_highest e" "c \<noteq> 0" "unat (re_highest e - c) < REPLAY_WINDOW"
    "bit_is_set (re_seen e) (unat (re_highest e - c)) \<or> c = re_highest e"
  shows "admits e c = Rejected Duplicate"
  using assms by (auto simp: admits_def Let_def)

definition remembers :: "replay_registry \<Rightarrow> u64 \<Rightarrow> u64 \<Rightarrow> u64 \<Rightarrow> bool" where
  "remembers r i h c \<longleftrightarrow> (\<exists>e. hm_get (rg_entries r) i = Some e \<and> re_highest e = h \<and> c \<le> h \<and> c \<noteq> 0 \<and>
     unat (h - c) < REPLAY_WINDOW \<and> bit_is_set (re_seen e) (unat (h - c)))"

lemma remembers_rejects: "remembers r i h c \<Longrightarrow> commit r i c = (Rejected Duplicate, r)"
  by (auto simp: remembers_def commit_def precheck_def admits_duplicate)

lemma commit_remembers:
  assumes inv: "registry_inv r" and acc: "commit r i c = (Accepted, r')"
  obtains h where "remembers r' i h c" "pred_option (\<lambda>e. re_highest e \<le> h) (hm_get (rg_entries r) i)"
  using assms
proof (cases rule: commit_Accepted_cases)
  case (known e)
  have ok: "entry_ok e" using inv known(1) by (auto simp: registry_inv_def)
  have c: "c \<noteq> 0" "re_highest e < c \<or> unat (re_highest e - c) < REPLAY_WINDOW"
    using known(2) by (auto simp: admits_def Let_def not_less split: if_splits)
  have "bit_is_set (re_seen (update_entry c e)) (unat (max (re_highest e) c - c))"
    using c(2) update_entry_simps(3) [OF ok, of c 0] update_entry_simps(4) [OF ok, of c "unat (re_highest e - c)"]
    by (cases "re_highest e < c") (auto simp: max_def REPLAY_WINDOW_def)
  with known c ok show thesis
    by (intro that [of "max (re_highest e) c"])
      (auto simp: remembers_def hm.get_insert update_entry_simps(2) max_def REPLAY_WINDOW_def split: if_splits)
next
  case new
  then have "hm_get (rg_entries r) i = None"
    using inv by (auto simp: registry_inv_def hm.keys_dom)
  with new show thesis
    by (intro that [of c]) (auto simp: remembers_def REPLAY_WINDOW_def)
qed

lemma remembers_kept:
  assumes inv: "registry_inv r" and rem: "remembers r i h c" and j: "j \<in> set (rg_order r)"
    and below: "j = i \<Longrightarrow> c' \<le> h"
  shows "remembers (snd (commit r j c')) i h c"
proof (cases "commit r j c'")
  case (Pair d r')
  show ?thesis
  proof (cases d)
    case (Rejected why)
    with Pair rem show ?thesis by (auto dest: commit_rejected)
  next
    case Accepted
    from inv Pair [unfolded Accepted] show ?thesis
    proof (cases rule: commit_Accepted_cases)
      case (known e)
      show ?thesis
      proof (cases "j = i")
        case True
        have e: "entry_ok e" "re_highest e = h" using inv known(1) rem True
          by (auto simp: registry_inv_def remembers_def)
        then have le: "c' \<le> re_highest e" "unat (re_highest e - c') < REPLAY_WINDOW"
          using below True known(2) by (auto simp: admits_def Let_def not_less split: if_splits)
        from rem known True e update_entry_simps(2) [OF e(1), of c'] update_entry_simps(4) [OF e(1) le] le
        show ?thesis using Pair by (auto simp: remembers_def hm.get_insert max_def)
      next
        case False
        with rem known Pair show ?thesis by (simp add: remembers_def hm.get_insert)
      qed
    qed (use j in simp)
  qed
qed

lemma remembers_run:
  assumes "registry_inv r" "remembers r i h c" "set (map fst ics) \<subseteq> set (rg_order r)"
    "list_all (\<lambda>(j, c'). j = i \<longrightarrow> c' \<le> h) ics"
  shows "remembers (registry_run r ics) i h c"
  using assms
proof (induction r ics rule: registry_run.induct)
  case (2 r j c' ics)
  have "rg_order (snd (commit r j c')) = rg_order r"
    using "2.prems" commit_inv(2) [of r j c'] by (auto simp: fifo_register_def)
  with 2 remembers_kept [of r i h c j c'] show ?case by (auto simp: commit_inv)
qed simp


definition two_registry :: replay_registry where
  "two_registry = \<lparr>rg_order = [], rg_entries = [], rg_capacity = 2\<rparr>"

lemma two_registry_inv: "registry_inv two_registry"
  by (simp add: two_registry_def registry_inv_def)


text \<open>C31: The window does not survive an advance. \<open>advance\<close> reads the bit at \<open>target + advance\<close> where
  the counters have moved to \<open>target - advance\<close>, so when an identity commits a counter \<open>h\<close> and then
  a higher one less than 1024 above it, \<open>h\<close> is admitted and committed a second time: a recorded
  prelude can be replayed once its client has opened another connection.\<close>

theorem window_forgets_committed_counters:
  assumes "registry_inv r" "i \<notin> set (rg_order r)" "0 < h" "h < c" "unat (c - h) < REPLAY_WINDOW"
    "r1 = snd (commit r i h)" "r2 = snd (commit r1 i c)"
  shows "fst (commit r i h) = Accepted \<and> fst (commit r1 i c) = Accepted \<and> fst (commit r2 i h) = Accepted"
proof -
  have none: "hm_get (rg_entries r) i = None"
    using assms(1,2) by (auto simp: registry_inv_def hm.keys_dom)
  have nz: "h \<noteq> 0" "c \<noteq> 0" using assms(3,4) by auto
  have 1: "hm_get (rg_entries r1) i = Some (entry_fresh h)" "fst (commit r i h) = Accepted"
    using none nz by (simp_all add: assms(6) commit_def precheck_def Let_def hm.get_insert)
  have 2: "hm_get (rg_entries r2) i = Some (update_entry c (entry_fresh h))" "fst (commit r1 i c) = Accepted"
    using 1 nz assms(4) by (simp_all add: assms(7) commit_def precheck_def admits_def hm.get_insert)
  have "0 < unat (c - h)" using assms(4) by (simp add: unat_gt_0)
  then have "\<not> bit_is_set (re_seen (update_entry c (entry_fresh h))) (unat (c - h))"
    using update_entry_simps(3) [of "entry_fresh h" c "unat (c - h)"] assms(4,5) by auto
  moreover have "re_highest (update_entry c (entry_fresh h)) = c"
    using update_entry_simps(2) [of "entry_fresh h" c] assms(4) by simp
  ultimately have "admits (update_entry c (entry_fresh h)) h = Accepted"
    using \<open>0 < unat (c - h)\<close> assms(4,5) nz by (simp add: admits_def Let_def)
  with 1 2 show ?thesis by (simp add: commit_def precheck_def)
qed

theorem window_forgets_committed_counters_witness:
  "fst (commit two_registry 7 5) = Accepted \<and>
   fst (commit (snd (commit two_registry 7 5)) 7 6) = Accepted \<and>
   fst (commit (snd (commit (snd (commit two_registry 7 5)) 7 6)) 7 5) = Accepted"
  using window_forgets_committed_counters [OF two_registry_inv, of 7 5 6]
  by (simp add: two_registry_def REPLAY_WINDOW_def)

end
