(* ===== verification/Mask_Prelude.thy ===== *)
theory Mask_Prelude
  imports UK_Prelude
begin

text \<open>
  \<open>crates/uk-mask/src/lib.rs\<close>: the key schedule, the 64-byte prelude of a masked TCP connection and
  the counters it carries. HMAC-SHA256 is the parameter \<open>hmac\<close> on a key and a message, and the random
  bytes and ranges a prelude draws are arguments. Fixed-size arrays are byte lists whose lengths the
  lemmas assume.
\<close>

section \<open>Keys\<close>

definition PRELUDE_LEN :: nat where "PRELUDE_LEN = 64"
definition NONCE_LEN :: nat where "NONCE_LEN = 12"
definition PREFIX_LEN :: nat where "PREFIX_LEN = 32"
definition TAIL_LEN :: nat where "TAIL_LEN = 32"
definition IDENTITY_LEN :: nat where "IDENTITY_LEN = 8"
definition COUNTER_LEN :: nat where "COUNTER_LEN = 6"
definition TAG_LEN :: nat where "TAG_LEN = 14"
definition TAIL_PAYLOAD_LEN :: nat where "TAIL_PAYLOAD_LEN = IDENTITY_LEN + COUNTER_LEN + TAG_LEN"
definition MAX_COUNTER :: u64 where "MAX_COUNTER = push_bit 48 1 - 1"

lemmas prelude_lens = PRELUDE_LEN_def NONCE_LEN_def PREFIX_LEN_def TAIL_LEN_def IDENTITY_LEN_def
  COUNTER_LEN_def TAG_LEN_def TAIL_PAYLOAD_LEN_def

datatype mask_error = PreludeRejected | InvalidCounter | CounterExhausted | StreamLimitExceeded

type_synonym hmac_fn = "byte list \<Rightarrow> byte list \<Rightarrow> bytes32"

record mask_keys =
  mk_auth_key :: bytes32
  mk_prelude_mask_key :: bytes32
  mk_tcp_c2s :: bytes32
  mk_tcp_s2c :: bytes32
  mk_udp_c2s :: bytes32
  mk_udp_s2c :: bytes32

definition label :: "string \<Rightarrow> byte list" where
  "label s = map (\<lambda>c. of_char c) s @ [1]"

definition derive :: "hmac_fn \<Rightarrow> byte list \<Rightarrow> byte list \<Rightarrow> mask_keys" where
  "derive hmac key_id secret =
     (let root = put_b32 (hmac secret (label ''uk/1/mask/root'' @ key_id))
      in \<lparr>mk_auth_key = hmac root (label ''uk/1/mask/tcp-auth''),
          mk_prelude_mask_key = hmac root (label ''uk/1/mask/tcp-prelude-mask''),
          mk_tcp_c2s = hmac root (label ''uk/1/mask/tcp-c2s''),
          mk_tcp_s2c = hmac root (label ''uk/1/mask/tcp-s2c''),
          mk_udp_c2s = hmac root (label ''uk/1/mask/udp-c2s''),
          mk_udp_s2c = hmac root (label ''uk/1/mask/udp-s2c'')\<rparr>)"

section \<open>Bits of the tail\<close>

definition counter_to_be_bytes :: "u64 \<Rightarrow> byte list" where
  "counter_to_be_bytes counter = drop 2 (put_u64 counter)"

definition counter_from_be_bytes :: "byte list \<Rightarrow> u64" where
  "counter_from_be_bytes bs = get_u64 ([0, 0] @ bs)"

definition pack_high_bits :: "byte list \<Rightarrow> byte list" where
  "pack_high_bits tail =
     foldl (\<lambda>packed (index, b).
              packed[index div 8 := (packed ! (index div 8)) OR drop_bit (7 - index mod 8) (b AND 0x80)])
       [0, 0, 0, 0] (zip [0..<TAIL_LEN] (take TAIL_LEN tail))"

definition write_bit :: "byte list \<Rightarrow> byte list \<Rightarrow> nat \<Rightarrow> byte list" where
  "write_bit payload tail bit_index =
     (let b = drop_bit (7 - bit_index mod 8) (payload ! (bit_index div 8)) AND 1;
          g = bit_index div 7;
          position = bit_index mod 7;
          bit_mask = push_bit (6 - position) 1
      in tail[g := ((tail ! g) AND NOT bit_mask) OR push_bit (6 - position) b])"

definition write_tail_payload :: "byte list \<Rightarrow> byte list \<Rightarrow> byte list" where
  "write_tail_payload tail payload = foldl (write_bit payload) tail [0..<TAIL_PAYLOAD_LEN * 8]"

definition read_bit :: "byte list \<Rightarrow> byte list \<Rightarrow> nat \<Rightarrow> byte list" where
  "read_bit tail payload bit_index =
     (let g = bit_index div 7;
          position = bit_index mod 7;
          b = drop_bit (6 - position) (tail ! g) AND 1
      in payload[bit_index div 8 :=
           (payload ! (bit_index div 8)) OR push_bit (7 - bit_index mod 8) b])"

definition read_tail_payload :: "byte list \<Rightarrow> byte list" where
  "read_tail_payload tail = foldl (read_bit tail) (replicate TAIL_PAYLOAD_LEN 0) [0..<TAIL_PAYLOAD_LEN * 8]"

section \<open>Preludes\<close>

datatype prelude_policy = Fade | Full8 | Low7

definition generate_prelude :: "prelude_policy \<Rightarrow> byte list \<Rightarrow> nat \<Rightarrow> nat \<Rightarrow> byte list" where
  "generate_prelude policy filler printable_end seven_bit_end =
     (case policy of
        Full8 \<Rightarrow> filler
      | Low7 \<Rightarrow> map (\<lambda>b. b AND 0x7f) filler
      | Fade \<Rightarrow> map (\<lambda>b. 0x20 + b mod 95) (take printable_end filler)
               @ map (\<lambda>b. b AND 0x7f) (drop printable_end (take seven_bit_end filler))
               @ drop seven_bit_end filler)"

record client_prelude =
  cp_bytes :: "byte list"
  cp_nonce :: "byte list"

record authenticated_prelude =
  ap_identity :: u64
  ap_counter :: u64

definition authentication_tag ::
    "hmac_fn \<Rightarrow> mask_keys \<Rightarrow> byte list \<Rightarrow> byte list \<Rightarrow> byte list \<Rightarrow> byte list \<Rightarrow> byte list \<Rightarrow> byte list" where
  "authentication_tag hmac keys nonce prefix high_bits identity counter =
     put_b32 (hmac (put_b32 (mk_auth_key keys)) (nonce @ prefix @ high_bits @ identity @ counter))"

definition prelude_mask :: "hmac_fn \<Rightarrow> mask_keys \<Rightarrow> byte list \<Rightarrow> byte list \<Rightarrow> byte list \<Rightarrow> byte list" where
  "prelude_mask hmac keys nonce prefix high_bits =
     put_b32 (hmac (put_b32 (mk_prelude_mask_key keys)) (nonce @ prefix @ high_bits))"

definition encode_prelude ::
    "hmac_fn \<Rightarrow> mask_keys \<Rightarrow> prelude_policy \<Rightarrow> byte list \<Rightarrow> nat \<Rightarrow> nat \<Rightarrow> byte list \<Rightarrow> u64 \<Rightarrow> u64
     \<Rightarrow> mask_error + client_prelude" where
  "encode_prelude hmac keys policy filler printable_end seven_bit_end nonce identity counter =
     (if counter = 0 \<or> MAX_COUNTER < counter then Inl InvalidCounter
      else let bytes = generate_prelude policy filler printable_end seven_bit_end;
               prefix = take PREFIX_LEN bytes;
               high_bits = pack_high_bits (drop PREFIX_LEN bytes);
               identity_bytes = put_u64 identity;
               counter_bytes = counter_to_be_bytes counter;
               tag = authentication_tag hmac keys nonce prefix high_bits identity_bytes counter_bytes;
               payload = identity_bytes @ counter_bytes @ take TAG_LEN tag;
               mask = prelude_mask hmac keys nonce prefix high_bits;
               payload = map2 (\<lambda>b m. b XOR m) payload mask
           in Inr \<lparr>cp_bytes = prefix @ write_tail_payload (drop PREFIX_LEN bytes) payload, cp_nonce = nonce\<rparr>)"

definition decode_prelude ::
    "hmac_fn \<Rightarrow> mask_keys \<Rightarrow> byte list \<Rightarrow> byte list \<Rightarrow> mask_error + authenticated_prelude" where
  "decode_prelude hmac keys prelude nonce =
     (let prefix = take PREFIX_LEN prelude;
          high_bits = pack_high_bits (drop PREFIX_LEN prelude);
          masked_payload = read_tail_payload (drop PREFIX_LEN prelude);
          mask = prelude_mask hmac keys nonce prefix high_bits;
          payload = map2 (\<lambda>b m. b XOR m) masked_payload mask;
          identity_bytes = take IDENTITY_LEN payload;
          counter_bytes = take COUNTER_LEN (drop IDENTITY_LEN payload);
          counter = counter_from_be_bytes counter_bytes
      in if counter = 0 then Inl PreludeRejected
         else let expected = authentication_tag hmac keys nonce prefix high_bits identity_bytes counter_bytes;
                  given = drop (IDENTITY_LEN + COUNTER_LEN) payload
              in if given = take TAG_LEN expected
                 then Inr \<lparr>ap_identity = get_u64 identity_bytes, ap_counter = counter\<rparr>
                 else Inl PreludeRejected)"

definition verify_prelude ::
    "hmac_fn \<Rightarrow> mask_keys list \<Rightarrow> byte list \<Rightarrow> byte list \<Rightarrow> (mask_keys \<times> authenticated_prelude) option" where
  "verify_prelude hmac keys prelude nonce =
     foldl (\<lambda>found key. case decode_prelude hmac key prelude nonce of
                          Inr authenticated \<Rightarrow> Some (key, authenticated)
                        | Inl _ \<Rightarrow> found) None keys"

section \<open>Counters\<close>

record client_sequence =
  cs_identity :: u64
  cs_next :: u64

definition client_sequence_new :: "u64 \<Rightarrow> client_sequence" where
  "client_sequence_new identity = \<lparr>cs_identity = identity, cs_next = 1\<rparr>"

definition allocate :: "client_sequence \<Rightarrow> (mask_error + u64) \<times> client_sequence" where
  "allocate s =
     (let counter = cs_next s; s = s\<lparr>cs_next := counter + 1\<rparr>
      in (if counter = 0 \<or> MAX_COUNTER < counter then Inl CounterExhausted else Inr counter, s))"

section \<open>Bit-level lemmas\<close>

lemma bit_low_bit: "bit (drop_bit m b AND 1 :: byte) k \<longleftrightarrow> k = 0 \<and> bit b m"
  by (auto simp: bit_and_iff bit_drop_bit_eq bit_1_iff)

lemma length_write_bit [simp]: "length (write_bit payload tail n) = length tail"
  by (simp add: write_bit_def Let_def)

lemma length_read_bit [simp]: "length (read_bit tail payload n) = length payload"
  by (simp add: read_bit_def Let_def)

lemma mult_add_eq_iff:
  fixes q :: nat
  assumes "q < m"
  shows "a * m + q = n \<longleftrightarrow> a = n div m \<and> q = n mod m"
proof
  assume "a * m + q = n"
  with assms show "a = n div m \<and> q = n mod m" by (auto simp: div_mult_self3)
next
  assume "a = n div m \<and> q = n mod m"
  then show "a * m + q = n" by simp
qed

lemma bit_write_bit:
  assumes "length tail = 32" "n < 224" "g < 32" "k < 8"
  shows "bit (write_bit payload tail n ! g) k \<longleftrightarrow>
    (if k < 7 \<and> g * 7 + (6 - k) = n then bit (payload ! (n div 8)) (7 - n mod 8) else bit (tail ! g) k)"
proof -
  define p where "p = n mod 7"
  have p: "p < 7" "n div 7 < 32" using assms by (auto simp: p_def)
  have idx: "k < 7 \<and> g * 7 + (6 - k) = n \<longleftrightarrow> g = n div 7 \<and> k = 6 - p"
    using p mult_add_eq_iff [of "6 - k" 7 g n] by (auto simp: p_def)
  show ?thesis
    unfolding idx using assms(1,4) p
    by (cases "g = n div 7"; cases "k = 6 - p")
      (auto simp: write_bit_def Let_def p_def [symmetric] bit_simps bit_low_bit)
qed

lemma bit_read_bit:
  assumes "length payload = 28" "n < 224" "j < 28" "k < 8"
  shows "bit (read_bit tail payload n ! j) k \<longleftrightarrow>
    bit (payload ! j) k \<or> j * 8 + (7 - k) = n \<and> bit (tail ! (n div 7)) (6 - n mod 7)"
proof -
  define p where "p = n mod 8"
  have p: "p < 8" "n div 8 < 28" using assms by (auto simp: p_def)
  have idx: "j * 8 + (7 - k) = n \<longleftrightarrow> j = n div 8 \<and> k = 7 - p"
    using p assms(4) mult_add_eq_iff [of "7 - k" 8 j n] by (auto simp: p_def)
  show ?thesis
    unfolding idx using assms(1) p
    by (cases "j = n div 8"; cases "k = 7 - p")
      (auto simp: read_bit_def Let_def p_def [symmetric] bit_simps bit_low_bit)
qed

lemma tail_bits: "TAIL_PAYLOAD_LEN * 8 = 224" "TAIL_PAYLOAD_LEN = 28"
  by (simp_all add: prelude_lens)

lemma bit_write_tail:
  assumes "length tail = 32" "g < 32" "k < 8"
  shows "bit (write_tail_payload tail payload ! g) k \<longleftrightarrow>
    (if k < 7 then bit (payload ! ((g * 7 + (6 - k)) div 8)) (7 - (g * 7 + (6 - k)) mod 8) else bit (tail ! g) k)"
proof -
  define t where "t n = foldl (write_bit payload) tail [0..<n]" for n
  have len: "length (t n) = 32" for n
    by (induction n) (simp_all add: t_def assms)
  have "n \<le> 224 \<Longrightarrow> bit (t n ! g) k \<longleftrightarrow>
      (if k < 7 \<and> g * 7 + (6 - k) < n
       then bit (payload ! ((g * 7 + (6 - k)) div 8)) (7 - (g * 7 + (6 - k)) mod 8) else bit (tail ! g) k)" for n
  proof (induction n)
    case (Suc n)
    have "t (Suc n) = write_bit payload (t n) n" by (simp add: t_def)
    with Suc bit_write_bit [OF len [of n] _ assms(2,3), of n payload] show ?case
      by (auto simp: less_Suc_eq)
  qed (simp add: t_def)
  moreover have "k < 7 \<Longrightarrow> g * 7 + (6 - k) < 224" using assms(2) by linarith
  ultimately have "bit (t 224 ! g) k \<longleftrightarrow>
      (if k < 7 then bit (payload ! ((g * 7 + (6 - k)) div 8)) (7 - (g * 7 + (6 - k)) mod 8) else bit (tail ! g) k)"
    by (cases "k < 7") simp_all
  then show ?thesis unfolding write_tail_payload_def tail_bits(1) t_def .
qed

lemma bit_read_tail:
  assumes "j < 28" "k < 8"
  shows "bit (read_tail_payload tail ! j) k \<longleftrightarrow> bit (tail ! ((j * 8 + (7 - k)) div 7)) (6 - (j * 8 + (7 - k)) mod 7)"
proof -
  define t where "t n = foldl (read_bit tail) (replicate 28 0) [0..<n]" for n
  have len: "length (t n) = 28" for n
    by (induction n) (simp_all add: t_def)
  have "n \<le> 224 \<Longrightarrow> bit (t n ! j) k \<longleftrightarrow>
      j * 8 + (7 - k) < n \<and> bit (tail ! ((j * 8 + (7 - k)) div 7)) (6 - (j * 8 + (7 - k)) mod 7)" for n
  proof (induction n)
    case (Suc n)
    have "t (Suc n) = read_bit tail (t n) n" by (simp add: t_def)
    with Suc bit_read_bit [OF len [of n] _ assms, of n tail] show ?case
      by (auto simp: less_Suc_eq)
  qed (use assms in \<open>simp add: t_def\<close>)
  moreover have "j * 8 + (7 - k) < 224" using assms(1) by linarith
  ultimately have "bit (t 224 ! j) k \<longleftrightarrow> bit (tail ! ((j * 8 + (7 - k)) div 7)) (6 - (j * 8 + (7 - k)) mod 7)"
    by simp
  then show ?thesis unfolding read_tail_payload_def tail_bits(1) unfolding tail_bits(2) t_def .
qed

lemma length_write_tail [simp]: "length (write_tail_payload tail payload) = length tail"
proof -
  have "length (foldl (write_bit payload) tail ns) = length tail" for ns
    by (induction ns rule: rev_induct) simp_all
  then show ?thesis by (simp add: write_tail_payload_def)
qed

lemma length_read_tail [simp]: "length (read_tail_payload tail) = 28"
proof -
  have "length (foldl (read_bit tail) (replicate TAIL_PAYLOAD_LEN 0) ns) = 28" for ns
    by (induction ns rule: rev_induct) (simp_all add: prelude_lens)
  then show ?thesis by (simp add: read_tail_payload_def)
qed

lemma byte_eqI: "(\<And>k. k < 8 \<Longrightarrow> bit a k \<longleftrightarrow> bit b k) \<Longrightarrow> a = (b :: byte)"
  by (rule bit_word_eqI) simp

lemma read_write_tail:
  assumes "length tail = 32" "length payload = 28"
  shows "read_tail_payload (write_tail_payload tail payload) = payload"
proof (rule nth_equalityI)
  fix j assume "j < length (read_tail_payload (write_tail_payload tail payload))"
  then have j: "j < 28" by simp
  show "read_tail_payload (write_tail_payload tail payload) ! j = payload ! j"
  proof (rule byte_eqI)
    fix k :: nat assume k: "k < 8"
    define n where "n = j * 8 + (7 - k)"
    have n: "n div 8 = j" "7 - n mod 8 = k" "n div 7 < 32" "6 - n mod 7 < 7"
      using j k mult_add_eq_iff [of "7 - k" 8 j n] by (auto simp: n_def)
    have "n div 7 * 7 + (6 - (6 - n mod 7)) = n"
      by (simp add: less_Suc_eq_le [symmetric])
    with n bit_write_tail [OF assms(1) n(3), of "6 - n mod 7" payload]
    have "bit (write_tail_payload tail payload ! (n div 7)) (6 - n mod 7) = bit (payload ! j) k"
      by simp
    then show "bit (read_tail_payload (write_tail_payload tail payload) ! j) k = bit (payload ! j) k"
      by (simp add: bit_read_tail [OF j k] n_def [symmetric])
  qed
qed (simp add: assms)

lemma write_read_tail:
  assumes "length tail = 32"
  shows "write_tail_payload tail (read_tail_payload tail) = tail"
proof (rule nth_equalityI)
  fix g assume "g < length (write_tail_payload tail (read_tail_payload tail))"
  then have g: "g < 32" using assms by simp
  show "write_tail_payload tail (read_tail_payload tail) ! g = tail ! g"
  proof (rule byte_eqI)
    fix k :: nat assume k: "k < 8"
    show "bit (write_tail_payload tail (read_tail_payload tail) ! g) k = bit (tail ! g) k"
    proof (cases "k < 7")
      case True
      define n where "n = g * 7 + (6 - k)"
      have n: "n div 8 < 28" "7 - n mod 8 < 8" "n div 7 = g" "6 - n mod 7 = k"
        using g True mult_add_eq_iff [of "6 - k" 7 g n] by (auto simp: n_def)
      have "n div 8 * 8 + (7 - (7 - n mod 8)) = n"
        by (simp add: less_Suc_eq_le [symmetric])
      with n bit_read_tail [OF n(1,2), of tail] True show ?thesis
        by (simp add: bit_write_tail [OF assms g k] n_def [symmetric])
    next
      case False
      with k show ?thesis by (simp add: bit_write_tail [OF assms g k])
    qed
  qed
qed simp

lemma pack_high_bits_mask: "pack_high_bits tail = pack_high_bits (map (\<lambda>b. b AND 0x80) tail)"
  by (simp add: pack_high_bits_def take_map zip_map2 foldl_map case_prod_unfold and.assoc)

lemma pack_write_tail:
  assumes "length tail = 32"
  shows "pack_high_bits (write_tail_payload tail payload) = pack_high_bits tail"
proof -
  have "map (\<lambda>b. b AND 0x80) (write_tail_payload tail payload) = map (\<lambda>b. b AND 0x80) tail"
  proof (rule nth_equalityI)
    fix g assume "g < length (map (\<lambda>b. b AND 0x80) (write_tail_payload tail payload))"
    then have g: "g < 32" using assms by simp
    have "bit (0x80 :: byte) k \<longleftrightarrow> k = 7" if "k < 8" for k
    proof -
      have "(0x80 :: byte) = 2 ^ 7" by simp
      with that show ?thesis by (simp only: bit_exp_iff) simp
    qed
    then have "(write_tail_payload tail payload ! g) AND 0x80 = (tail ! g) AND 0x80"
      by (intro byte_eqI) (auto simp: bit_and_iff bit_write_tail [OF assms g])
    with g assms show "map (\<lambda>b. b AND 0x80) (write_tail_payload tail payload) ! g = map (\<lambda>b. b AND 0x80) tail ! g"
      by simp
  qed simp
  then show ?thesis by (metis pack_high_bits_mask)
qed

lemma xor_mask_twice:
  "length xs \<le> length ms \<Longrightarrow> map2 (\<lambda>b m. b XOR m) (map2 (\<lambda>b m. b XOR m) xs ms) ms = (xs :: byte list)"
  by (induction xs ms rule: list_induct2') (simp_all add: xor.assoc)

lemma be_bytes_add: "be_bytes (m + n) v = be_bytes m (v div 256 ^ n) @ be_bytes n v"
proof (induction n arbitrary: v)
  case (Suc n)
  have "v div 256 div 256 ^ n = v div 256 ^ Suc n" by (simp add: div_mult2_eq)
  with Suc show ?case by simp
qed simp

lemma unat_MAX_COUNTER: "unat MAX_COUNTER = 2 ^ 48 - 1"
  by (simp add: MAX_COUNTER_def)

lemma length_counter_bytes [simp]: "length (counter_to_be_bytes c) = 6"
  by (simp add: counter_to_be_bytes_def)

lemma counter_from_to:
  assumes "c \<le> MAX_COUNTER"
  shows "counter_from_be_bytes (counter_to_be_bytes c) = c"
proof -
  have "unat c div 256 ^ 6 = 0"
    using assms unat_MAX_COUNTER by (simp add: word_le_nat_alt)
  then have "put_u64 c = [0, 0] @ be_bytes 6 (unat c)"
    using be_bytes_add [of 2 6 "unat c"] by (simp add: put_u64_def numeral_2_eq_2)
  then have "[0, 0] @ counter_to_be_bytes c = put_u64 c"
    by (simp add: counter_to_be_bytes_def)
  then show ?thesis by (simp add: counter_from_be_bytes_def)
qed

lemma counter_to_from:
  assumes "length cb = 6"
  shows "counter_to_be_bytes (counter_from_be_bytes cb) = cb" "counter_from_be_bytes cb \<le> MAX_COUNTER"
proof -
  show "counter_to_be_bytes (counter_from_be_bytes cb) = cb"
    using put_get_u64 [of "[0, 0] @ cb"] assms by (simp add: counter_to_be_bytes_def counter_from_be_bytes_def)
  have "be_nat ([0, 0] @ cb) = be_nat cb" by (simp add: be_nat_Cons)
  moreover have "be_nat cb < 256 ^ 6" using be_nat_less [of cb] assms by simp
  moreover have "unat (get_u64 ([0, 0] @ cb)) = be_nat ([0, 0] @ cb)"
    using unat_word_of_nat_be [of "[0, 0] @ cb", where 'a = 64] assms by (simp add: get_u64_def)
  ultimately show "counter_from_be_bytes cb \<le> MAX_COUNTER"
    using unat_MAX_COUNTER by (simp add: counter_from_be_bytes_def word_le_nat_alt)
qed

end
