(* ===== verification/Mask_Form.thy ===== *)
theory Mask_Form
  imports Mask_Prelude
begin

text \<open>
  What a verified masking prelude is: the decoder of \<open>Mask_Prelude\<close> accepts exactly the encodings, and
  the counters a client process allocates are never used twice.
\<close>

section \<open>Preludes have one form\<close>

lemma decode_prelude_iff:
  assumes "length prelude = 64"
  shows "decode_prelude hmac keys prelude nonce = Inr ap \<longleftrightarrow>
    encode_prelude hmac keys Full8 prelude m n nonce (ap_identity ap) (ap_counter ap) =
      Inr \<lparr>cp_bytes = prelude, cp_nonce = nonce\<rparr>"
proof -
  define P T H where "P = take 32 prelude" "T = drop 32 prelude" "H = pack_high_bits T"
  define M where "M = prelude_mask hmac keys nonce P H"
  define R where "R = read_tail_payload T"
  define pl where "pl = map2 (\<lambda>b m. b XOR m) R M"
  have T: "length T = 32" and P: "P @ T = prelude" using assms by (simp_all add: P_T_H_def)
  have M: "length M = 32" by (simp add: M_def prelude_mask_def)
  have R: "length R = 28" by (simp add: R_def)
  have pl: "length pl = 28" by (simp add: pl_def M R)
  define tag where "tag idb cb = take 14 (authentication_tag hmac keys nonce P H idb cb)" for idb cb
  have tag: "length (tag idb cb) = 14" for idb cb by (simp add: tag_def authentication_tag_def)
  have dec: "decode_prelude hmac keys prelude nonce = Inr ap \<longleftrightarrow>
    counter_from_be_bytes (take 6 (drop 8 pl)) \<noteq> 0 \<and> drop 14 pl = tag (take 8 pl) (take 6 (drop 8 pl)) \<and>
    ap = \<lparr>ap_identity = get_u64 (take 8 pl), ap_counter = counter_from_be_bytes (take 6 (drop 8 pl))\<rparr>"
    by (auto simp: decode_prelude_def Let_def prelude_lens P_T_H_def M_def R_def pl_def tag_def)
  define q where "q i c = put_u64 i @ counter_to_be_bytes c @ tag (put_u64 i) (counter_to_be_bytes c)" for i c
  have enc: "encode_prelude hmac keys Full8 prelude m n nonce i c = Inr \<lparr>cp_bytes = prelude, cp_nonce = nonce\<rparr> \<longleftrightarrow>
    c \<noteq> 0 \<and> c \<le> MAX_COUNTER \<and> write_tail_payload T (map2 (\<lambda>b m. b XOR m) (q i c) M) = T" for i c
  proof -
    have "P @ X = prelude \<longleftrightarrow> X = T" for X unfolding P [symmetric] by simp
    then show ?thesis
      unfolding encode_prelude_def generate_prelude_def Let_def prelude_lens prelude_policy.case
        P_T_H_def(1,2) [symmetric]
      unfolding P_T_H_def(3) [symmetric]
      unfolding M_def [symmetric] tag_def [symmetric]
      unfolding q_def [symmetric]
      by (simp add: linorder_not_less [symmetric])
  qed
  have q: "length (q i c) = 28" for i c by (simp add: q_def tag)
  have wr: "write_tail_payload T (map2 (\<lambda>b m. b XOR m) (q i c) M) = T \<longleftrightarrow> q i c = pl" for i c
  proof
    assume "write_tail_payload T (map2 (\<lambda>b m. b XOR m) (q i c) M) = T"
    then have "R = map2 (\<lambda>b m. b XOR m) (q i c) M"
      using read_write_tail [OF T, of "map2 (\<lambda>b m. b XOR m) (q i c) M"] by (simp add: R_def q M)
    then show "q i c = pl" using xor_mask_twice [of "q i c" M] by (simp add: pl_def q M)
  next
    assume "q i c = pl"
    then have "map2 (\<lambda>b m. b XOR m) (q i c) M = R"
      using xor_mask_twice [of R M] by (simp add: pl_def R M)
    then show "write_tail_payload T (map2 (\<lambda>b m. b XOR m) (q i c) M) = T"
      using write_read_tail [OF T] by (simp add: R_def)
  qed
  have split: "take 8 pl @ take 6 (drop 8 pl) @ drop 14 pl = pl"
  proof -
    have "drop 14 pl = drop 6 (drop 8 pl)" by simp
    then show ?thesis by (simp only: append_take_drop_id)
  qed
  show ?thesis
  proof
    assume "decode_prelude hmac keys prelude nonce = Inr ap"
    with dec have d: "ap_counter ap \<noteq> 0" "drop 14 pl = tag (take 8 pl) (take 6 (drop 8 pl))"
      "put_u64 (ap_identity ap) = take 8 pl" "counter_to_be_bytes (ap_counter ap) = take 6 (drop 8 pl)"
      "ap_counter ap \<le> MAX_COUNTER"
      using put_get_u64 [of "take 8 pl"] counter_to_from [of "take 6 (drop 8 pl)"] pl by auto
    then have "q (ap_identity ap) (ap_counter ap) = pl" using split by (simp add: q_def)
    with d(1,5) wr show "encode_prelude hmac keys Full8 prelude m n nonce (ap_identity ap) (ap_counter ap) =
      Inr \<lparr>cp_bytes = prelude, cp_nonce = nonce\<rparr>" unfolding enc by blast
  next
    assume "encode_prelude hmac keys Full8 prelude m n nonce (ap_identity ap) (ap_counter ap) =
      Inr \<lparr>cp_bytes = prelude, cp_nonce = nonce\<rparr>"
    then have e: "ap_counter ap \<noteq> 0" "ap_counter ap \<le> MAX_COUNTER" "pl = q (ap_identity ap) (ap_counter ap)"
      by (auto simp: enc wr)
    then have "take 8 pl = put_u64 (ap_identity ap)" "take 6 (drop 8 pl) = counter_to_be_bytes (ap_counter ap)"
      "drop 14 pl = tag (put_u64 (ap_identity ap)) (counter_to_be_bytes (ap_counter ap))"
      by (simp_all add: q_def)
    with e show "decode_prelude hmac keys prelude nonce = Inr ap"
      by (simp add: dec counter_from_to)
  qed
qed

lemma length_generate_prelude:
  "printable_end \<le> seven_bit_end \<Longrightarrow> seven_bit_end \<le> length filler \<Longrightarrow>
     length (generate_prelude policy filler printable_end seven_bit_end) = length filler"
  by (cases policy) (simp_all add: generate_prelude_def)

lemma encode_policy:
  "encode_prelude hmac keys policy filler pe se nonce identity counter =
   encode_prelude hmac keys Full8 (generate_prelude policy filler pe se) m n nonce identity counter"
  by (simp add: encode_prelude_def Let_def generate_prelude_def)

lemma encode_encoded:
  assumes "length bytes = 64"
    and "encode_prelude hmac keys Full8 bytes pe se nonce identity counter = Inr cp"
  shows "encode_prelude hmac keys Full8 (cp_bytes cp) pe se nonce identity counter = Inr cp"
    "length (cp_bytes cp) = 64" "cp_nonce cp = nonce"
proof -
  define P T where "P = take 32 bytes" "T = drop 32 bytes"
  have T: "length T = 32" "length P = 32" using assms(1) by (simp_all add: P_T_def)
  define X where "X = map2 (\<lambda>b m. b XOR m) (put_u64 identity @ counter_to_be_bytes counter @
      take 14 (authentication_tag hmac keys nonce P (pack_high_bits T) (put_u64 identity) (counter_to_be_bytes counter)))
      (prelude_mask hmac keys nonce P (pack_high_bits T))"
  have c: "counter \<noteq> 0" "\<not> MAX_COUNTER < counter"
    and cp: "cp = \<lparr>cp_bytes = P @ write_tail_payload T X, cp_nonce = nonce\<rparr>"
    using assms(2)
    by (simp_all add: encode_prelude_def generate_prelude_def Let_def prelude_lens P_T_def X_def split: if_splits)
  have X: "length X = 28" by (simp add: X_def authentication_tag_def prelude_mask_def)
  have again: "write_tail_payload (write_tail_payload T X) X = write_tail_payload T X"
    using write_read_tail [of "write_tail_payload T X"] read_write_tail [OF T(1) X] T(1) by simp
  show "encode_prelude hmac keys Full8 (cp_bytes cp) pe se nonce identity counter = Inr cp"
    unfolding encode_prelude_def generate_prelude_def Let_def prelude_lens prelude_policy.case cp
    using c T again by (simp add: pack_write_tail X_def [symmetric])
  show "length (cp_bytes cp) = 64" "cp_nonce cp = nonce" using T by (simp_all add: cp)
qed

text \<open>C32: A prelude of 64 bytes verifies, for given keys and nonce, if and only if it is what the
  encoder produces for the identity and counter it reports, over its own filler bytes and high bits:
  no byte of it can be changed without computing a tag. Every prelude a client encodes, whatever the
  shaping policy and the filler drawn, verifies and yields the identity and counter put into it.\<close>

theorem prelude_form:
  "(length prelude = 64 \<longrightarrow>
      (decode_prelude hmac keys prelude nonce = Inr ap \<longleftrightarrow>
       encode_prelude hmac keys Full8 prelude pe se nonce (ap_identity ap) (ap_counter ap) =
         Inr \<lparr>cp_bytes = prelude, cp_nonce = nonce\<rparr>)) \<and>
   (length filler = 64 \<longrightarrow> pe \<le> se \<longrightarrow> se \<le> 64 \<longrightarrow>
      encode_prelude hmac keys policy filler pe se nonce identity counter = Inr cp \<longrightarrow>
      decode_prelude hmac keys (cp_bytes cp) (cp_nonce cp) = Inr \<lparr>ap_identity = identity, ap_counter = counter\<rparr>)"
proof (intro conjI impI)
  show "decode_prelude hmac keys prelude nonce = Inr ap \<longleftrightarrow>
       encode_prelude hmac keys Full8 prelude pe se nonce (ap_identity ap) (ap_counter ap) =
         Inr \<lparr>cp_bytes = prelude, cp_nonce = nonce\<rparr>" if "length prelude = 64"
    using that by (rule decode_prelude_iff)
next
  assume a: "length filler = 64" "pe \<le> se" "se \<le> 64"
    and "encode_prelude hmac keys policy filler pe se nonce identity counter = Inr cp"
  then have "encode_prelude hmac keys Full8 (generate_prelude policy filler pe se) pe se nonce identity counter = Inr cp"
    by (simp add: encode_policy [of hmac keys policy filler pe se nonce identity counter pe se])
  note e = encode_encoded [OF _ this]
  have len: "length (generate_prelude policy filler pe se) = 64"
    using a by (simp add: length_generate_prelude)
  have "\<lparr>cp_bytes = cp_bytes cp, cp_nonce = nonce\<rparr> = cp" using e(3) [OF len] by simp
  with e(1,2,3) [OF len] decode_prelude_iff [of "cp_bytes cp" hmac keys nonce
      "\<lparr>ap_identity = identity, ap_counter = counter\<rparr>" pe se]
  show "decode_prelude hmac keys (cp_bytes cp) (cp_nonce cp) = Inr \<lparr>ap_identity = identity, ap_counter = counter\<rparr>"
    by simp
qed

definition sample_mask_hmac :: hmac_fn where
  "sample_mask_hmac key message = word_of_nat (length key + 3 * length message)"

theorem prelude_form_witness:
  "\<exists>cp. encode_prelude sample_mask_hmac (derive sample_mask_hmac [1] [2]) Fade (replicate 64 9) 8 16
        (replicate 12 5) 7 3 = Inr cp \<and>
      decode_prelude sample_mask_hmac (derive sample_mask_hmac [1] [2]) (cp_bytes cp) (cp_nonce cp) =
        Inr \<lparr>ap_identity = 7, ap_counter = 3\<rparr>"
proof -
  have "(3 :: u64) \<le> MAX_COUNTER" using unat_MAX_COUNTER by (simp add: word_le_nat_alt)
  then obtain cp where "encode_prelude sample_mask_hmac (derive sample_mask_hmac [1] [2]) Fade (replicate 64 9) 8 16
        (replicate 12 5) 7 3 = Inr cp"
    by (simp add: encode_prelude_def Let_def not_less [symmetric])
  with prelude_form [where filler = "replicate 64 9" and pe = 8 and se = 16 and policy = Fade
      and hmac = sample_mask_hmac and keys = "derive sample_mask_hmac [1] [2]" and nonce = "replicate 12 5"
      and identity = 7 and counter = 3 and cp = cp]
  show ?thesis by auto
qed

section \<open>Counters are used once\<close>

fun allocations :: "nat \<Rightarrow> client_sequence \<Rightarrow> (mask_error + u64) list" where
  "allocations 0 s = []"
| "allocations (Suc n) s = (case allocate s of (r, s) \<Rightarrow> r # allocations n s)"

lemma allocations_from:
  "n + unat (cs_next s) \<le> 2 ^ 64 \<Longrightarrow> cs_next s \<noteq> 0 \<Longrightarrow>
   allocations n s = map (\<lambda>k. if k < 2 ^ 48 then Inr (word_of_nat k) else Inl CounterExhausted)
     [unat (cs_next s)..<unat (cs_next s) + n]"
proof (induction n arbitrary: s)
  case (Suc n)
  have first: "fst (allocate s) =
      (if unat (cs_next s) < 2 ^ 48 then Inr (word_of_nat (unat (cs_next s))) else Inl CounterExhausted)"
    using Suc.prems(2) unat_MAX_COUNTER by (auto simp: allocate_def Let_def word_less_nat_alt)
  show ?case
  proof (cases n)
    case 0
    with first show ?thesis by (simp add: case_prod_beta)
  next
    case (Suc m)
    with Suc.prems have lt: "unat (cs_next s) + 1 < 2 ^ 64" by simp
    then have nx: "unat (cs_next (snd (allocate s))) = unat (cs_next s) + 1"
      by (simp add: allocate_def Let_def unat_word_ariths)
    then have "cs_next (snd (allocate s)) \<noteq> 0" by (metis add_eq_0_iff_both_eq_0 unat_0 zero_neq_one)
    then have "allocations n (snd (allocate s)) =
        map (\<lambda>k. if k < 2 ^ 48 then Inr (word_of_nat k) else Inl CounterExhausted)
          [Suc (unat (cs_next s))..<unat (cs_next s) + Suc n]"
      using Suc.IH [of "snd (allocate s)"] nx Suc.prems by (simp del: upt_Suc)
    moreover have "[unat (cs_next s)..<unat (cs_next s) + Suc n] =
        unat (cs_next s) # [Suc (unat (cs_next s))..<unat (cs_next s) + Suc n]"
      by (rule upt_conv_Cons) simp
    ultimately show ?thesis using first by (simp add: case_prod_beta del: upt_Suc)
  qed
qed simp

text \<open>C33: A client process hands out each masking counter at most once: its first \<open>2^48 - 1\<close>
  allocations are the numbers from 1 in order, and every later one up to the \<open>2^64\<close>th fails, so no two
  preludes of one process carry the same counter.\<close>

theorem counters_are_used_once:
  assumes "n < 2 ^ 64"
  shows "allocations n (client_sequence_new identity) =
      map (\<lambda>k. if k < 2 ^ 48 then Inr (word_of_nat k) else Inl CounterExhausted) [1..<n + 1] \<and>
    distinct (filter is_ok (allocations n (client_sequence_new identity)))"
proof -
  let ?f = "\<lambda>k. if k < 2 ^ 48 then Inr (word_of_nat k) else Inl CounterExhausted :: mask_error + u64"
  have "allocations n (client_sequence_new identity) = map ?f [1..<n + 1]"
    using allocations_from [of n "client_sequence_new identity"] assms
    by (simp add: client_sequence_new_def del: upt_Suc)
  moreover have "distinct (filter is_ok (map ?f [1..<n + 1]))"
  proof -
    have "inj_on ?f {k. k < 2 ^ 48}"
    proof (rule inj_onI)
      fix a b assume "a \<in> {k. k < 2 ^ 48}" "b \<in> {k. k < 2 ^ 48}" "?f a = ?f b"
      then have "unat (word_of_nat a :: u64) = unat (word_of_nat b :: u64)" "a < 2 ^ 64" "b < 2 ^ 64" by simp_all
      then show "a = b" by (simp only: unat_u64_of_nat)
    qed
    moreover have "filter is_ok (map ?f ks) = map ?f (filter (\<lambda>k. k < 2 ^ 48) ks)" for ks
      by (induction ks) simp_all
    ultimately show ?thesis
      by (auto simp: distinct_map simp del: upt_Suc intro: inj_on_subset)
  qed
  ultimately show ?thesis by metis
qed

theorem counters_are_used_once_witness:
  "allocations 3 (client_sequence_new 9) = [Inr 1, Inr 2, Inr 3]"
  using counters_are_used_once [of 3 9] by (simp add: upt_rec)

end
