(* ===== verification/Mask_Stream.thy ===== *)
theory Mask_Stream
  imports Mask_Prelude
begin

text \<open>
  \<open>crates/uk-mask/src/stream.rs\<close>: a stream whose two directions are XORed with a keystream. The
  cipher is the parameter \<open>keystream\<close>, giving the byte of a key and nonce at a position, and
  \<open>max_keystream\<close>, the number of bytes after which the cipher refuses to go on. The inner stream is a
  script: what it answers to each poll. A write hands the inner stream the masked bytes, and the
  prefix the inner stream accepts goes on the wire.
\<close>

section \<open>The wrapper\<close>

definition MAX_WRITE_CHUNK :: nat where "MAX_WRITE_CHUNK = 64 * 1024"

definition STREAM_LIMIT :: nat where "STREAM_LIMIT = 2 ^ 38 - 64"

type_synonym keystream = "bytes32 \<Rightarrow> byte list \<Rightarrow> nat \<Rightarrow> byte"

datatype 'a poll = Pending | Ready 'a

datatype 'e stream_error = LimitExceeded | SeekFailed | WriteZero | Inner 'e

record direction =
  d_key :: bytes32
  d_nonce :: "byte list"
  d_pos :: nat
  d_offset :: nat

record masked_stream =
  ms_read :: direction
  ms_write :: direction

definition direction_new :: "bytes32 \<Rightarrow> byte list \<Rightarrow> direction" where
  "direction_new key nonce = \<lparr>d_key = key, d_nonce = nonce, d_pos = 0, d_offset = 0\<rparr>"

definition masked_stream_new :: "bytes32 \<Rightarrow> bytes32 \<Rightarrow> byte list \<Rightarrow> masked_stream" where
  "masked_stream_new write_key read_key nonce =
     \<lparr>ms_read = direction_new read_key nonce, ms_write = direction_new write_key nonce\<rparr>"

definition new_client :: "mask_keys \<Rightarrow> byte list \<Rightarrow> masked_stream" where
  "new_client keys nonce = masked_stream_new (mk_tcp_c2s keys) (mk_tcp_s2c keys) nonce"

definition new_server :: "mask_keys \<Rightarrow> byte list \<Rightarrow> masked_stream" where
  "new_server keys nonce = masked_stream_new (mk_tcp_s2c keys) (mk_tcp_c2s keys) nonce"

definition rewind :: "nat \<Rightarrow> direction \<Rightarrow> 'e stream_error + direction" where
  "rewind max_keystream d =
     (if d_offset d \<le> max_keystream then Inr (d\<lparr>d_pos := d_offset d\<rparr>) else Inl SeekFailed)"

definition xor_at :: "(nat \<Rightarrow> byte) \<Rightarrow> nat \<Rightarrow> byte list \<Rightarrow> byte list" where
  "xor_at ks pos bs = map2 (\<lambda>i b. b XOR ks i) [pos..<pos + length bs] bs"

definition try_apply_keystream ::
    "keystream \<Rightarrow> nat \<Rightarrow> direction \<Rightarrow> byte list \<Rightarrow> 'e stream_error + (byte list \<times> direction)" where
  "try_apply_keystream keystream max_keystream d bs =
     (if d_pos d + length bs \<le> max_keystream
      then Inr (xor_at (keystream (d_key d) (d_nonce d)) (d_pos d) bs, d\<lparr>d_pos := d_pos d + length bs\<rparr>)
      else Inl LimitExceeded)"

definition next_offset :: "nat \<Rightarrow> nat \<Rightarrow> 'e stream_error + nat" where
  "next_offset offset n =
     (if offset + n < 2 ^ 64 \<and> offset + n \<le> STREAM_LIMIT then Inr (offset + n) else Inl LimitExceeded)"

definition poll_read ::
    "keystream \<Rightarrow> nat \<Rightarrow> direction \<Rightarrow> ('e + byte list) poll \<Rightarrow> ('e stream_error + byte list) poll \<times> direction" where
  "poll_read keystream max_keystream d inner =
     (case inner of
        Pending \<Rightarrow> (Pending, d)
      | Ready (Inl e) \<Rightarrow> (Ready (Inl (Inner e)), d)
      | Ready (Inr chunk) \<Rightarrow>
          if chunk = [] then (Ready (Inr []), d)
          else (case next_offset (d_offset d) (length chunk) of
                  Inl e \<Rightarrow> (Ready (Inl e), d)
                | Inr offset \<Rightarrow>
                    (let d = d\<lparr>d_offset := offset\<rparr>
                     in case try_apply_keystream keystream max_keystream d chunk of
                          Inl e \<Rightarrow> (Ready (Inl e), d)
                        | Inr (plain, d) \<Rightarrow> (Ready (Inr plain), d))))"

definition after_rewind ::
    "nat \<Rightarrow> direction \<Rightarrow> byte list \<Rightarrow> ('e stream_error + nat) poll \<Rightarrow>
     ('e stream_error + nat) poll \<times> direction \<times> byte list" where
  "after_rewind max_keystream d wire result =
     (case rewind max_keystream d of
        Inl e \<Rightarrow> (Ready (Inl e), d, wire)
      | Inr d \<Rightarrow> (result, d, wire))"

definition poll_write ::
    "keystream \<Rightarrow> nat \<Rightarrow> direction \<Rightarrow> byte list \<Rightarrow> ('e + nat) poll \<Rightarrow>
     ('e stream_error + nat) poll \<times> direction \<times> byte list" where
  "poll_write keystream max_keystream d buf inner =
     (if buf = [] then (Ready (Inr 0), d, [])
      else let take_len = min (length buf) MAX_WRITE_CHUNK
           in case next_offset (d_offset d) take_len of
                Inl e \<Rightarrow> (Ready (Inl e), d, [])
              | Inr _ \<Rightarrow>
                  (case try_apply_keystream keystream max_keystream d (take take_len buf) of
                     Inl e \<Rightarrow> (Ready (Inl e), d, [])
                   | Inr (scratch, d) \<Rightarrow>
                       (case inner of
                          Ready (Inr written) \<Rightarrow>
                            if written = take_len
                            then (Ready (Inr take_len), d\<lparr>d_offset := d_offset d + take_len\<rparr>, scratch)
                            else if written = 0
                            then after_rewind max_keystream d [] (Ready (Inl WriteZero))
                            else after_rewind max_keystream (d\<lparr>d_offset := d_offset d + written\<rparr>)
                                   (take written scratch) (Ready (Inr written))
                        | Ready (Inl e) \<Rightarrow> after_rewind max_keystream d [] (Ready (Inl (Inner e)))
                        | Pending \<Rightarrow> after_rewind max_keystream d [] Pending)))"

section \<open>Keystreams\<close>

lemma length_xor_at [simp]: "length (xor_at ks pos bs) = length bs"
  by (simp add: xor_at_def)

lemma xor_at_Nil [simp]: "xor_at ks pos [] = []"
  by (simp add: xor_at_def)

lemma xor_at_Cons: "xor_at ks pos (b # bs) = (b XOR ks pos) # xor_at ks (Suc pos) bs"
  by (simp add: xor_at_def upt_conv_Cons del: upt_Suc)

lemma xor_at_append: "xor_at ks pos (xs @ ys) = xor_at ks pos xs @ xor_at ks (pos + length xs) ys"
  by (induction xs arbitrary: pos) (simp_all add: xor_at_Cons)

lemma xor_at_take: "take n (xor_at ks pos bs) = xor_at ks pos (take n bs)"
  by (induction bs arbitrary: pos n) (simp_all add: xor_at_Cons take_Cons split: nat.splits)

lemma xor_at_twice: "xor_at ks pos (xor_at ks pos bs) = bs"
  by (induction bs arbitrary: pos) (simp_all add: xor_at_Cons xor.assoc)

section \<open>Writes\<close>

definition in_step :: "direction \<Rightarrow> bool" where
  "in_step d \<longleftrightarrow> d_pos d = d_offset d \<and> d_offset d \<le> STREAM_LIMIT"

definition reply_ok :: "byte list \<Rightarrow> ('e + nat) poll \<Rightarrow> bool" where
  "reply_ok buf inner \<longleftrightarrow>
     (case inner of Ready (Inr written) \<Rightarrow> written \<le> min (length buf) MAX_WRITE_CHUNK | _ \<Rightarrow> True)"

definition accepted_of :: "byte list \<Rightarrow> ('e stream_error + nat) poll \<Rightarrow> byte list" where
  "accepted_of buf result = (case result of Ready (Inr n) \<Rightarrow> take n buf | _ \<Rightarrow> [])"

lemma poll_write_step:
  assumes "in_step d" "reply_ok buf inner" "STREAM_LIMIT \<le> max_keystream"
    and "poll_write keystream max_keystream d buf inner = (result, d', wire)"
  shows "in_step d'" "wire = xor_at (keystream (d_key d) (d_nonce d)) (d_offset d) (accepted_of buf result)"
    "d_offset d' = d_offset d + length wire" "d_key d' = d_key d" "d_nonce d' = d_nonce d"
  using assms
  by (auto simp: poll_write_def Let_def next_offset_def try_apply_keystream_def after_rewind_def rewind_def
      in_step_def reply_ok_def accepted_of_def xor_at_take min_absorb1 split: if_splits poll.splits sum.splits)

fun write_run ::
    "keystream \<Rightarrow> nat \<Rightarrow> direction \<Rightarrow> (byte list \<times> ('e + nat) poll) list \<Rightarrow> byte list \<times> byte list \<times> direction" where
  "write_run keystream max_keystream d [] = ([], [], d)"
| "write_run keystream max_keystream d ((buf, inner) # polls) =
     (case poll_write keystream max_keystream d buf inner of
        (result, d, wire) \<Rightarrow>
          (case write_run keystream max_keystream d polls of
             (accepted, wires, d) \<Rightarrow> (accepted_of buf result @ accepted, wire @ wires, d)))"

lemma write_run_masks:
  assumes "in_step d" "list_all (\<lambda>(buf, inner). reply_ok buf inner) polls" "STREAM_LIMIT \<le> max_keystream"
    and "write_run keystream max_keystream d polls = (accepted, wire, d')"
  shows "in_step d' \<and> wire = xor_at (keystream (d_key d) (d_nonce d)) (d_offset d) accepted \<and>
    d_offset d' = d_offset d + length accepted"
  using assms
proof (induction polls arbitrary: d accepted wire d')
  case (Cons p polls)
  obtain buf inner where [simp]: "p = (buf, inner)" by (cases p)
  obtain result d1 w1 where w1: "poll_write keystream max_keystream d buf inner = (result, d1, w1)"
    by (metis prod_cases3)
  obtain a2 w2 d2 where w2: "write_run keystream max_keystream d1 polls = (a2, w2, d2)"
    by (metis prod_cases3)
  have step: "in_step d1" "w1 = xor_at (keystream (d_key d) (d_nonce d)) (d_offset d) (accepted_of buf result)"
    "d_offset d1 = d_offset d + length w1" "d_key d1 = d_key d" "d_nonce d1 = d_nonce d"
    using poll_write_step [OF Cons.prems(1) _ Cons.prems(3) w1] Cons.prems(2) by simp_all
  from Cons.IH [OF step(1) _ Cons.prems(3) w2] Cons.prems(2,4) step w1 w2 show ?case
    by (auto simp: xor_at_append)
qed simp

section \<open>Reads\<close>

fun read_run ::
    "keystream \<Rightarrow> nat \<Rightarrow> direction \<Rightarrow> ('e + byte list) poll list \<Rightarrow> ('e stream_error + byte list) poll list" where
  "read_run keystream max_keystream d [] = []"
| "read_run keystream max_keystream d (inner # polls) =
     (case poll_read keystream max_keystream d inner of
        (result, d) \<Rightarrow> result # read_run keystream max_keystream d polls)"

definition bytes_of_polls :: "('e + byte list) poll list \<Rightarrow> byte list" where
  "bytes_of_polls polls = concat (map (\<lambda>p. case p of Ready (Inr bs) \<Rightarrow> bs | _ \<Rightarrow> []) polls)"

lemma poll_read_step:
  assumes "in_step d" "STREAM_LIMIT \<le> max_keystream"
    "d_offset d + length (bytes_of_polls [inner]) \<le> STREAM_LIMIT"
    and "poll_read keystream max_keystream d inner = (result, d')"
  shows "in_step d'" "d_offset d' = d_offset d + length (bytes_of_polls [inner])"
    "d_key d' = d_key d" "d_nonce d' = d_nonce d"
    "bytes_of_polls [result] = xor_at (keystream (d_key d) (d_nonce d)) (d_offset d) (bytes_of_polls [inner])"
    "result \<noteq> Ready (Inl LimitExceeded)"
  using assms
  by (auto simp: poll_read_def Let_def next_offset_def try_apply_keystream_def bytes_of_polls_def STREAM_LIMIT_def
      in_step_def split: if_splits poll.splits sum.splits)

lemma bytes_of_polls_Cons: "bytes_of_polls (p # ps) = bytes_of_polls [p] @ bytes_of_polls ps"
  by (simp add: bytes_of_polls_def)

lemma read_run_unmasks:
  assumes "in_step d" "STREAM_LIMIT \<le> max_keystream"
    "d_offset d + length (bytes_of_polls polls) \<le> STREAM_LIMIT"
  shows "bytes_of_polls (read_run keystream max_keystream d polls) =
      xor_at (keystream (d_key d) (d_nonce d)) (d_offset d) (bytes_of_polls polls)"
  using assms
proof (induction polls arbitrary: d)
  case (Cons inner polls)
  obtain result d1 where r: "poll_read keystream max_keystream d inner = (result, d1)" by fastforce
  have lim: "d_offset d + length (bytes_of_polls [inner]) + length (bytes_of_polls polls) \<le> STREAM_LIMIT"
    using Cons.prems(3) by (simp add: bytes_of_polls_Cons [of inner polls])
  then have "d_offset d + length (bytes_of_polls [inner]) \<le> STREAM_LIMIT" by simp
  note step = poll_read_step [OF Cons.prems(1,2) this r]
  have "bytes_of_polls (read_run keystream max_keystream d1 polls) =
      xor_at (keystream (d_key d) (d_nonce d)) (d_offset d + length (bytes_of_polls [inner])) (bytes_of_polls polls)"
    using Cons.IH [OF step(1) Cons.prems(2)] lim step(2-4) by simp
  with step(5) r bytes_of_polls_Cons [of inner polls]
    bytes_of_polls_Cons [of result "read_run keystream max_keystream d1 polls"]
  show ?case by (simp add: xor_at_append)
qed (simp add: bytes_of_polls_def)

text \<open>C12: What one end of a masked connection accepts for writing is what the other end reads. On the
  sending side buffers may be offered in any sizes, and the inner stream may take a part of a chunk,
  report that it is not ready or fail between writes; the caller may resubmit something else. On the
  receiving side the bytes may arrive in any pieces. The bytes delivered are exactly the accepted
  ones, in both directions of the connection.\<close>

theorem masked_stream_end_to_end:
  assumes "STREAM_LIMIT \<le> max_keystream"
    and "list_all (\<lambda>(buf, inner). reply_ok buf inner) polls"
    and "(from, to) = (ms_write (new_client keys nonce), ms_read (new_server keys nonce)) \<or>
         (from, to) = (ms_write (new_server keys nonce), ms_read (new_client keys nonce))"
    and "write_run keystream max_keystream from polls = (accepted, wire, d)"
    and "bytes_of_polls reads = wire"
  shows "bytes_of_polls (read_run keystream max_keystream to reads) = accepted"
proof -
  have ends: "in_step from" "in_step to" "d_key to = d_key from" "d_nonce to = d_nonce from"
    "d_offset from = 0" "d_offset to = 0"
    using assms(3)
    by (auto simp: new_client_def new_server_def masked_stream_new_def direction_new_def in_step_def)
  note w = write_run_masks [OF ends(1) assms(2,1,4)]
  then have "length (bytes_of_polls reads) \<le> STREAM_LIMIT"
    using assms(5) ends(5) by (simp add: in_step_def)
  with read_run_unmasks [OF ends(2) assms(1), of reads keystream] w ends assms(5) show ?thesis
    by (simp add: xor_at_twice)
qed

definition sample_keystream :: keystream where
  "sample_keystream key nonce i = word_of_nat (i + 3)"

definition sample_mask_keys :: mask_keys where
  "sample_mask_keys = \<lparr>mk_auth_key = 1, mk_prelude_mask_key = 2, mk_tcp_c2s = 3, mk_tcp_s2c = 4,
     mk_udp_c2s = 5, mk_udp_s2c = 6\<rparr>"

theorem masked_stream_end_to_end_witness:
  "\<exists>wire d. write_run sample_keystream STREAM_LIMIT (ms_write (new_client sample_mask_keys [1]))
       [([10, 20, 30], Ready (Inr 2)), ([40], Pending), ([50, 60], Ready (Inr 2) :: (unit + nat) poll)] =
         ([10, 20, 50, 60], wire, d) \<and>
     bytes_of_polls (read_run sample_keystream STREAM_LIMIT (ms_read (new_server sample_mask_keys [1]))
       [Ready (Inr (take 1 wire)), Pending, Ready (Inr (drop 1 wire) :: unit + byte list)]) = [10, 20, 50, 60]"
proof -
  let ?polls = "[([10, 20, 30], Ready (Inr 2)), ([40], Pending), ([50, 60], Ready (Inr 2))] ::
    (byte list \<times> (unit + nat) poll) list"
  let ?from = "ms_write (new_client sample_mask_keys [1])"
  obtain accepted wire d where w: "write_run sample_keystream STREAM_LIMIT ?from ?polls = (accepted, wire, d)"
    by (metis prod_cases3)
  have acc: "accepted = [10, 20, 50, 60]"
    using w by (simp add: poll_write_def Let_def next_offset_def try_apply_keystream_def after_rewind_def rewind_def
        accepted_of_def new_client_def masked_stream_new_def direction_new_def MAX_WRITE_CHUNK_def STREAM_LIMIT_def
        split: prod.splits)
  have "list_all (\<lambda>(buf, inner). reply_ok buf inner) ?polls"
    by (simp add: reply_ok_def MAX_WRITE_CHUNK_def)
  from masked_stream_end_to_end [OF order_refl this, of ?from "ms_read (new_server sample_mask_keys [1])"
      sample_mask_keys "[1]" sample_keystream accepted wire d
      "[Ready (Inr (take 1 wire)), Pending, Ready (Inr (drop 1 wire) :: unit + byte list)]"] w
  show ?thesis by (auto simp: acc bytes_of_polls_def)
qed

end
