(* ===== verification/Socks5.thy ===== *)
theory Socks5
  imports Target
begin

text \<open>
  \<open>crates/uk-client/src/socks5.rs\<close>: the SOCKS5 handshake of the client's local listener and the
  datagrams of UDP ASSOCIATE. The stream is a record: the bytes that will arrive, how the input ends,
  the bytes written so far, and whether each of the following writes succeeds (all do once the list
  is used up). Parsers are functions from the stream to a result and the stream they leave.
\<close>

section \<open>Streams\<close>

datatype io_error = UnexpectedEof | OtherIo | InvalidData

datatype input_end = AtEof | AtError

record sock =
  sk_input :: "byte list"
  sk_end :: input_end
  sk_output :: "byte list"
  sk_writes :: "bool list"

type_synonym 'a io = "sock \<Rightarrow> (io_error + 'a) \<times> sock"

definition read_exact :: "nat \<Rightarrow> byte list io" where
  "read_exact n s =
     (if n \<le> length (sk_input s) then (Inr (take n (sk_input s)), s\<lparr>sk_input := drop n (sk_input s)\<rparr>)
      else (Inl (case sk_end s of AtEof \<Rightarrow> UnexpectedEof | AtError \<Rightarrow> OtherIo), s\<lparr>sk_input := []\<rparr>))"

definition write_all :: "byte list \<Rightarrow> unit io" where
  "write_all bs s =
     (case sk_writes s of
        [] \<Rightarrow> (Inr (), s\<lparr>sk_output := sk_output s @ bs\<rparr>)
      | True # ws \<Rightarrow> (Inr (), s\<lparr>sk_output := sk_output s @ bs, sk_writes := ws\<rparr>)
      | False # ws \<Rightarrow> (Inl OtherIo, s\<lparr>sk_writes := ws\<rparr>))"

section \<open>Endpoints\<close>

definition SOCKS_VERSION :: u8 where "SOCKS_VERSION = 0x05"
definition METHOD_NO_AUTH :: u8 where "METHOD_NO_AUTH = 0x00"
definition METHOD_NO_ACCEPTABLE :: u8 where "METHOD_NO_ACCEPTABLE = 0xff"
definition CMD_CONNECT :: u8 where "CMD_CONNECT = 0x01"
definition CMD_UDP_ASSOCIATE :: u8 where "CMD_UDP_ASSOCIATE = 0x03"
definition ATYP_IPV4 :: u8 where "ATYP_IPV4 = 0x01"
definition ATYP_DOMAIN :: u8 where "ATYP_DOMAIN = 0x03"
definition ATYP_IPV6 :: u8 where "ATYP_IPV6 = 0x04"

lemmas socks_codes = SOCKS_VERSION_def METHOD_NO_AUTH_def METHOD_NO_ACCEPTABLE_def CMD_CONNECT_def
  CMD_UDP_ASSOCIATE_def ATYP_IPV4_def ATYP_DOMAIN_def ATYP_IPV6_def

datatype reply = Succeeded | GeneralFailure | NotAllowed | HostUnreachable | ConnectionRefused
  | CommandNotSupported | AddressTypeNotSupported

fun reply_code :: "reply \<Rightarrow> u8" where
  "reply_code Succeeded = 0x00"
| "reply_code GeneralFailure = 0x01"
| "reply_code NotAllowed = 0x02"
| "reply_code HostUnreachable = 0x04"
| "reply_code ConnectionRefused = 0x05"
| "reply_code CommandNotSupported = 0x07"
| "reply_code AddressTypeNotSupported = 0x08"

datatype socks_endpoint = EpIpv4 u32 u16 | EpDomain "byte list" u16 | EpIpv6 u128 u16

datatype request = Connect target | UdpAssociate socks_endpoint

record udp_datagram =
  ud_target :: target
  ud_payload :: "byte list"

definition socks_validate_domain :: "byte list \<Rightarrow> io_error + unit" where
  "socks_validate_domain domain =
     (if domain = [] \<or> 255 < length domain then Inl InvalidData
      else if list_ex is_ascii_control domain then Inl InvalidData
      else Inr ())"

fun encode_endpoint :: "socks_endpoint \<Rightarrow> io_error + byte list" where
  "encode_endpoint (EpIpv4 addr port) = Inr ([ATYP_IPV4] @ put_u32 addr @ put_u16 port)"
| "encode_endpoint (EpDomain domain port) =
     and_then (socks_validate_domain domain) (\<lambda>_.
     if 256 \<le> length domain then Inl InvalidData
     else Inr ([ATYP_DOMAIN, word_of_nat (length domain)] @ domain @ put_u16 port))"
| "encode_endpoint (EpIpv6 addr port) = Inr ([ATYP_IPV6] @ put_u128 addr @ put_u16 port)"

fun encoded_endpoint_len :: "socks_endpoint \<Rightarrow> nat" where
  "encoded_endpoint_len (EpIpv4 _ _) = 1 + 4 + 2"
| "encoded_endpoint_len (EpDomain domain _) = 1 + 1 + length domain + 2"
| "encoded_endpoint_len (EpIpv6 _ _) = 1 + 16 + 2"

definition validate_target :: "target \<Rightarrow> io_error + unit" where
  "validate_target t = and_then (map_err (\<lambda>_. InvalidData) (target_encode t)) (\<lambda>_. Inr ())"

fun endpoint_target :: "socks_endpoint \<Rightarrow> target" where
  "endpoint_target (EpIpv4 addr port) = Ipv4 addr port"
| "endpoint_target (EpDomain domain port) = Domain domain port"
| "endpoint_target (EpIpv6 addr port) = Ipv6 addr port"

definition target_from_endpoint :: "socks_endpoint \<Rightarrow> io_error + target" where
  "target_from_endpoint ep =
     and_then (validate_target (endpoint_target ep)) (\<lambda>_. Inr (endpoint_target ep))"

fun endpoint_from_target :: "target \<Rightarrow> socks_endpoint" where
  "endpoint_from_target (Ipv4 addr port) = EpIpv4 addr port"
| "endpoint_from_target (Domain domain port) = EpDomain domain port"
| "endpoint_from_target (Ipv6 addr port) = EpIpv6 addr port"

fun validate_udp_associate_endpoint :: "socks_endpoint \<Rightarrow> io_error + unit" where
  "validate_udp_associate_endpoint (EpDomain domain _) = socks_validate_domain domain"
| "validate_udp_associate_endpoint _ = Inr ()"

section \<open>Datagrams\<close>

definition encode_udp_datagram :: "target \<Rightarrow> byte list \<Rightarrow> io_error + byte list" where
  "encode_udp_datagram t payload =
     and_then (validate_target t) (\<lambda>_.
     and_then (encode_endpoint (endpoint_from_target t)) (\<lambda>ep.
     Inr ([0, 0, 0] @ ep @ payload)))"

definition decode_endpoint :: "byte list \<Rightarrow> u8 \<Rightarrow> io_error + (socks_endpoint \<times> nat)" where
  "decode_endpoint src addr_type =
     (if addr_type = ATYP_IPV4 then
        (if length src < 6 then Inl InvalidData
         else Inr (EpIpv4 (get_u32 src) (get_u16 (drop 4 src)), 6))
      else if addr_type = ATYP_DOMAIN then
        (case src of
           [] \<Rightarrow> Inl InvalidData
         | len # _ \<Rightarrow>
             let domain_len = unat len; endpoint_len = 1 + domain_len + 2
             in if length src < endpoint_len then Inl InvalidData
                else let domain = take domain_len (drop 1 src)
                     in if \<not> utf8_valid domain then Inl InvalidData
                        else Inr (EpDomain domain (get_u16 (drop (1 + domain_len) src)), endpoint_len))
      else if addr_type = ATYP_IPV6 then
        (if length src < 18 then Inl InvalidData
         else Inr (EpIpv6 (get_u128 src) (get_u16 (drop 16 src)), 18))
      else Inl InvalidData)"

definition decode_udp_datagram :: "byte list \<Rightarrow> io_error + udp_datagram" where
  "decode_udp_datagram packet =
     (case packet of
        a # b # c # atyp # rest \<Rightarrow>
          if a \<noteq> 0 \<or> b \<noteq> 0 then Inl InvalidData
          else if c \<noteq> 0 then Inl InvalidData
          else and_then (decode_endpoint rest atyp) (\<lambda>(ep, payload_offset).
               and_then (target_from_endpoint ep) (\<lambda>t.
               Inr \<lparr>ud_target = t, ud_payload = drop payload_offset rest\<rparr>))
      | _ \<Rightarrow> Inl InvalidData)"

section \<open>The handshake\<close>

definition send_method_selection :: "u8 \<Rightarrow> unit io" where
  "send_method_selection m = write_all [SOCKS_VERSION, m]"

definition send_reply_with_endpoint :: "reply \<Rightarrow> socks_endpoint \<Rightarrow> unit io" where
  "send_reply_with_endpoint r ep s =
     (case encode_endpoint ep of
        Inl e \<Rightarrow> (Inl e, s)
      | Inr bs \<Rightarrow> write_all ([SOCKS_VERSION, reply_code r, 0x00] @ bs) s)"

definition send_reply :: "reply \<Rightarrow> unit io" where
  "send_reply r = send_reply_with_endpoint r (EpIpv4 0 0)"

text \<open>A read that turns a premature end of input into an answer to the client and a protocol error;
  the answer's own failure is ignored.\<close>

definition read_or_answer :: "unit io \<Rightarrow> nat \<Rightarrow> byte list io" where
  "read_or_answer answer n s =
     (case read_exact n s of
        (Inr bs, s') \<Rightarrow> (Inr bs, s')
      | (Inl UnexpectedEof, s') \<Rightarrow> (case answer s' of (_, s'') \<Rightarrow> (Inl InvalidData, s''))
      | (Inl e, s') \<Rightarrow> (Inl e, s'))"

definition read_greeting_exact :: "nat \<Rightarrow> byte list io" where
  "read_greeting_exact = read_or_answer (send_method_selection METHOD_NO_ACCEPTABLE)"

definition read_request_exact :: "nat \<Rightarrow> byte list io" where
  "read_request_exact = read_or_answer (send_reply GeneralFailure)"

definition read_greeting :: "unit io" where
  "read_greeting =
     io_then (read_exact 1) (\<lambda>v.
     if v \<noteq> [SOCKS_VERSION] then io_err InvalidData
     else io_then (read_greeting_exact 1) (\<lambda>n.
     let method_count = unat (hd n)
     in if method_count = 0
        then io_then (send_method_selection METHOD_NO_ACCEPTABLE) (\<lambda>_. io_err InvalidData)
        else io_then (read_greeting_exact method_count) (\<lambda>methods.
             if METHOD_NO_AUTH \<in> set methods then io_ok ()
             else io_then (send_method_selection METHOD_NO_ACCEPTABLE) (\<lambda>_. io_err InvalidData))))"

record request_head =
  rh_command :: u8
  rh_addr_type :: u8

definition read_request_head :: "request_head io" where
  "read_request_head =
     io_then (read_request_exact 4) (\<lambda>head.
     if head ! 0 \<noteq> SOCKS_VERSION then io_then (send_reply GeneralFailure) (\<lambda>_. io_err InvalidData)
     else if head ! 2 \<noteq> 0 then io_then (send_reply GeneralFailure) (\<lambda>_. io_err InvalidData)
     else io_ok \<lparr>rh_command = head ! 1, rh_addr_type = head ! 3\<rparr>)"

definition read_port :: "u16 io" where
  "read_port = io_then (read_request_exact 2) (\<lambda>port. io_ok (get_u16 port))"

definition read_endpoint :: "u8 \<Rightarrow> socks_endpoint io" where
  "read_endpoint addr_type =
     (if addr_type = ATYP_IPV4 then
        io_then (read_request_exact 4) (\<lambda>octets.
        io_then read_port (\<lambda>port. io_ok (EpIpv4 (get_u32 octets) port)))
      else if addr_type = ATYP_DOMAIN then
        io_then (read_request_exact 1) (\<lambda>len.
        io_then (read_request_exact (unat (hd len))) (\<lambda>domain.
        io_then read_port (\<lambda>port.
        if \<not> utf8_valid domain then io_then (send_reply GeneralFailure) (\<lambda>_. io_err InvalidData)
        else io_ok (EpDomain domain port))))
      else if addr_type = ATYP_IPV6 then
        io_then (read_request_exact 16) (\<lambda>octets.
        io_then read_port (\<lambda>port. io_ok (EpIpv6 (get_u128 octets) port)))
      else io_then (send_reply AddressTypeNotSupported) (\<lambda>_. io_err InvalidData))"

definition read_request :: "request io" where
  "read_request =
     io_then read_request_head (\<lambda>head.
     if rh_command head = CMD_CONNECT then
       io_then (read_endpoint (rh_addr_type head)) (\<lambda>ep.
       case target_from_endpoint ep of
         Inr t \<Rightarrow> io_ok (Connect t)
       | Inl e \<Rightarrow> io_then (send_reply GeneralFailure) (\<lambda>_. io_err e))
     else if rh_command head = CMD_UDP_ASSOCIATE then
       io_then (read_endpoint (rh_addr_type head)) (\<lambda>ep.
       case validate_udp_associate_endpoint ep of
         Inr _ \<Rightarrow> io_ok (UdpAssociate ep)
       | Inl e \<Rightarrow> io_then (send_reply GeneralFailure) (\<lambda>_. io_err e))
     else io_then (send_reply CommandNotSupported) (\<lambda>_. io_err InvalidData))"

definition negotiate_request :: "request io" where
  "negotiate_request =
     io_then read_greeting (\<lambda>_.
     io_then (send_method_selection METHOD_NO_AUTH) (\<lambda>_. read_request))"

section \<open>Endpoints on the wire\<close>

fun endpoint_type :: "socks_endpoint \<Rightarrow> u8" where
  "endpoint_type (EpIpv4 _ _) = ATYP_IPV4"
| "endpoint_type (EpDomain _ _) = ATYP_DOMAIN"
| "endpoint_type (EpIpv6 _ _) = ATYP_IPV6"

fun endpoint_body :: "socks_endpoint \<Rightarrow> byte list" where
  "endpoint_body (EpIpv4 addr port) = put_u32 addr @ put_u16 port"
| "endpoint_body (EpDomain domain port) = word_of_nat (length domain) # domain @ put_u16 port"
| "endpoint_body (EpIpv6 addr port) = put_u128 addr @ put_u16 port"

fun endpoint_ok :: "socks_endpoint \<Rightarrow> bool" where
  "endpoint_ok (EpDomain domain _) \<longleftrightarrow> length domain < 256 \<and> utf8_valid domain"
| "endpoint_ok _ \<longleftrightarrow> True"

lemma atyp_distinct [simp]:
  "ATYP_IPV4 \<noteq> ATYP_DOMAIN" "ATYP_DOMAIN \<noteq> ATYP_IPV4" "ATYP_IPV4 \<noteq> ATYP_IPV6" "ATYP_IPV6 \<noteq> ATYP_IPV4"
  "ATYP_DOMAIN \<noteq> ATYP_IPV6" "ATYP_IPV6 \<noteq> ATYP_DOMAIN"
  by (simp_all add: socks_codes)

lemma unat_byte_len: "n < 256 \<Longrightarrow> unat (word_of_nat n :: byte) = n"
  by (simp add: unat_word_of_nat_byte)

lemma byte_of_unat_len: "length d = unat (b :: byte) \<Longrightarrow> word_of_nat (length d) = b"
  by simp

lemma get_u16_drop: "n + 2 \<le> length src \<Longrightarrow> put_u16 (get_u16 (drop n src)) = take 2 (drop n src)"
  by (rule put_get_u16) simp

lemma take_split: "take n src @ take m (drop n src) @ drop (n + m) src = src"
  by (metis add.commute append_take_drop_id drop_drop)

lemma decode_endpoint_body:
  assumes "endpoint_ok ep"
  shows "decode_endpoint (endpoint_body ep @ rest) (endpoint_type ep) = Inr (ep, length (endpoint_body ep))"
  using assms by (cases ep) (simp_all add: decode_endpoint_def Let_def unat_byte_len)

lemma decode_endpoint_Inr:
  assumes "decode_endpoint src addr_type = Inr (ep, n)"
  shows "endpoint_ok ep \<and> addr_type = endpoint_type ep \<and> n = length (endpoint_body ep) \<and>
    src = endpoint_body ep @ drop n src"
proof -
  consider "addr_type = ATYP_IPV4" | "addr_type = ATYP_DOMAIN" | "addr_type = ATYP_IPV6"
    using assms by (auto simp: decode_endpoint_def split: if_splits)
  then show ?thesis
  proof cases
    case 1
    with assms have "6 \<le> length src" "ep = EpIpv4 (get_u32 src) (get_u16 (drop 4 src))" "n = 6"
      by (auto simp: decode_endpoint_def split: if_splits)
    with 1 put_get_u32 [of src] get_u16_drop [of 4 src] take_split [of 4 src 2] show ?thesis by simp
  next
    case 3
    with assms have "18 \<le> length src" "ep = EpIpv6 (get_u128 src) (get_u16 (drop 16 src))" "n = 18"
      by (auto simp: decode_endpoint_def split: if_splits)
    with 3 put_get_u128 [of src] get_u16_drop [of 16 src] take_split [of 16 src 2] show ?thesis by simp
  next
    case 2
    with assms obtain len xs where src: "src = len # xs" by (auto simp: decode_endpoint_def split: list.splits)
    with 2 assms have e: "unat len + 2 \<le> length xs" "utf8_valid (take (unat len) xs)"
      "ep = EpDomain (take (unat len) xs) (get_u16 (drop (unat len) xs))" "n = Suc (unat len + 2)"
      by (auto simp: decode_endpoint_def Let_def split: if_splits)
    then have "length (take (unat len) xs) = unat len" by simp
    with 2 e src get_u16_drop [of "unat len" xs] take_split [of "unat len" xs 2] unat_byte_less [of len]
    show ?thesis by (simp add: byte_of_unat_len)
  qed
qed

lemma validate_target_iff: "validate_target t = Inr u \<longleftrightarrow> target_ok t"
proof -
  have "(\<exists>bs. target_encode t = Inr bs) \<longleftrightarrow> target_ok t"
  proof
    assume "target_ok t"
    then have "\<exists>len. varint_encode (word_of_nat (length (target_host t))) = Inr len"
      using target_host_length [of t] encoded_len_Inr_iff [of "word_of_nat (length (target_host t))"]
      by (auto simp: varint_encode_Inr_iff unat_small_len)
    with \<open>target_ok t\<close> show "\<exists>bs. target_encode t = Inr bs" by (auto simp: target_encode_iff)
  qed (auto simp: target_encode_iff)
  then show ?thesis by (auto simp: validate_target_def result_simps)
qed

lemma endpoint_of_target [simp]: "endpoint_target (endpoint_from_target t) = t"
  by (cases t) simp_all

lemma target_of_endpoint [simp]: "endpoint_from_target (endpoint_target ep) = ep"
  by (cases ep) simp_all

lemma target_from_endpoint_iff:
  "target_from_endpoint ep = Inr t \<longleftrightarrow> ep = endpoint_from_target t \<and> target_ok t"
  by (auto simp: target_from_endpoint_def result_simps validate_target_iff)

lemma hostname_socks: "hostname d \<Longrightarrow> socks_validate_domain d = Inr () \<and> length d < 256 \<and> utf8_valid d"
proof -
  assume h: "hostname d"
  then have "\<not> list_ex is_ascii_control d"
    using validate_domain_iff [of d] by (auto simp: validate_domain_def split: if_splits)
  with h hostname_utf8 [OF h] show ?thesis
    by (auto simp: socks_validate_domain_def hostname_def)
qed

lemma encode_endpoint_target:
  assumes "target_ok t"
  shows "encode_endpoint (endpoint_from_target t) =
      Inr (endpoint_type (endpoint_from_target t) # endpoint_body (endpoint_from_target t)) \<and>
    endpoint_ok (endpoint_from_target t)"
  using assms hostname_socks [of "target_host t"] by (cases t) (auto simp: not_le [symmetric])

lemma decode_udp_datagram_iff:
  "decode_udp_datagram packet = Inr d \<longleftrightarrow> encode_udp_datagram (ud_target d) (ud_payload d) = Inr packet"
proof
  assume "decode_udp_datagram packet = Inr d"
  then obtain rest atyp ep n t where p: "packet = 0 # 0 # 0 # atyp # rest" "decode_endpoint rest atyp = Inr (ep, n)"
    "target_from_endpoint ep = Inr t" "d = \<lparr>ud_target = t, ud_payload = drop n rest\<rparr>"
    by (auto simp: decode_udp_datagram_def result_simps split: list.splits if_splits)
  from decode_endpoint_Inr [OF p(2)] p(3) have e: "ep = endpoint_from_target t" "target_ok t"
    "atyp = endpoint_type ep" "rest = endpoint_body ep @ drop n rest"
    by (auto simp: target_from_endpoint_iff)
  from e(4) have "endpoint_body ep @ drop n rest = rest" by (rule sym)
  with e(1-3) p(1,4) encode_endpoint_target [OF e(2)] show "encode_udp_datagram (ud_target d) (ud_payload d) = Inr packet"
    by (simp add: encode_udp_datagram_def validate_target_iff [of t "()", THEN iffD2])
next
  assume "encode_udp_datagram (ud_target d) (ud_payload d) = Inr packet"
  then have t: "target_ok (ud_target d)"
    by (auto simp: encode_udp_datagram_def result_simps validate_target_iff)
  note enc = encode_endpoint_target [OF t]
  with \<open>encode_udp_datagram (ud_target d) (ud_payload d) = Inr packet\<close>
  have "packet = [0, 0, 0] @ endpoint_type (endpoint_from_target (ud_target d)) #
      endpoint_body (endpoint_from_target (ud_target d)) @ ud_payload d"
    by (auto simp: encode_udp_datagram_def result_simps)
  with enc t show "decode_udp_datagram packet = Inr d"
    by (simp add: decode_udp_datagram_def decode_endpoint_body target_from_endpoint_iff [THEN iffD2])
qed

interpretation udp_datagram_form: payload_codec "\<lambda>d. encode_udp_datagram (ud_target d) (ud_payload d)" decode_udp_datagram
  by unfold_locales (rule decode_udp_datagram_iff)

section \<open>What a negotiation accepts\<close>

definition write_ready :: "sock \<Rightarrow> bool" where
  "write_ready s \<longleftrightarrow> sk_writes s = [] \<or> hd (sk_writes s)"

lemma write_all_Inr [io_simps]:
  "write_all bs s = (Inr u, s') \<longleftrightarrow>
     write_ready s \<and> s' = s\<lparr>sk_output := sk_output s @ bs, sk_writes := tl (sk_writes s)\<rparr>"
  by (auto simp: write_all_def write_ready_def split: list.splits bool.splits)

lemma read_exact_Inr [io_simps]:
  "read_exact n s = (Inr bs, s') \<longleftrightarrow>
     (\<exists>rest. sk_input s = bs @ rest \<and> length bs = n \<and> s' = s\<lparr>sk_input := rest\<rparr>)"
  by (auto simp: read_exact_def) (metis append_take_drop_id)

lemma read_or_answer_Inr:
  "read_or_answer answer n s = (Inr bs, s') \<longleftrightarrow>
     (\<exists>rest. sk_input s = bs @ rest \<and> length bs = n \<and> s' = s\<lparr>sk_input := rest\<rparr>)"
  by (simp add: read_exact_Inr [symmetric] read_or_answer_def split: io_error.splits prod.splits sum.splits)

lemma read_greeting_exact_Inr [io_simps]:
  "read_greeting_exact n s = (Inr bs, s') \<longleftrightarrow>
     (\<exists>rest. sk_input s = bs @ rest \<and> length bs = n \<and> s' = s\<lparr>sk_input := rest\<rparr>)"
  by (simp add: read_greeting_exact_def read_or_answer_Inr)

lemma read_request_exact_Inr [io_simps]:
  "read_request_exact n s = (Inr bs, s') \<longleftrightarrow>
     (\<exists>rest. sk_input s = bs @ rest \<and> length bs = n \<and> s' = s\<lparr>sk_input := rest\<rparr>)"
  by (simp add: read_request_exact_def read_or_answer_Inr)

lemmas io_run = io_then_def io_ok_def read_exact_def read_or_answer_def read_greeting_exact_def
  read_request_exact_def

lemma read_greeting_Inr:
  "read_greeting s = (Inr u, s') \<longleftrightarrow>
     (\<exists>methods rest. sk_input s = SOCKS_VERSION # word_of_nat (length methods) # methods @ rest \<and>
        length methods < 256 \<and> METHOD_NO_AUTH \<in> set methods \<and> s' = s\<lparr>sk_input := rest\<rparr>)"
proof
  assume "read_greeting s = (Inr u, s')"
  then obtain n methods rest where "sk_input s = SOCKS_VERSION # n # methods @ rest"
    "length methods = unat n" "METHOD_NO_AUTH \<in> set methods" "s' = s\<lparr>sk_input := rest\<rparr>"
    by (auto simp: read_greeting_def Let_def io_simps length_Suc_conv split: if_splits)
  moreover from this have "word_of_nat (length methods) = n" "length methods < 256"
    using unat_byte_less [of n] by simp_all
  ultimately show "\<exists>methods rest. sk_input s = SOCKS_VERSION # word_of_nat (length methods) # methods @ rest \<and>
        length methods < 256 \<and> METHOD_NO_AUTH \<in> set methods \<and> s' = s\<lparr>sk_input := rest\<rparr>" by blast
next
  assume "\<exists>methods rest. sk_input s = SOCKS_VERSION # word_of_nat (length methods) # methods @ rest \<and>
        length methods < 256 \<and> METHOD_NO_AUTH \<in> set methods \<and> s' = s\<lparr>sk_input := rest\<rparr>"
  then show "read_greeting s = (Inr u, s')"
    by (auto simp: read_greeting_def Let_def io_run unat_byte_len)
qed


lemma read_endpoint_Inr:
  "read_endpoint addr_type s = (Inr ep, s') \<longleftrightarrow>
     endpoint_ok ep \<and> addr_type = endpoint_type ep \<and>
     (\<exists>rest. sk_input s = endpoint_body ep @ rest \<and> s' = s\<lparr>sk_input := rest\<rparr>)"
proof
  assume r: "read_endpoint addr_type s = (Inr ep, s')"
  consider "addr_type = ATYP_IPV4" | "addr_type = ATYP_DOMAIN" | "addr_type = ATYP_IPV6"
    using r by (auto simp: read_endpoint_def io_simps split: if_splits)
  then show "endpoint_ok ep \<and> addr_type = endpoint_type ep \<and>
     (\<exists>rest. sk_input s = endpoint_body ep @ rest \<and> s' = s\<lparr>sk_input := rest\<rparr>)"
  proof cases
    case 1
    with r show ?thesis by (auto simp: read_endpoint_def read_port_def io_simps put_get_u32 put_get_u16)
  next
    case 3
    with r show ?thesis by (auto simp: read_endpoint_def read_port_def io_simps put_get_u128 put_get_u16)
  next
    case 2
    with r obtain n d port rest where "sk_input s = n # d @ port @ rest" "length d = unat n" "length port = 2"
      "utf8_valid d" "ep = EpDomain d (get_u16 port)" "s' = s\<lparr>sk_input := rest\<rparr>"
      by (auto simp: read_endpoint_def read_port_def io_simps length_Suc_conv split: if_splits)
    moreover from this have "word_of_nat (length d) = n" "length d < 256" using unat_byte_less [of n] by simp_all
    ultimately show ?thesis using 2 by (simp add: put_get_u16)
  qed
next
  assume "endpoint_ok ep \<and> addr_type = endpoint_type ep \<and>
     (\<exists>rest. sk_input s = endpoint_body ep @ rest \<and> s' = s\<lparr>sk_input := rest\<rparr>)"
  then show "read_endpoint addr_type s = (Inr ep, s')"
    by (cases ep) (auto simp: read_endpoint_def read_port_def io_run unat_byte_len)
qed

lemma read_request_head_Inr:
  "read_request_head s = (Inr h, s') \<longleftrightarrow>
     (\<exists>rest. sk_input s = SOCKS_VERSION # rh_command h # 0 # rh_addr_type h # rest \<and> s' = s\<lparr>sk_input := rest\<rparr>)"
proof
  assume "read_request_head s = (Inr h, s')"
  then show "\<exists>rest. sk_input s = SOCKS_VERSION # rh_command h # 0 # rh_addr_type h # rest \<and> s' = s\<lparr>sk_input := rest\<rparr>"
    by (auto simp: read_request_head_def io_simps length_Suc_conv eval_nat_numeral split: if_splits)
next
  assume "\<exists>rest. sk_input s = SOCKS_VERSION # rh_command h # 0 # rh_addr_type h # rest \<and> s' = s\<lparr>sk_input := rest\<rparr>"
  then show "read_request_head s = (Inr h, s')"
    by (auto simp: read_request_head_def io_run)
qed

fun request_command :: "request \<Rightarrow> u8" where
  "request_command (Connect _) = CMD_CONNECT"
| "request_command (UdpAssociate _) = CMD_UDP_ASSOCIATE"

fun request_endpoint :: "request \<Rightarrow> socks_endpoint" where
  "request_endpoint (Connect t) = endpoint_from_target t"
| "request_endpoint (UdpAssociate ep) = ep"

fun request_ok :: "request \<Rightarrow> bool" where
  "request_ok (Connect t) \<longleftrightarrow> target_ok t"
| "request_ok (UdpAssociate ep) \<longleftrightarrow> endpoint_ok ep \<and> validate_udp_associate_endpoint ep = Inr ()"

lemma commands_distinct [simp]: "CMD_CONNECT \<noteq> CMD_UDP_ASSOCIATE" "CMD_UDP_ASSOCIATE \<noteq> CMD_CONNECT"
  by (simp_all add: socks_codes)

lemma read_request_Inr:
  "read_request s = (Inr r, s') \<longleftrightarrow> request_ok r \<and>
     (\<exists>rest. sk_input s = [SOCKS_VERSION, request_command r, 0, endpoint_type (request_endpoint r)] @
        endpoint_body (request_endpoint r) @ rest \<and> s' = s\<lparr>sk_input := rest\<rparr>)"
proof
  assume r: "read_request s = (Inr r, s')"
  then obtain h s1 ep where h: "read_request_head s = (Inr h, s1)" "read_endpoint (rh_addr_type h) s1 = (Inr ep, s')"
    "rh_command h = request_command r" "(\<exists>t. target_from_endpoint ep = Inr t \<and> r = Connect t) \<or>
     (validate_udp_associate_endpoint ep = Inr () \<and> r = UdpAssociate ep)"
    by (auto simp: read_request_def io_simps split: if_splits)
  then show "request_ok r \<and>
     (\<exists>rest. sk_input s = [SOCKS_VERSION, request_command r, 0, endpoint_type (request_endpoint r)] @
        endpoint_body (request_endpoint r) @ rest \<and> s' = s\<lparr>sk_input := rest\<rparr>)"
    by (auto simp: read_request_head_Inr read_endpoint_Inr target_from_endpoint_iff)
next
  assume a: "request_ok r \<and>
     (\<exists>rest. sk_input s = [SOCKS_VERSION, request_command r, 0, endpoint_type (request_endpoint r)] @
        endpoint_body (request_endpoint r) @ rest \<and> s' = s\<lparr>sk_input := rest\<rparr>)"
  then obtain rest where i: "sk_input s = SOCKS_VERSION # request_command r # 0 # endpoint_type (request_endpoint r) #
        endpoint_body (request_endpoint r) @ rest" "s' = s\<lparr>sk_input := rest\<rparr>" by auto
  define s1 where "s1 = s\<lparr>sk_input := endpoint_body (request_endpoint r) @ rest\<rparr>"
  have "read_request_head s = (Inr \<lparr>rh_command = request_command r, rh_addr_type = endpoint_type (request_endpoint r)\<rparr>, s1)"
    using i by (simp add: read_request_head_Inr s1_def)
  moreover have "endpoint_ok (request_endpoint r)" using a encode_endpoint_target by (cases r) auto
  then have "read_endpoint (endpoint_type (request_endpoint r)) s1 = (Inr (request_endpoint r), s')"
    using i by (simp add: read_endpoint_Inr s1_def)
  ultimately show "read_request s = (Inr r, s')" using a
    by (cases r) (simp_all add: read_request_def io_then_def io_ok_Inr checked_Inr target_from_endpoint_iff)
qed


lemma negotiate_request_Inr:
  "negotiate_request s = (Inr r, s') \<longleftrightarrow>
     request_ok r \<and> write_ready s \<and>
     (\<exists>methods rest. length methods < 256 \<and> METHOD_NO_AUTH \<in> set methods \<and>
        sk_input s = [SOCKS_VERSION, word_of_nat (length methods)] @ methods @
          [SOCKS_VERSION, request_command r, 0, endpoint_type (request_endpoint r)] @
          endpoint_body (request_endpoint r) @ rest \<and>
        s' = s\<lparr>sk_input := rest, sk_output := sk_output s @ [SOCKS_VERSION, METHOD_NO_AUTH],
               sk_writes := tl (sk_writes s)\<rparr>)" (is "?L \<longleftrightarrow> ?R")
proof
  assume ?L
  then show ?R
    by (auto simp: negotiate_request_def io_simps read_greeting_Inr read_request_Inr send_method_selection_def
        write_ready_def)
next
  assume ?R
  then obtain methods rest where r: "request_ok r" "write_ready s" "length methods < 256" "METHOD_NO_AUTH \<in> set methods"
    "sk_input s = SOCKS_VERSION # word_of_nat (length methods) # methods @
          [SOCKS_VERSION, request_command r, 0, endpoint_type (request_endpoint r)] @
          endpoint_body (request_endpoint r) @ rest"
    "s' = s\<lparr>sk_input := rest, sk_output := sk_output s @ [SOCKS_VERSION, METHOD_NO_AUTH],
               sk_writes := tl (sk_writes s)\<rparr>" by auto
  define s1 where "s1 = s\<lparr>sk_input := [SOCKS_VERSION, request_command r, 0, endpoint_type (request_endpoint r)] @
          endpoint_body (request_endpoint r) @ rest\<rparr>"
  define s2 where "s2 = s1\<lparr>sk_output := sk_output s1 @ [SOCKS_VERSION, METHOD_NO_AUTH], sk_writes := tl (sk_writes s1)\<rparr>"
  have "read_greeting s = (Inr (), s1)"
    unfolding read_greeting_Inr using r by (intro exI conjI) (auto simp: s1_def)
  moreover have "send_method_selection METHOD_NO_AUTH s1 = (Inr (), s2)"
    using r by (simp add: send_method_selection_def write_all_Inr write_ready_def s1_def s2_def)
  moreover have "read_request s2 = (Inr r, s')"
    using r by (simp add: read_request_Inr s1_def s2_def)
  ultimately show ?L by (simp add: negotiate_request_def io_then_def)
qed

text \<open>C34: the SOCKS5 negotiation returns a request exactly when the input is a greeting whose
  methods include no-authentication, followed by a request header for a supported command with reserved
  byte zero and a well-formed endpoint (a valid target for CONNECT), and the selection could be
  written. It then has consumed exactly those bytes, leaving what follows for the relay, and has written
  exactly the selection of no-authentication.\<close>

theorem negotiate_accepts:
  "negotiate_request s = (Inr r, s') \<longleftrightarrow>
     request_ok r \<and> write_ready s \<and>
     (\<exists>methods rest. length methods < 256 \<and> METHOD_NO_AUTH \<in> set methods \<and>
        sk_input s = [SOCKS_VERSION, word_of_nat (length methods)] @ methods @
          [SOCKS_VERSION, request_command r, 0, endpoint_type (request_endpoint r)] @
          endpoint_body (request_endpoint r) @ rest \<and>
        s' = s\<lparr>sk_input := rest, sk_output := sk_output s @ [SOCKS_VERSION, METHOD_NO_AUTH],
               sk_writes := tl (sk_writes s)\<rparr>)"
  by (rule negotiate_request_Inr)

section \<open>What a failed negotiation has written\<close>

text \<open>The writes of an operation: \<open>A\<close> holds what a successful run may have added to the output,
  \<open>B\<close> what a failed one may have.\<close>

definition emits :: "'a io \<Rightarrow> byte list set \<Rightarrow> byte list set \<Rightarrow> bool" where
  "emits m A B \<longleftrightarrow> (\<forall>s. \<exists>w. sk_output (snd (m s)) = sk_output s @ w \<and>
     (case fst (m s) of Inr _ \<Rightarrow> w \<in> A | Inl _ \<Rightarrow> w \<in> B))"

lemma emits_io_then:
  assumes "emits m A B" "\<And>a. emits (f a) A' B'"
  shows "emits (io_then m f) {u @ v |u v. u \<in> A \<and> v \<in> A'} (B \<union> {u @ v |u v. u \<in> A \<and> v \<in> B'})"
  unfolding emits_def
proof
  fix s
  obtain x s1 where m: "m s = (x, s1)" by (cases "m s")
  from assms(1) m obtain u where u: "sk_output s1 = sk_output s @ u" "case x of Inr _ \<Rightarrow> u \<in> A | Inl _ \<Rightarrow> u \<in> B"
    by (fastforce simp: emits_def dest: spec [of _ s])
  show "\<exists>w. sk_output (snd (io_then m f s)) = sk_output s @ w \<and>
     (case fst (io_then m f s) of Inr _ \<Rightarrow> w \<in> {u @ v |u v. u \<in> A \<and> v \<in> A'}
      | Inl _ \<Rightarrow> w \<in> B \<union> {u @ v |u v. u \<in> A \<and> v \<in> B'})"
  proof (cases x)
    case (Inl e)
    with m u show ?thesis by (auto simp: io_then_def)
  next
    case (Inr a)
    obtain y s2 where f: "f a s1 = (y, s2)" by (cases "f a s1")
    with assms(2) [of a] obtain v where "sk_output s2 = sk_output s1 @ v" "case y of Inr _ \<Rightarrow> v \<in> A' | Inl _ \<Rightarrow> v \<in> B'"
      by (fastforce simp: emits_def dest: spec [of _ s1])
    with Inr m u f show ?thesis by (auto simp: io_then_def split: sum.splits)
  qed
qed


lemma emits_mono: "emits m A B \<Longrightarrow> A \<subseteq> A' \<Longrightarrow> B \<subseteq> B' \<Longrightarrow> emits m A' B'"
  unfolding emits_def by (erule all_forward, erule ex_forward) (auto split: sum.splits)

lemma emits_after:
  assumes "emits m {[]} B" "\<And>a. emits (f a) A B"
  shows "emits (io_then m f) A B"
  by (rule emits_mono [OF emits_io_then [OF assms]]) auto

lemma emits_refuse:
  assumes "emits m A B" "A \<subseteq> C" "B \<subseteq> C"
  shows "emits (io_then m (\<lambda>_. io_err e)) D C"
  by (rule emits_mono [OF emits_io_then [OF assms(1), of _ "{}" "{[]}"]])
    (use assms in \<open>auto simp: emits_def io_err_def\<close>)

lemma emits_ok: "[] \<in> A \<Longrightarrow> emits (io_ok a) A B"
  by (simp add: emits_def io_ok_def)

lemma emits_err: "[] \<in> B \<Longrightarrow> emits (io_err e) A B"
  by (simp add: emits_def io_err_def)

lemma emits_read_exact: "[] \<in> A \<Longrightarrow> [] \<in> B \<Longrightarrow> emits (read_exact n) A B"
  by (simp add: emits_def read_exact_def)

lemma emits_write_all: "bs \<in> A \<Longrightarrow> [] \<in> B \<Longrightarrow> emits (write_all bs) A B"
  by (auto simp: emits_def write_all_def split: list.splits bool.splits)

lemma emits_read_or_answer:
  assumes "emits answer B B" "[] \<in> B"
  shows "emits (read_or_answer answer n) {[]} B"
  unfolding emits_def
proof
  fix s
  obtain r s' where a: "read_exact n s = (r, s')" by (cases "read_exact n s")
  then have o: "sk_output s' = sk_output s" by (auto simp: read_exact_def split: if_splits)
  from assms(1) obtain w where "sk_output (snd (answer s')) = sk_output s' @ w" "w \<in> B"
    unfolding emits_def by (metis sum.case_eq_if)
  with a o assms(2) show "\<exists>w. sk_output (snd (read_or_answer answer n s)) = sk_output s @ w \<and>
     (case fst (read_or_answer answer n s) of Inr _ \<Rightarrow> w \<in> {[]} | Inl _ \<Rightarrow> w \<in> B)"
    by (auto simp: read_or_answer_def split: sum.splits io_error.splits prod.splits)
qed

definition reply_bytes :: "reply \<Rightarrow> byte list" where
  "reply_bytes r = [SOCKS_VERSION, reply_code r, 0, ATYP_IPV4, 0, 0, 0, 0, 0, 0]"

definition failure_replies :: "byte list set" where
  "failure_replies = {[]} \<union> reply_bytes ` {GeneralFailure, CommandNotSupported, AddressTypeNotSupported}"

lemma send_reply_write: "send_reply r = write_all (reply_bytes r)"
proof -
  have n: "(4 :: nat) = Suc (Suc (Suc (Suc 0)))" "(2 :: nat) = Suc (Suc 0)" by simp_all
  have "put_u32 0 = [0, 0, 0, 0]" "put_u16 0 = [0, 0]"
    unfolding put_u32_def put_u16_def n by simp_all
  then show ?thesis by (simp add: send_reply_def send_reply_with_endpoint_def reply_bytes_def fun_eq_iff)
qed

lemma emits_read_request_exact: "emits (read_request_exact n) {[]} failure_replies"
  unfolding read_request_exact_def send_reply_write
  by (intro emits_read_or_answer emits_write_all) (simp_all add: failure_replies_def)

lemma emits_fail:
  assumes "r \<in> {GeneralFailure, CommandNotSupported, AddressTypeNotSupported}"
  shows "emits (io_then (send_reply r) (\<lambda>_. io_err e)) A failure_replies"
proof -
  have "emits (write_all (reply_bytes r)) {reply_bytes r} {[]}" by (rule emits_write_all) simp_all
  then show ?thesis unfolding send_reply_write
    by (rule emits_refuse) (use assms in \<open>auto simp: failure_replies_def\<close>)
qed

lemma emits_read_request_head: "emits read_request_head {[]} failure_replies"
  unfolding read_request_head_def
  by (auto intro!: emits_after emits_read_request_exact emits_ok emits_fail)

lemma emits_read_port: "emits read_port {[]} failure_replies"
  unfolding read_port_def by (auto intro!: emits_after emits_read_request_exact emits_ok)

lemma emits_read_endpoint: "emits (read_endpoint addr_type) {[]} failure_replies"
  unfolding read_endpoint_def
  by (auto intro!: emits_after emits_read_request_exact emits_read_port emits_ok emits_fail)

lemma emits_read_request: "emits read_request {[]} failure_replies"
  unfolding read_request_def
  by (auto intro!: emits_after emits_read_request_head emits_read_endpoint emits_ok emits_fail split: sum.splits)

lemma emits_read_greeting: "emits read_greeting {[]} {[], [SOCKS_VERSION, METHOD_NO_ACCEPTABLE]}"
proof -
  let ?B = "{[], [SOCKS_VERSION, METHOD_NO_ACCEPTABLE]}"
  have r: "emits (read_greeting_exact n) {[]} ?B" for n
    unfolding read_greeting_exact_def send_method_selection_def
    by (intro emits_read_or_answer emits_write_all) simp_all
  have "emits (send_method_selection METHOD_NO_ACCEPTABLE) ?B {[]}"
    unfolding send_method_selection_def by (rule emits_write_all) simp_all
  then have f: "emits (io_then (send_method_selection METHOD_NO_ACCEPTABLE) (\<lambda>_. io_err e)) {[]} ?B" for e
    by (rule emits_refuse) simp_all
  show ?thesis unfolding read_greeting_def Let_def
    by (auto intro!: emits_after r f emits_ok emits_err emits_read_exact)
qed

lemma emits_negotiate:
  "emits negotiate_request {[SOCKS_VERSION, METHOD_NO_AUTH]}
     ({[], [SOCKS_VERSION, METHOD_NO_ACCEPTABLE]} \<union> (@) [SOCKS_VERSION, METHOD_NO_AUTH] ` failure_replies)"
proof -
  have "emits (send_method_selection METHOD_NO_AUTH) {[SOCKS_VERSION, METHOD_NO_AUTH]} {[]}"
    unfolding send_method_selection_def by (rule emits_write_all) simp_all
  from emits_io_then [OF emits_read_greeting emits_io_then [OF this emits_read_request]]
  show ?thesis unfolding negotiate_request_def by (rule emits_mono) auto
qed



text \<open>A UDP ASSOCIATE datagram is accepted exactly when it is what the encoder writes for the
  target and payload it is decoded to: no fragments, no trailing or missing bytes, one form per datagram.\<close>

lemma socks_datagram_form:
  "decode_udp_datagram packet = Inr d \<longleftrightarrow> encode_udp_datagram (ud_target d) (ud_payload d) = Inr packet"
  by (rule udp_datagram_form.pdec_iff)

end
