(* ===== verification/Relay_Budget.thy ===== *)
theory Relay_Budget
  imports UK_Prelude
begin

text \<open>
  The byte and flow budgets of \<open>crates/uk-server/src/relay/context.rs\<close>. A counter is an atomic
  \<open>usize\<close> changed by compare-and-exchange loops; bytes queued towards a target are counted per flow,
  per session and server-wide, in that order, and the three steps of one reservation interleave with
  those of every other flow.
\<close>

section \<open>Compare-and-exchange loops\<close>

definition usize_bound :: nat where "usize_bound = 2 ^ 64"

text \<open>\<open>actuals\<close> lists the values the counter has at the successive exchanges; the loop is still
  retrying when the list is used up. The result is whether the reservation was made, and the value
  the counter is left with by the exchange that made it.\<close>

fun reserve_loop :: "nat \<Rightarrow> nat \<Rightarrow> nat \<Rightarrow> nat list \<Rightarrow> (bool \<times> nat option) option" where
  "reserve_loop amount limit current actuals =
     (if usize_bound \<le> current + amount then Some (False, None)
      else if limit < current + amount then Some (False, None)
      else case actuals of
             [] \<Rightarrow> None
           | actual # rest \<Rightarrow>
               if actual = current then Some (True, Some (current + amount))
               else reserve_loop amount limit actual rest)"

fun release_loop :: "nat \<Rightarrow> nat \<Rightarrow> nat list \<Rightarrow> nat option" where
  "release_loop amount current [] = None"
| "release_loop amount current (actual # rest) =
     (if actual = current then Some (current - amount) else release_loop amount actual rest)"

declare reserve_loop.simps [simp del]

text \<open>The loops as one atomic step each.\<close>

definition reserve_bytes :: "nat \<Rightarrow> nat \<Rightarrow> nat \<Rightarrow> bool \<times> nat" where
  "reserve_bytes counter amount limit =
     (if usize_bound \<le> counter + amount \<or> limit < counter + amount then (False, counter)
      else (True, counter + amount))"

definition release_bytes :: "nat \<Rightarrow> nat \<Rightarrow> nat" where
  "release_bytes counter amount = counter - amount"

text \<open>Both loops are linearizable: a reservation that is made happens at an exchange that found the
  counter at some value and acts on that value as the atomic step does; one that is refused saw a value
  on which the atomic step refuses. Without interference they are the atomic steps.\<close>

lemma reserve_loop_linearizable:
  "reserve_loop amount limit current actuals = Some (b, v) \<Longrightarrow>
     \<exists>c. c \<in> insert current (set actuals) \<and> fst (reserve_bytes c amount limit) = b \<and>
       (b \<longrightarrow> c \<in> set actuals \<and> v = Some (snd (reserve_bytes c amount limit)))"
proof (induction amount limit current actuals rule: reserve_loop.induct)
  case (1 amount limit current actuals)
  show ?case
  proof (cases "usize_bound \<le> current + amount \<or> limit < current + amount")
    case True
    with "1.prems" show ?thesis
      by (intro exI [of _ current]) (auto simp: reserve_loop.simps [of amount limit current] reserve_bytes_def split: if_splits)
  next
    case False
    with "1.prems" obtain actual rest where a: "actuals = actual # rest"
      by (auto simp: reserve_loop.simps [of amount limit current] split: list.splits if_splits)
    show ?thesis
    proof (cases "actual = current")
      case True
      with False a "1.prems" show ?thesis
        by (intro exI [of _ current]) (auto simp: reserve_loop.simps [of amount limit current] reserve_bytes_def)
    next
      case neq: False
      with False a "1.prems" have "reserve_loop amount limit actual rest = Some (b, v)"
        by (simp add: reserve_loop.simps [of amount limit current])
      with "1.IH" [OF _ _ a neq] False a show ?thesis by fastforce
    qed
  qed
qed

lemma reserve_loop_alone:
  "reserve_loop amount limit c [c] =
     Some (fst (reserve_bytes c amount limit),
           if fst (reserve_bytes c amount limit) then Some (snd (reserve_bytes c amount limit)) else None)"
  by (simp add: reserve_loop.simps [of amount limit c] reserve_bytes_def)

lemma release_loop_linearizable:
  "release_loop amount current actuals = Some v \<Longrightarrow> \<exists>c \<in> set actuals. v = release_bytes c amount"
  by (induction amount current actuals rule: release_loop.induct) (auto simp: release_bytes_def split: if_splits)

lemma release_loop_alone: "release_loop amount c [c] = Some (release_bytes c amount)"
  by (simp add: release_bytes_def)


section \<open>The three budgets\<close>

record budgets =
  bg_flow :: "nat \<times> nat \<Rightarrow> nat"
  bg_session :: "nat \<Rightarrow> nat"
  bg_global :: nat

record budget_limits =
  bl_flow :: nat
  bl_session :: nat
  bl_global :: nat

text \<open>\<open>TargetFlowControl::reserve_bytes\<close> and \<open>release_bytes\<close>, run without interruption. A flow is named
  by its session and a number within it.\<close>

definition control_reserve_bytes :: "budget_limits \<Rightarrow> nat \<times> nat \<Rightarrow> nat \<Rightarrow> budgets \<Rightarrow> bool \<times> budgets" where
  "control_reserve_bytes l key amount bg =
     (case reserve_bytes (bg_flow bg key) amount (bl_flow l) of
        (False, _) \<Rightarrow> (False, bg)
      | (True, flow) \<Rightarrow>
          let bg = bg\<lparr>bg_flow := (bg_flow bg)(key := flow)\<rparr>
          in case reserve_bytes (bg_session bg (fst key)) amount (bl_session l) of
               (False, _) \<Rightarrow> (False, bg\<lparr>bg_flow := (bg_flow bg)(key := release_bytes (bg_flow bg key) amount)\<rparr>)
             | (True, session) \<Rightarrow>
                 let bg = bg\<lparr>bg_session := (bg_session bg)(fst key := session)\<rparr>
                 in case reserve_bytes (bg_global bg) amount (bl_global l) of
                      (False, _) \<Rightarrow>
                        (False, bg\<lparr>bg_session := (bg_session bg)(fst key := release_bytes (bg_session bg (fst key)) amount),
                                   bg_flow := (bg_flow bg)(key := release_bytes (bg_flow bg key) amount)\<rparr>)
                    | (True, global) \<Rightarrow> (True, bg\<lparr>bg_global := global\<rparr>))"

definition control_release_bytes :: "nat \<times> nat \<Rightarrow> nat \<Rightarrow> budgets \<Rightarrow> budgets" where
  "control_release_bytes key amount bg =
     bg\<lparr>bg_flow := (bg_flow bg)(key := release_bytes (bg_flow bg key) amount),
        bg_session := (bg_session bg)(fst key := release_bytes (bg_session bg (fst key)) amount),
        bg_global := release_bytes (bg_global bg) amount\<rparr>"

section \<open>The flow budget\<close>

text \<open>\<open>GlobalFlowBudget\<close>: a permit per flow, counted server-wide and given back when it is dropped.\<close>

record global_flow_budget =
  gf_current :: nat
  gf_limit :: nat

definition try_acquire :: "global_flow_budget \<Rightarrow> bool \<times> global_flow_budget" where
  "try_acquire b =
     (case reserve_bytes (gf_current b) 1 (gf_limit b) of
        (False, _) \<Rightarrow> (False, b)
      | (True, current) \<Rightarrow> (True, b\<lparr>gf_current := current\<rparr>))"

definition drop_permit :: "global_flow_budget \<Rightarrow> global_flow_budget" where
  "drop_permit b = b\<lparr>gf_current := release_bytes (gf_current b) 1\<rparr>"

datatype permit_op = AcquirePermit | DropPermit

text \<open>A run of the budget with the number of permits that are out; only a permit that is out is dropped.\<close>

fun permit_run :: "permit_op list \<Rightarrow> nat \<times> global_flow_budget \<Rightarrow> nat \<times> global_flow_budget" where
  "permit_run [] (n, b) = (n, b)"
| "permit_run (AcquirePermit # ops) (n, b) =
     (case try_acquire b of (True, b) \<Rightarrow> permit_run ops (n + 1, b) | (False, b) \<Rightarrow> permit_run ops (n, b))"
| "permit_run (DropPermit # ops) (n, b) = (if n = 0 then permit_run ops (n, b) else permit_run ops (n - 1, drop_permit b))"

text \<open>The counter is the number of permits that are out and within the limit, and a permit is refused only
  at the limit.\<close>

lemma try_acquire_permit:
  assumes "gf_current b \<le> gf_limit b"
  shows "try_acquire b = (if gf_current b + 1 < usize_bound \<and> gf_current b < gf_limit b
    then (True, b\<lparr>gf_current := gf_current b + 1\<rparr>) else (False, b))"
  by (simp add: try_acquire_def reserve_bytes_def not_less not_le Suc_le_eq)

lemma flow_permits_exact:
  assumes "gf_current b = n" "n \<le> gf_limit b" "permit_run ops (n, b) = (n', b')"
  shows "gf_current b' = n' \<and> n' \<le> gf_limit b' \<and> gf_limit b' = gf_limit b"
  using assms
proof (induction ops arbitrary: n b)
  case (Cons op ops)
  show ?case
  proof (cases op)
    case AcquirePermit
    with Cons.prems show ?thesis
      using Cons.IH [of "b\<lparr>gf_current := n + 1\<rparr>" "n + 1"] Cons.IH [of b n] by (auto simp: try_acquire_permit split: if_splits)
  next
    case DropPermit
    have "gf_current (drop_permit b) = n - 1" "n - 1 \<le> gf_limit (drop_permit b)" "gf_limit (drop_permit b) = gf_limit b"
      using Cons.prems by (simp_all add: drop_permit_def release_bytes_def)
    with DropPermit Cons.prems Cons.IH [of "drop_permit b" "n - 1"] Cons.IH [of b n] show ?thesis by (cases "n = 0") simp_all
  qed
qed simp

section \<open>Interleaved reservations\<close>

text \<open>The life of one \<open>BufferedTargetData\<close>: how far its reservation, the undoing of a refused one, or its
  drop has come. Each step is one atomic change of one counter.\<close>

datatype phase = Start | FlowReserved | SessionReserved | Held | UndoSession | UndoFlow | Refused
  | ReleaseSession | ReleaseGlobal | Dropped

record buffered =
  bf_key :: "nat \<times> nat"
  bf_amount :: nat
  bf_phase :: phase

definition set_flow :: "buffered \<Rightarrow> nat \<Rightarrow> budgets \<Rightarrow> budgets" where
  "set_flow b v bg = bg\<lparr>bg_flow := (bg_flow bg)(bf_key b := v)\<rparr>"

definition set_session :: "buffered \<Rightarrow> nat \<Rightarrow> budgets \<Rightarrow> budgets" where
  "set_session b v bg = bg\<lparr>bg_session := (bg_session bg)(fst (bf_key b) := v)\<rparr>"

definition buffer_step :: "budget_limits \<Rightarrow> buffered \<Rightarrow> budgets \<Rightarrow> phase \<times> budgets" where
  "buffer_step l b bg =
     (let n = bf_amount b; flow = bg_flow bg (bf_key b); session = bg_session bg (fst (bf_key b)); global = bg_global bg
      in case bf_phase b of
           Start \<Rightarrow>
             (case reserve_bytes flow n (bl_flow l) of
                (True, v) \<Rightarrow> (FlowReserved, set_flow b v bg) | (False, _) \<Rightarrow> (Refused, bg))
         | FlowReserved \<Rightarrow>
             (case reserve_bytes session n (bl_session l) of
                (True, v) \<Rightarrow> (SessionReserved, set_session b v bg) | (False, _) \<Rightarrow> (UndoFlow, bg))
         | SessionReserved \<Rightarrow>
             (case reserve_bytes global n (bl_global l) of
                (True, v) \<Rightarrow> (Held, bg\<lparr>bg_global := v\<rparr>) | (False, _) \<Rightarrow> (UndoSession, bg))
         | UndoSession \<Rightarrow> (UndoFlow, set_session b (release_bytes session n) bg)
         | UndoFlow \<Rightarrow> (Refused, set_flow b (release_bytes flow n) bg)
         | Held \<Rightarrow> (ReleaseSession, set_flow b (release_bytes flow n) bg)
         | ReleaseSession \<Rightarrow> (ReleaseGlobal, set_session b (release_bytes session n) bg)
         | ReleaseGlobal \<Rightarrow> (Dropped, bg\<lparr>bg_global := release_bytes global n\<rparr>)
         | Refused \<Rightarrow> (Refused, bg)
         | Dropped \<Rightarrow> (Dropped, bg))"

fun budget_run :: "budget_limits \<Rightarrow> nat list \<Rightarrow> buffered list \<times> budgets \<Rightarrow> buffered list \<times> budgets" where
  "budget_run l [] w = w"
| "budget_run l (i # schedule) (bs, bg) =
     (if i < length bs then
        (case buffer_step l (bs ! i) bg of
           (p, bg') \<Rightarrow> budget_run l schedule (bs[i := (bs ! i)\<lparr>bf_phase := p\<rparr>], bg'))
      else budget_run l schedule (bs, bg))"

text \<open>What a datum contributes to each counter at each phase.\<close>

definition flow_share :: "nat \<times> nat \<Rightarrow> buffered \<Rightarrow> nat" where
  "flow_share key b =
     (if bf_key b = key \<and> bf_phase b \<in> {FlowReserved, SessionReserved, Held, UndoSession, UndoFlow} then bf_amount b else 0)"

definition session_share :: "nat \<Rightarrow> buffered \<Rightarrow> nat" where
  "session_share s b =
     (if fst (bf_key b) = s \<and> bf_phase b \<in> {SessionReserved, Held, UndoSession, ReleaseSession} then bf_amount b else 0)"

definition global_share :: "buffered \<Rightarrow> nat" where
  "global_share b = (if bf_phase b \<in> {Held, ReleaseSession, ReleaseGlobal} then bf_amount b else 0)"

definition budgets_exact :: "budget_limits \<Rightarrow> buffered list \<Rightarrow> budgets \<Rightarrow> bool" where
  "budgets_exact l bs bg \<longleftrightarrow>
     (\<forall>key. bg_flow bg key = sum_list (map (flow_share key) bs) \<and> bg_flow bg key \<le> bl_flow l) \<and>
     (\<forall>s. bg_session bg s = sum_list (map (session_share s) bs) \<and> bg_session bg s \<le> bl_session l) \<and>
     bg_global bg = sum_list (map global_share bs) \<and> bg_global bg \<le> bl_global l"

lemma sum_list_map_update:
  fixes f :: "'a \<Rightarrow> nat"
  assumes "i < length xs"
  shows "sum_list (map f (xs[i := y])) + f (xs ! i) = sum_list (map f xs) + f y"
  using assms
proof (induction xs arbitrary: i)
  case (Cons x xs)
  then show ?case by (cases i) fastforce+
qed simp

lemma share_le:
  fixes f :: "'a \<Rightarrow> nat"
  shows "i < length xs \<Longrightarrow> f (xs ! i) \<le> sum_list (map f xs)"
  by (rule member_le_sum_list) simp_all

lemma budgets_exactD:
  assumes "budgets_exact l bs bg"
  shows "bg_flow bg key = sum_list (map (flow_share key) bs)" "bg_flow bg key \<le> bl_flow l"
    "bg_session bg s = sum_list (map (session_share s) bs)" "bg_session bg s \<le> bl_session l"
    "bg_global bg = sum_list (map global_share bs)" "bg_global bg \<le> bl_global l"
  using assms unfolding budgets_exact_def by (blast+)

lemma budgets_exact_update:
  assumes "budgets_exact l bs bg" "i < length bs"
    and "\<And>key. bg_flow bg' key + flow_share key (bs ! i) = bg_flow bg key + flow_share key b' \<and> bg_flow bg' key \<le> bl_flow l"
    and "\<And>s. bg_session bg' s + session_share s (bs ! i) = bg_session bg s + session_share s b' \<and> bg_session bg' s \<le> bl_session l"
    and "bg_global bg' + global_share (bs ! i) = bg_global bg + global_share b' \<and> bg_global bg' \<le> bl_global l"
  shows "budgets_exact l (bs[i := b']) bg'"
proof -
  note u = sum_list_map_update [OF assms(2), where y = b']
  have "bg_flow bg' key = sum_list (map (flow_share key) (bs[i := b']))" for key
    using u [of "flow_share key"] assms(3) [of key] budgets_exactD(1) [OF assms(1), of key] by simp
  moreover have "bg_session bg' s = sum_list (map (session_share s) (bs[i := b']))" for s
    using u [of "session_share s"] assms(4) [of s] budgets_exactD(3) [OF assms(1), of s] by simp
  moreover have "bg_global bg' = sum_list (map global_share (bs[i := b']))"
    using u [of global_share] assms(5) budgets_exactD(5) [OF assms(1)] by simp
  ultimately show ?thesis using assms(3-5) unfolding budgets_exact_def by blast
qed

lemma budgets_exact_bounds:
  assumes "budgets_exact l bs bg" "i < length bs"
  shows "flow_share key (bs ! i) \<le> bg_flow bg key" "session_share s (bs ! i) \<le> bg_session bg s"
    "global_share (bs ! i) \<le> bg_global bg"
    "bg_flow bg key \<le> bl_flow l" "bg_session bg s \<le> bl_session l" "bg_global bg \<le> bl_global l"
  using budgets_exactD(1,2) [OF assms(1), of key] budgets_exactD(3,4) [OF assms(1), of s] budgets_exactD(5,6) [OF assms(1)] share_le [OF assms(2), of "flow_share key"]
    share_le [OF assms(2), of "session_share s"] share_le [OF assms(2), of global_share] by simp_all

lemma buffer_step_exact:
  assumes "budgets_exact l bs bg" "i < length bs" "buffer_step l (bs ! i) bg = (p, bg')"
  shows "budgets_exact l (bs[i := (bs ! i)\<lparr>bf_phase := p\<rparr>]) bg'"
proof (rule budgets_exact_update [OF assms(1,2)])
  note step = assms(3) [unfolded buffer_step_def Let_def reserve_bytes_def release_bytes_def set_flow_def set_session_def]
  note b = budgets_exact_bounds [OF assms(1,2)]
  show "bg_flow bg' key + flow_share key (bs ! i) = bg_flow bg key + flow_share key ((bs ! i)\<lparr>bf_phase := p\<rparr>) \<and>
      bg_flow bg' key \<le> bl_flow l" for key
    using step b(1) [of key] b(4) [of key]
    by (cases "bf_phase (bs ! i)") (auto simp: flow_share_def split: if_splits)
  show "bg_session bg' s + session_share s (bs ! i) = bg_session bg s + session_share s ((bs ! i)\<lparr>bf_phase := p\<rparr>) \<and>
      bg_session bg' s \<le> bl_session l" for s
    using step b(2) [of s] b(5) [of s]
    by (cases "bf_phase (bs ! i)") (auto simp: session_share_def split: if_splits)
  show "bg_global bg' + global_share (bs ! i) = bg_global bg + global_share ((bs ! i)\<lparr>bf_phase := p\<rparr>) \<and>
      bg_global bg' \<le> bl_global l"
    using step b(3,6) by (cases "bf_phase (bs ! i)") (auto simp: global_share_def split: if_splits)
qed

lemma budget_run_exact:
  "budgets_exact l bs bg \<Longrightarrow> budget_run l schedule (bs, bg) = (bs', bg') \<Longrightarrow> budgets_exact l bs' bg'"
proof (induction schedule arbitrary: bs bg)
  case (Cons i schedule)
  then show ?case by (auto split: if_splits prod.splits dest: buffer_step_exact)
qed simp


text \<open>The uninterrupted routines are runs of a single datum.\<close>

lemma control_reserve_is_a_run:
  assumes "bf_phase b = Start" "control_reserve_bytes l (bf_key b) (bf_amount b) bg = (ok, bg')"
  shows "\<exists>n. budget_run l (replicate n 0) ([b], bg) = ([b\<lparr>bf_phase := if ok then Held else Refused\<rparr>], bg')"
proof -
  define run where "run = budget_run l"
  have step: "run (0 # is) ([x], g) = run is (case buffer_step l x g of (p, g') \<Rightarrow> ([x\<lparr>bf_phase := p\<rparr>], g'))" for x g "is"
    by (simp add: run_def split: prod.splits)
  have r: "run [] w = w" for w by (simp add: run_def)
  note defs = buffer_step_def Let_def set_flow_def set_session_def control_reserve_bytes_def
  obtain fb fv sb sv gb gv where res: "reserve_bytes (bg_flow bg (bf_key b)) (bf_amount b) (bl_flow l) = (fb, fv)"
    "reserve_bytes (bg_session bg (fst (bf_key b))) (bf_amount b) (bl_session l) = (sb, sv)"
    "reserve_bytes (bg_global bg) (bf_amount b) (bl_global l) = (gb, gv)"
    by fastforce
  consider "\<not> fb" | "fb" "\<not> sb" | "fb" "sb" "\<not> gb" | "fb" "sb" "gb" by blast
  then have "\<exists>is. set is \<subseteq> {0} \<and> run is ([b], bg) = ([b\<lparr>bf_phase := if ok then Held else Refused\<rparr>], bg')"
  proof cases
    case 1
    with assms res show ?thesis by (intro exI [of _ "[0]"]) (simp add: step r defs)
  next
    case 2
    with assms res show ?thesis by (intro exI [of _ "[0, 0, 0]"]) (simp add: step r defs)
  next
    case 3
    with assms res show ?thesis by (intro exI [of _ "[0, 0, 0, 0, 0]"]) (simp add: step r defs)
  next
    case 4
    with assms res show ?thesis by (intro exI [of _ "[0, 0, 0]"]) (simp add: step r defs)
  qed
  moreover have "set is \<subseteq> {0} \<Longrightarrow> is = replicate (length is) 0" for "is" :: "nat list"
    by (metis replicate_length_same singletonD subsetD)
  ultimately show ?thesis unfolding run_def by metis
qed

lemma control_release_is_a_run:
  "bf_phase b = Held \<Longrightarrow>
     budget_run l [0, 0, 0] ([b], bg) = ([b\<lparr>bf_phase := Dropped\<rparr>], control_release_bytes (bf_key b) (bf_amount b) bg)"
  by (simp add: buffer_step_def set_flow_def set_session_def control_release_bytes_def)

definition no_budgets :: budgets where
  "no_budgets = \<lparr>bg_flow = \<lambda>_. 0, bg_session = \<lambda>_. 0, bg_global = 0\<rparr>"

text \<open>C39: the buffer budgets are exact under every interleaving. However the steps of reservations,
  refusals and drops of any number of flows and sessions are scheduled, each counter equals the sum
  of what the data in flight hold of it and never exceeds its limit, at no moment and for no flow,
  session or the server; when every datum has been refused or dropped all counters are back at zero, so
  no bytes leak and no release is ever cut off at zero.\<close>

theorem buffer_budgets_are_exact:
  assumes "budget_run l schedule (bs, no_budgets) = (bs', bg)" "\<forall>b \<in> set bs. bf_phase b = Start"
  shows "budgets_exact l bs' bg \<and> ((\<forall>b \<in> set bs'. bf_phase b \<in> {Refused, Dropped}) \<longrightarrow> bg = no_budgets)"
proof -
  have zero: "sum_list (map f xs) = 0" if "\<And>b. b \<in> set xs \<Longrightarrow> f b = 0" for f :: "buffered \<Rightarrow> nat" and xs
    using that by (induction xs) auto
  have "budgets_exact l bs no_budgets"
    using assms(2) by (auto simp: budgets_exact_def no_budgets_def flow_share_def session_share_def global_share_def
        intro!: zero [symmetric])
  from budget_run_exact [OF this assms(1)] have ex: "budgets_exact l bs' bg" .
  have "bg = no_budgets" if fin: "\<forall>b \<in> set bs'. bf_phase b \<in> {Refused, Dropped}"
  proof -
    have "bg_flow bg key = 0" "bg_session bg s = 0" "bg_global bg = 0" for key s
      using fin by (auto simp: budgets_exactD [OF ex] flow_share_def session_share_def global_share_def intro!: zero)
    then show ?thesis by (simp add: no_budgets_def fun_eq_iff)
  qed
  with ex show ?thesis by blast
qed


definition sample_data :: "buffered list" where
  "sample_data = [\<lparr>bf_key = (0, 1), bf_amount = 3, bf_phase = Start\<rparr>, \<lparr>bf_key = (0, 1), bf_amount = 3, bf_phase = Start\<rparr>]"

theorem buffer_budgets_are_exact_witness:
  "map bf_phase (fst (budget_run \<lparr>bl_flow = 9, bl_session = 5, bl_global = 5\<rparr> [0, 1, 0, 1, 1, 0, 0, 0, 0] (sample_data, no_budgets))) =
      [Dropped, Refused] \<and>
   snd (budget_run \<lparr>bl_flow = 9, bl_session = 5, bl_global = 5\<rparr> [0, 1, 0, 1, 1, 0, 0, 0, 0] (sample_data, no_budgets)) = no_budgets"
proof -
  let ?w = "budget_run \<lparr>bl_flow = 9, bl_session = 5, bl_global = 5\<rparr> [0, 1, 0, 1, 1, 0, 0, 0, 0] (sample_data, no_budgets)"
  have p: "map bf_phase (fst ?w) = [Dropped, Refused]"
    by (simp add: sample_data_def no_budgets_def buffer_step_def set_flow_def set_session_def reserve_bytes_def
        release_bytes_def usize_bound_def)
  have "bf_phase ` set (fst ?w) = set (map bf_phase (fst ?w))" by simp
  then have "\<forall>b \<in> set (fst ?w). bf_phase b \<in> {Refused, Dropped}" unfolding p by auto
  moreover have "\<forall>b \<in> set sample_data. bf_phase b = Start" by (simp add: sample_data_def)
  ultimately have "snd ?w = no_budgets"
    using buffer_budgets_are_exact [OF prod.collapse [symmetric]] by blast
  with p show ?thesis by (rule conjI)
qed

end
