(* ===== verification/Dialer.thy ===== *)
theory Dialer
  imports Policy_Props Auth
begin

text \<open>
  \<open>crates/uk-server/src/relay/dialer.rs\<close>: from an open request to a connected target socket. The
  policy is evaluated before the name is resolved and again on the resolved addresses; the allowed
  addresses are then dialed, at most four at a time and each under a permit of the session's dial
  limiter, until one connects.

  The name lookup and the connector are arguments. The passage of time is a script with one entry
  per turn of the dial loop: the clock, the permits the limiter has to give at that moment (other
  flows of the session take and return them), whether the deadline fires before any dial finishes,
  and which dial finishes. A run whose script ends is still waiting (\<open>None\<close>).
\<close>

section \<open>Addresses\<close>

record socket_addr =
  sa_ip :: ip_addr
  sa_port :: u16

definition TARGET_CONNECT_PARALLELISM :: nat where "TARGET_CONNECT_PARALLELISM = 4"
definition TARGET_RESOLUTION_ADDR_LIMIT :: nat where "TARGET_RESOLUTION_ADDR_LIMIT = 64"

datatype dial_error = NoAddresses | TooManyAddresses | NoSocketAddresses | OsError nat | JoinFailed

datatype open_failure = OF_PolicyDenied | OF_ResourceLimit | OF_TargetUnavailable dial_error | OF_TargetTimeout

definition collect_resolved_addrs :: "socket_addr list \<Rightarrow> open_failure + socket_addr list" where
  "collect_resolved_addrs addrs =
     (let addrs = take (TARGET_RESOLUTION_ADDR_LIMIT + 1) addrs
      in if addrs = [] then Inl (OF_TargetUnavailable NoAddresses)
         else if TARGET_RESOLUTION_ADDR_LIMIT < length addrs then Inl (OF_TargetUnavailable TooManyAddresses)
         else Inr addrs)"

text \<open>The lookups a resolution makes are returned with its result.\<close>

type_synonym lookup_fn = "byte list \<Rightarrow> u16 \<Rightarrow> dial_error + socket_addr list"

fun resolve_target :: "lookup_fn \<Rightarrow> target \<Rightarrow> (open_failure + socket_addr list) \<times> (byte list \<times> u16) list" where
  "resolve_target lookup_host (Domain domain port) =
     (and_then (map_err OF_TargetUnavailable (lookup_host domain port)) collect_resolved_addrs, [(domain, port)])"
| "resolve_target lookup_host (Ipv4 ip port) = (Inr [\<lparr>sa_ip = V4 ip, sa_port = port\<rparr>], [])"
| "resolve_target lookup_host (Ipv6 ip port) = (Inr [\<lparr>sa_ip = V6 ip, sa_port = port\<rparr>], [])"

fun resolved_ips :: "target \<Rightarrow> socket_addr list \<Rightarrow> ip_addr list" where
  "resolved_ips (Domain _ _) addrs = map sa_ip addrs"
| "resolved_ips (Ipv4 _ _) addrs = []"
| "resolved_ips (Ipv6 _ _) addrs = []"

definition policy_context_for :: "target \<Rightarrow> authenticated_identity \<Rightarrow> ip_addr list \<Rightarrow> policy_context" where
  "policy_context_for t identity ips =
     \<lparr>pc_key_id = ai_key_id identity, pc_policy_group = ai_policy_group identity, pc_target = t,
      pc_resolved_ips = ips\<rparr>"

definition pre_resolve_policy_check ::
    "target \<Rightarrow> authenticated_identity \<Rightarrow> policy_set \<Rightarrow> open_failure + unit" where
  "pre_resolve_policy_check t identity ps =
     (case evaluate_pre_resolve ps (policy_context_for t identity []) of
        DeniedWithoutResolution \<Rightarrow> Inl OF_PolicyDenied
      | NeedsResolution \<Rightarrow> Inr ())"

section \<open>Dial tasks\<close>

datatype 's connect_outcome = Connected 's | ConnectError dial_error | ConnectPanicked

text \<open>\<open>ConnectTasks\<close>: the running dials with their ids and addresses, and the permit each one holds.
  \<open>ct_next_id\<close> stands for the runtime's supply of task ids, \<open>ct_dialed\<close> records every dial started.\<close>

record connect_tasks =
  ct_tasks :: "(nat \<times> socket_addr) list"
  ct_permits :: "(nat, unit) hash_map"
  ct_next_id :: nat
  ct_dialed :: "socket_addr list"

definition connect_tasks_new :: connect_tasks where
  "connect_tasks_new = \<lparr>ct_tasks = [], ct_permits = [], ct_next_id = 0, ct_dialed = []\<rparr>"

definition connect_spawn :: "connect_tasks \<Rightarrow> socket_addr \<Rightarrow> connect_tasks" where
  "connect_spawn ts addr =
     ts\<lparr>ct_tasks := ct_tasks ts @ [(ct_next_id ts, addr)],
        ct_permits := hm_insert (ct_next_id ts) () (ct_permits ts),
        ct_next_id := ct_next_id ts + 1,
        ct_dialed := ct_dialed ts @ [addr]\<rparr>"

text \<open>\<open>join_next\<close> when the task at a given position of the set finishes first.\<close>

definition connect_join_next :: "nat \<Rightarrow> connect_tasks \<Rightarrow> (nat \<times> socket_addr) option \<times> connect_tasks" where
  "connect_join_next position ts =
     (if ct_tasks ts = [] then (None, ts)
      else let i = position mod length (ct_tasks ts);
               (tid, addr) = ct_tasks ts ! i
           in (Some (tid, addr),
               ts\<lparr>ct_tasks := take i (ct_tasks ts) @ drop (i + 1) (ct_tasks ts),
                  ct_permits := hm_remove tid (ct_permits ts)\<rparr>))"

definition connect_abort_all :: "connect_tasks \<Rightarrow> connect_tasks" where
  "connect_abort_all ts = ts\<lparr>ct_tasks := [], ct_permits := []\<rparr>"

text \<open>The spawn loop: \<open>available\<close> is what the limiter's semaphore has left.\<close>

function spawn_target_connects ::
    "socket_addr list \<Rightarrow> nat \<Rightarrow> nat \<Rightarrow> connect_tasks \<Rightarrow> nat \<times> nat \<times> connect_tasks" where
  "spawn_target_connects addrs available next_index ts =
     (if next_index < length addrs \<and> length (ct_tasks ts) < TARGET_CONNECT_PARALLELISM then
        (if available = 0 then (available, next_index, ts)
         else spawn_target_connects addrs (available - 1) (next_index + 1)
                (connect_spawn ts (addrs ! next_index)))
      else (available, next_index, ts))"
  by pat_completeness auto
termination
  by (relation "measure (\<lambda>(addrs, _, next_index, _). length addrs - next_index)") auto

declare spawn_target_connects.simps [simp del]

section \<open>The dial loop\<close>

record dial_round =
  dr_now :: instant
  dr_available :: nat
  dr_elapsed :: bool
  dr_position :: nat

type_synonym 's connector = "nat \<Rightarrow> socket_addr \<Rightarrow> 's connect_outcome"

definition join_next_connect_task ::
    "instant option \<Rightarrow> dial_round \<Rightarrow> connect_tasks \<Rightarrow>
     open_failure + (nat \<times> socket_addr) option \<times> connect_tasks" where
  "join_next_connect_task deadline r ts =
     (if deadline \<noteq> None \<and> dr_elapsed r then Inl OF_TargetTimeout
      else Inr (connect_join_next (dr_position r) ts))"

fun connect_first_successful ::
    "'s connector \<Rightarrow> instant option \<Rightarrow> socket_addr list \<Rightarrow> dial_round list \<Rightarrow> nat \<Rightarrow> dial_error option \<Rightarrow>
     connect_tasks \<Rightarrow> (open_failure + 's) option \<times> connect_tasks" where
  "connect_first_successful connector deadline addrs [] next_index last_error ts = (None, ts)"
| "connect_first_successful connector deadline addrs (r # rs) next_index last_error ts =
     (if (case deadline of Some t \<Rightarrow> t \<le> dr_now r | None \<Rightarrow> False)
      then (Some (Inl OF_TargetTimeout), connect_abort_all ts)
      else let (_, next_index, ts) = spawn_target_connects addrs (dr_available r) next_index ts;
               unavailable = Inl (OF_TargetUnavailable
                 (case last_error of Some e \<Rightarrow> e | None \<Rightarrow> NoSocketAddresses))
           in if ct_tasks ts = []
              then (Some (if next_index < length addrs then Inl OF_ResourceLimit else unavailable), ts)
              else case join_next_connect_task deadline r ts of
                     Inl e \<Rightarrow> (Some (Inl e), connect_abort_all ts)
                   | Inr (None, ts) \<Rightarrow> (Some unavailable, ts)
                   | Inr (Some (tid, addr), ts) \<Rightarrow>
                       (case connector tid addr of
                          Connected s \<Rightarrow> (Some (Inr s), connect_abort_all ts)
                        | ConnectError e \<Rightarrow>
                            connect_first_successful connector deadline addrs rs next_index (Some e) ts
                        | ConnectPanicked \<Rightarrow>
                            connect_first_successful connector deadline addrs rs next_index (Some JoinFailed) ts))"

definition connect_socket_addrs ::
    "'s connector \<Rightarrow> instant option \<Rightarrow> dial_round list \<Rightarrow> socket_addr list \<Rightarrow>
     (open_failure + 's) option \<times> connect_tasks" where
  "connect_socket_addrs connector deadline rounds addrs =
     connect_first_successful connector deadline addrs rounds 0 None connect_tasks_new"

section \<open>Allowed targets\<close>

text \<open>What the dialer meets: the lookup, whether the deadline passes during it, the connector and the
  rounds of the dial loop. A run returns its result with the lookups made and the dial tasks it leaves.\<close>

record 's dial_world =
  dw_lookup :: lookup_fn
  dw_lookup_elapsed :: bool
  dw_connector :: "'s connector"
  dw_rounds :: "dial_round list"

definition with_target_connect_deadline ::
    "instant option \<Rightarrow> bool \<Rightarrow> open_failure + 'a \<Rightarrow> open_failure + 'a" where
  "with_target_connect_deadline deadline elapsed result =
     (if deadline \<noteq> None \<and> elapsed then Inl OF_TargetTimeout else result)"

definition connect_allowed_target_inner ::
    "'s dial_world \<Rightarrow> target \<Rightarrow> authenticated_identity \<Rightarrow> policy_set \<Rightarrow> instant option \<Rightarrow>
     (open_failure + 's) option \<times> (byte list \<times> u16) list \<times> connect_tasks" where
  "connect_allowed_target_inner w t identity ps deadline =
     (case pre_resolve_policy_check t identity ps of
        Inl e \<Rightarrow> (Some (Inl e), [], connect_tasks_new)
      | Inr _ \<Rightarrow>
          let (resolution, lookups) = resolve_target (dw_lookup w) t
          in case with_target_connect_deadline deadline (dw_lookup_elapsed w) resolution of
               Inl e \<Rightarrow> (Some (Inl e), lookups, connect_tasks_new)
             | Inr addrs \<Rightarrow>
                 if evaluate ps (policy_context_for t identity (resolved_ips t addrs)) \<noteq> Allow
                 then (Some (Inl OF_PolicyDenied), lookups, connect_tasks_new)
                 else let (result, ts) = connect_socket_addrs (dw_connector w) deadline (dw_rounds w) addrs
                      in (result, lookups, ts))"

text \<open>The UDP path differs in the connector only.\<close>

definition connect_allowed_udp_target_inner ::
    "'s dial_world \<Rightarrow> target \<Rightarrow> authenticated_identity \<Rightarrow> policy_set \<Rightarrow> instant option \<Rightarrow>
     (open_failure + 's) option \<times> (byte list \<times> u16) list \<times> connect_tasks" where
  "connect_allowed_udp_target_inner w t identity ps deadline =
     (case pre_resolve_policy_check t identity ps of
        Inl e \<Rightarrow> (Some (Inl e), [], connect_tasks_new)
      | Inr _ \<Rightarrow>
          let (resolution, lookups) = resolve_target (dw_lookup w) t
          in case with_target_connect_deadline deadline (dw_lookup_elapsed w) resolution of
               Inl e \<Rightarrow> (Some (Inl e), lookups, connect_tasks_new)
             | Inr addrs \<Rightarrow>
                 if evaluate ps (policy_context_for t identity (resolved_ips t addrs)) \<noteq> Allow
                 then (Some (Inl OF_PolicyDenied), lookups, connect_tasks_new)
                 else let (result, ts) = connect_socket_addrs (dw_connector w) deadline (dw_rounds w) addrs
                      in (result, lookups, ts))"

text \<open>\<open>checked_add\<close> gives no deadline when the sum is out of range.\<close>

definition target_connect_deadline :: "instant \<Rightarrow> nat \<Rightarrow> duration option \<Rightarrow> instant option" where
  "target_connect_deadline now latest timeout =
     (case timeout of
        None \<Rightarrow> None
      | Some d \<Rightarrow> if now + d \<le> latest then Some (now + d) else None)"

definition connect_allowed_target ::
    "'s dial_world \<Rightarrow> target \<Rightarrow> authenticated_identity \<Rightarrow> policy_set \<Rightarrow> instant \<Rightarrow> nat \<Rightarrow> duration option \<Rightarrow>
     (open_failure + 's) option \<times> (byte list \<times> u16) list \<times> connect_tasks" where
  "connect_allowed_target w t identity ps now latest timeout =
     connect_allowed_target_inner w t identity ps (target_connect_deadline now latest timeout)"

definition connect_allowed_udp_target ::
    "'s dial_world \<Rightarrow> target \<Rightarrow> authenticated_identity \<Rightarrow> policy_set \<Rightarrow> instant \<Rightarrow> nat \<Rightarrow> duration option \<Rightarrow>
     (open_failure + 's) option \<times> (byte list \<times> u16) list \<times> connect_tasks" where
  "connect_allowed_udp_target w t identity ps now latest timeout =
     connect_allowed_udp_target_inner w t identity ps (target_connect_deadline now latest timeout)"

section \<open>The dial loop keeps its books\<close>

fun connected :: "'s connect_outcome \<Rightarrow> bool" where
  "connected (Connected _) = True"
| "connected _ = False"

text \<open>Task ids count the dials, so the dial with id \<open>i\<close> goes to the \<open>i\<close>-th address; every dial that is no
  longer running has failed; and exactly the running dials hold a permit.\<close>

definition dial_inv :: "'s connector \<Rightarrow> socket_addr list \<Rightarrow> nat \<Rightarrow> connect_tasks \<Rightarrow> bool" where
  "dial_inv connector addrs n ts \<longleftrightarrow>
     n \<le> length addrs \<and> ct_next_id ts = n \<and> ct_dialed ts = take n addrs \<and>
     length (ct_tasks ts) \<le> TARGET_CONNECT_PARALLELISM \<and> distinct (map fst (ct_tasks ts)) \<and>
     (\<forall>(i, a) \<in> set (ct_tasks ts). i < n \<and> a = addrs ! i) \<and>
     hm_wf (ct_permits ts) \<and> hm_keys (ct_permits ts) = fst ` set (ct_tasks ts) \<and>
     (\<forall>i < n. i \<notin> fst ` set (ct_tasks ts) \<longrightarrow> \<not> connected (connector i (addrs ! i)))"

lemma dial_inv_new: "dial_inv connector addrs 0 connect_tasks_new"
  by (simp add: dial_inv_def connect_tasks_new_def)

lemma dial_inv_spawn:
  assumes "dial_inv connector addrs n ts" "n < length addrs" "length (ct_tasks ts) < TARGET_CONNECT_PARALLELISM"
  shows "dial_inv connector addrs (n + 1) (connect_spawn ts (addrs ! n))"
  using assms by (fastforce simp: dial_inv_def connect_spawn_def take_Suc_conv_app_nth hm.wf_insert hm.keys_insert less_Suc_eq)

lemma spawn_target_connects_inv:
  assumes "dial_inv connector addrs n ts" "spawn_target_connects addrs available n ts = (left, n', ts')"
  shows "dial_inv connector addrs n' ts' \<and> n \<le> n' \<and> n' - n + length (ct_tasks ts) = length (ct_tasks ts') \<and>
    (ct_tasks ts' = [] \<longrightarrow> n' = length addrs \<or> available = 0)"
  using assms
proof (induction addrs available n ts rule: spawn_target_connects.induct)
  case (1 addrs available n ts)
  show ?case
  proof (cases "n < length addrs \<and> length (ct_tasks ts) < TARGET_CONNECT_PARALLELISM \<and> available \<noteq> 0")
    case True
    with 1 have "dial_inv connector addrs n' ts' \<and> n + 1 \<le> n' \<and>
        n' - (n + 1) + length (ct_tasks (connect_spawn ts (addrs ! n))) = length (ct_tasks ts')"
      by (metis dial_inv_spawn spawn_target_connects.simps)
    then show ?thesis by (auto simp: connect_spawn_def)
  next
    case False
    with "1.prems" show ?thesis
      by (auto simp: spawn_target_connects.simps [of addrs available n ts] dial_inv_def TARGET_CONNECT_PARALLELISM_def
          split: if_splits)
  qed
qed

lemma connect_join_next_inv:
  assumes "dial_inv connector addrs n ts" "connect_join_next p ts = (Some (i, a), ts')"
    and "\<not> connected (connector i a)"
  shows "dial_inv connector addrs n ts'"
proof -
  define k where "k = p mod length (ct_tasks ts)"
  from assms(2) have k: "k < length (ct_tasks ts)" "ct_tasks ts ! k = (i, a)"
    and ts': "ts' = ts\<lparr>ct_tasks := take k (ct_tasks ts) @ drop (k + 1) (ct_tasks ts),
                  ct_permits := hm_remove i (ct_permits ts)\<rparr>"
    by (auto simp: connect_join_next_def k_def Let_def split: if_splits prod.splits)
  define xs ys where "xs = take k (ct_tasks ts)" and "ys = drop (k + 1) (ct_tasks ts)"
  have "ct_tasks ts = xs @ (i, a) # ys" "ct_tasks ts' = xs @ ys"
    using id_take_nth_drop [OF k(1)] k(2) by (simp_all add: ts' xs_def ys_def)
  with assms(1,3) ts' show ?thesis
    by (auto simp: dial_inv_def hm.wf_remove hm.keys_remove)
qed


lemma connect_join_next_task:
  assumes "dial_inv connector addrs n ts" "connect_join_next p ts = (Some (i, a), ts')"
  shows "i < n \<and> a = addrs ! i \<and> ct_dialed ts' = ct_dialed ts \<and> length (ct_tasks ts) = length (ct_tasks ts') + 1"
proof -
  define k where "k = p mod length (ct_tasks ts)"
  from assms(2) have k: "k < length (ct_tasks ts)" "ct_tasks ts ! k = (i, a)"
    and ts': "ts' = ts\<lparr>ct_tasks := take k (ct_tasks ts) @ drop (k + 1) (ct_tasks ts),
                  ct_permits := hm_remove i (ct_permits ts)\<rparr>"
    by (auto simp: connect_join_next_def k_def Let_def split: if_splits prod.splits)
  from nth_mem [OF k(1)] k(2) assms(1) have "i < n \<and> a = addrs ! i" by (auto simp: dial_inv_def)
  with k(1) show ?thesis by (simp add: ts')
qed

lemma connect_join_next_Some: "ct_tasks ts \<noteq> [] \<Longrightarrow> \<exists>i a ts'. connect_join_next p ts = (Some (i, a), ts')"
  by (auto simp: connect_join_next_def Let_def split: prod.splits)

lemma no_tasks_no_permits: "dial_inv connector addrs n ts \<Longrightarrow> ct_tasks ts = [] \<Longrightarrow> ct_permits ts = []"
  by (simp add: dial_inv_def hm_keys_def)

text \<open>What a finished run may return, given the number \<open>n\<close> of addresses dialed.\<close>

fun dial_result_ok ::
    "'s connector \<Rightarrow> instant option \<Rightarrow> socket_addr list \<Rightarrow> dial_round list \<Rightarrow> nat \<Rightarrow> open_failure + 's \<Rightarrow> bool" where
  "dial_result_ok connector deadline addrs rounds n (Inr s) \<longleftrightarrow>
     (\<exists>i < n. connector i (addrs ! i) = Connected s)"
| "dial_result_ok connector deadline addrs rounds n (Inl OF_PolicyDenied) \<longleftrightarrow> False"
| "dial_result_ok connector deadline addrs rounds n (Inl OF_TargetTimeout) \<longleftrightarrow> deadline \<noteq> None"
| "dial_result_ok connector deadline addrs rounds n (Inl OF_ResourceLimit) \<longleftrightarrow>
     n < length addrs \<and> (\<exists>r \<in> set rounds. dr_available r = 0) \<and> (\<forall>i < n. \<not> connected (connector i (addrs ! i)))"
| "dial_result_ok connector deadline addrs rounds n (Inl (OF_TargetUnavailable e)) \<longleftrightarrow>
     n = length addrs \<and> (\<forall>i < n. \<not> connected (connector i (addrs ! i)))"

lemma dial_result_ok_Cons:
  "dial_result_ok connector deadline addrs rs n r \<Longrightarrow> dial_result_ok connector deadline addrs (x # rs) n r"
  by (cases "(connector, deadline, addrs, rs, n, r)" rule: dial_result_ok.cases) auto

text \<open>One turn of the loop: it ends in a time-out, with no dial left to wait for, with a connection, or
  goes on with one dial fewer.\<close>

lemma dial_round_cases:
  fixes connector :: "'s connector"
  assumes "dial_inv connector addrs n ts"
  obtains
    (late) "deadline \<noteq> None"
      "connect_first_successful connector deadline addrs (x # rs) n err ts = (Some (Inl OF_TargetTimeout), connect_abort_all ts)"
  | (idle) n1 ts1 where "dial_inv connector addrs n1 ts1" "ct_tasks ts1 = []" "n1 = length addrs \<or> dr_available x = 0"
      "connect_first_successful connector deadline addrs (x # rs) n err ts =
        (Some (if n1 < length addrs then Inl OF_ResourceLimit else Inl (OF_TargetUnavailable
                 (case err of Some e \<Rightarrow> e | None \<Rightarrow> NoSocketAddresses))), ts1)"
  | (timeout) n1 ts1 where "dial_inv connector addrs n1 ts1" "deadline \<noteq> None"
      "connect_first_successful connector deadline addrs (x # rs) n err ts = (Some (Inl OF_TargetTimeout), connect_abort_all ts1)"
  | (won) n1 i s ts2 where "i < n1" "n1 \<le> length addrs" "connector i (addrs ! i) = Connected s" "ct_dialed ts2 = take n1 addrs"
      "connect_first_successful connector deadline addrs (x # rs) n err ts = (Some (Inr s), connect_abort_all ts2)"
  | (lost) n1 e ts2 where "dial_inv connector addrs n1 ts2"
      "length addrs - n1 + length (ct_tasks ts2) < length addrs - n + length (ct_tasks ts)"
      "connect_first_successful connector deadline addrs (x # rs) n err ts =
         connect_first_successful connector deadline addrs rs n1 (Some e) ts2"
proof -
  let ?late = "case deadline of Some t \<Rightarrow> t \<le> dr_now x | None \<Rightarrow> False"
  obtain l n1 ts1 where sp: "spawn_target_connects addrs (dr_available x) n ts = (l, n1, ts1)"
    by (cases "spawn_target_connects addrs (dr_available x) n ts") auto
  note inv = spawn_target_connects_inv [OF assms sp]
  then have n1: "n1 \<le> length addrs" "ct_dialed ts1 = take n1 addrs" by (auto simp: dial_inv_def)
  consider "?late" | "\<not> ?late" "ct_tasks ts1 = []"
    | "\<not> ?late" "ct_tasks ts1 \<noteq> []" "deadline \<noteq> None" "dr_elapsed x"
    | "\<not> ?late" "ct_tasks ts1 \<noteq> []" "\<not> (deadline \<noteq> None \<and> dr_elapsed x)" by blast
  then show thesis
  proof cases
    case 1
    then show thesis by (intro late) (auto split: option.splits)
  next
    case 2
    with inv sp show thesis by (intro idle [of n1 ts1]) auto
  next
    case 3
    with inv sp show thesis by (intro timeout [of n1 ts1]) (auto simp: join_next_connect_task_def)
  next
    case 4
    obtain i a ts2 where j: "connect_join_next (dr_position x) ts1 = (Some (i, a), ts2)"
      using connect_join_next_Some [OF 4(2)] by blast
    note t = connect_join_next_task [OF conjunct1 [OF inv] j]
    have run: "connect_first_successful connector deadline addrs (x # rs) n err ts =
       (case connector i a of
          Connected s \<Rightarrow> (Some (Inr s), connect_abort_all ts2)
        | ConnectError e \<Rightarrow> connect_first_successful connector deadline addrs rs n1 (Some e) ts2
        | ConnectPanicked \<Rightarrow> connect_first_successful connector deadline addrs rs n1 (Some JoinFailed) ts2)"
      using 4 sp j by (auto simp: join_next_connect_task_def)
    have m: "length addrs - n1 + length (ct_tasks ts2) < length addrs - n + length (ct_tasks ts)"
      using inv t n1 by linarith
    show thesis
      using connect_join_next_inv [OF conjunct1 [OF inv] j] run t n1 m
      by (cases "connector i a") (auto intro: won lost)
  qed
qed

lemma connect_first_successful_result:
  assumes "dial_inv connector addrs n ts"
    and "connect_first_successful connector deadline addrs rounds n err ts = (Some r, ts')"
  shows "\<exists>m. m \<le> length addrs \<and> ct_dialed ts' = take m addrs \<and> ct_tasks ts' = [] \<and> ct_permits ts' = [] \<and>
    dial_result_ok connector deadline addrs rounds m r"
  using assms
proof (induction rounds arbitrary: n err ts)
  case (Cons x rs)
  show ?case
  proof (rule dial_round_cases [OF Cons.prems(1), of deadline x rs err])
    assume "deadline \<noteq> None"
      "connect_first_successful connector deadline addrs (x # rs) n err ts = (Some (Inl OF_TargetTimeout), connect_abort_all ts)"
    with Cons.prems show ?thesis by (intro exI [of _ n]) (auto simp: dial_inv_def connect_abort_all_def)
  next
    fix n1 ts1
    assume i: "dial_inv connector addrs n1 ts1" "ct_tasks ts1 = []" "n1 = length addrs \<or> dr_available x = 0"
      "connect_first_successful connector deadline addrs (x # rs) n err ts =
        (Some (if n1 < length addrs then Inl OF_ResourceLimit else Inl (OF_TargetUnavailable
                 (case err of Some e \<Rightarrow> e | None \<Rightarrow> NoSocketAddresses))), ts1)"
    have "\<forall>i < n1. \<not> connected (connector i (addrs ! i))" using i(1,2) by (simp add: dial_inv_def)
    with i no_tasks_no_permits [OF i(1,2)] Cons.prems(2) show ?thesis
      by (intro exI [of _ n1]) (auto simp: dial_inv_def)
  next
    fix n1 ts1
    assume "dial_inv connector addrs n1 ts1" "deadline \<noteq> None"
      "connect_first_successful connector deadline addrs (x # rs) n err ts = (Some (Inl OF_TargetTimeout), connect_abort_all ts1)"
    with Cons.prems(2) show ?thesis by (intro exI [of _ n1]) (auto simp: dial_inv_def connect_abort_all_def)
  next
    fix n1 i s ts2
    assume "i < n1" "n1 \<le> length addrs" "connector i (addrs ! i) = Connected s" "ct_dialed ts2 = take n1 addrs"
      "connect_first_successful connector deadline addrs (x # rs) n err ts = (Some (Inr s), connect_abort_all ts2)"
    with Cons.prems(2) show ?thesis by (intro exI [of _ n1]) (auto simp: connect_abort_all_def)
  next
    fix n1 e ts2
    assume "dial_inv connector addrs n1 ts2"
      "connect_first_successful connector deadline addrs (x # rs) n err ts =
         connect_first_successful connector deadline addrs rs n1 (Some e) ts2"
    with Cons.IH [of n1 ts2 "Some e"] Cons.prems(2) show ?thesis by (auto intro: dial_result_ok_Cons)
  qed
qed simp

lemma connect_first_successful_returns:
  assumes "dial_inv connector addrs n ts" "length addrs - n + length (ct_tasks ts) < length rounds"
  shows "\<exists>r ts'. connect_first_successful connector deadline addrs rounds n err ts = (Some r, ts')"
  using assms
proof (induction rounds arbitrary: n err ts)
  case (Cons x rs)
  show ?case
    by (rule dial_round_cases [OF Cons.prems(1), of deadline x rs err])
      (use Cons.IH Cons.prems(2) in \<open>auto simp del: connect_first_successful.simps\<close>)
qed simp

lemma connect_first_successful_dialed:
  assumes "dial_inv connector addrs n ts"
    and "connect_first_successful connector deadline addrs rounds n err ts = (r, ts')"
  shows "set (ct_dialed ts') \<subseteq> set addrs"
  using assms
proof (induction rounds arbitrary: n err ts)
  case Nil
  then show ?case by (auto simp: dial_inv_def dest: in_set_takeD)
next
  case (Cons x rs)
  show ?case
    by (rule dial_round_cases [OF Cons.prems(1), of deadline x rs err])
      (use Cons.IH Cons.prems in \<open>auto simp: dial_inv_def connect_abort_all_def dest: in_set_takeD
         simp del: connect_first_successful.simps\<close>)
qed

section \<open>Only allowed addresses are dialed\<close>

lemma udp_target_inner: "connect_allowed_udp_target_inner = connect_allowed_target_inner"
  by (simp add: fun_eq_iff connect_allowed_udp_target_inner_def connect_allowed_target_inner_def)

lemma udp_target: "connect_allowed_udp_target = connect_allowed_target"
  by (simp add: fun_eq_iff connect_allowed_udp_target_def connect_allowed_target_def udp_target_inner)

lemma resolve_target_ips:
  assumes "resolve_target lookup t = (Inr addrs, lookups)" "a \<in> set addrs"
  shows "sa_ip a \<in> set (ctx_ips (policy_context_for t identity (resolved_ips t addrs)))"
  using assms by (cases t) (auto simp: policy_context_for_def)

lemma connect_socket_addrs_dialed:
  "connect_socket_addrs connector deadline rounds addrs = (r, ts) \<Longrightarrow> set (ct_dialed ts) \<subseteq> set addrs"
  unfolding connect_socket_addrs_def by (rule connect_first_successful_dialed [OF dial_inv_new])

lemma connect_target_dialed:
  assumes "connect_allowed_target_inner w t identity ps deadline = (r, lookups, ts)" "a \<in> set (ct_dialed ts)"
  shows "\<exists>addrs. resolve_target (dw_lookup w) t = (Inr addrs, lookups) \<and> a \<in> set addrs \<and>
    evaluate ps (policy_context_for t identity (resolved_ips t addrs)) = Allow"
  using assms connect_socket_addrs_dialed [of "dw_connector w" deadline "dw_rounds w"]
  by (fastforce simp: connect_allowed_target_inner_def with_target_connect_deadline_def connect_tasks_new_def Let_def
      split: sum.splits prod.splits if_splits)

lemma connect_target_denied:
  assumes "evaluate_pre_resolve ps (policy_context_for t identity []) = DeniedWithoutResolution"
  shows "connect_allowed_target_inner w t identity ps deadline = (Some (Inl OF_PolicyDenied), [], connect_tasks_new)"
  using assms by (simp add: connect_allowed_target_inner_def pre_resolve_policy_check_def)

lemma dialed_address_allowed:
  assumes "(r, lookups, ts) = connect_allowed_target w t identity ps now latest timeout \<or>
    (r, lookups, ts) = connect_allowed_udp_target w t identity ps now latest timeout" "a \<in> set (ct_dialed ts)"
  shows "\<not> is_metadata_service_ip (sa_ip a) \<and> (is_private (sa_ip a) \<longrightarrow> has_unrestricted_private_allow ps) \<and>
    (\<exists>addrs. a \<in> set addrs \<and> evaluate ps (policy_context_for t identity (resolved_ips t addrs)) = Allow)"
proof -
  have run: "connect_allowed_target_inner w t identity ps (target_connect_deadline now latest timeout) = (r, lookups, ts)"
    using assms(1) by (auto simp: udp_target connect_allowed_target_def)
  obtain addrs where *: "resolve_target (dw_lookup w) t = (Inr addrs, lookups)" "a \<in> set addrs"
    "evaluate ps (policy_context_for t identity (resolved_ips t addrs)) = Allow"
    using connect_target_dialed [OF run assms(2)] by blast
  with evaluate_Allow_addresses [OF *(3)] resolve_target_ips [OF *(1,2), of identity] show ?thesis
    by (auto simp: list_all_iff list_ex_iff)
qed


definition sample_addr :: socket_addr where
  "sample_addr = \<lparr>sa_ip = V4 0x08080808, sa_port = 81\<rparr>"

definition sample_world :: "nat dial_world" where
  "sample_world = \<lparr>dw_lookup = \<lambda>_ _. Inr [sample_addr], dw_lookup_elapsed = False, dw_connector = \<lambda>i _. Connected i,
     dw_rounds = [\<lparr>dr_now = 0, dr_available = 1, dr_elapsed = False, dr_position = 0\<rparr>]\<rparr>"

definition sample_identity :: authenticated_identity where
  "sample_identity = \<lparr>ai_key_id = [1], ai_policy_group = None\<rparr>"

lemma sample_dial:
  "connect_allowed_target sample_world (Domain [0x61] 81) sample_identity sample_rules 0 0 None =
     (Some (Inr 0), [([0x61], 81)], \<lparr>ct_tasks = [], ct_permits = [], ct_next_id = 1, ct_dialed = [sample_addr]\<rparr>)"
  by code_simp




end
