(* ===== verification/Security_State.thy ===== *)
theory Security_State
  imports Policy Auth Mask_Prelude
begin

text \<open>
  \<open>crates/uk-server/src/security.rs\<close>: the reloadable security material of the server. One generation
  holds the TLS acceptor, the credentials, the masking keys, the policy and the clock skew; a reload
  replaces the whole generation. The TLS acceptor is a value of a third-party type and stays abstract.
\<close>

definition INITIAL_GENERATION :: u64 where "INITIAL_GENERATION = 1"

record 'tls security_generation =
  sg_generation :: u64
  sg_tls_acceptor :: 'tls
  sg_credentials :: "credential list"
  sg_mask_keys :: "mask_keys list"
  sg_policy_set :: policy_set
  sg_auth_skew :: duration

record 'tls security_state =
  ss_current :: "'tls security_generation"
  ss_next_generation :: u64

record 'tls authentication_snapshot =
  as_generation :: u64
  as_tls_acceptor :: 'tls
  as_credentials :: "credential list"
  as_mask_keys :: "mask_keys list"
  as_auth_skew :: duration

record policy_snapshot =
  pn_generation :: u64
  pn_policy_set :: policy_set

definition security_state_new ::
    "'tls \<Rightarrow> credential list \<Rightarrow> mask_keys list \<Rightarrow> policy_set \<Rightarrow> duration \<Rightarrow> 'tls security_state" where
  "security_state_new tls credentials mask_keys policy_set auth_skew =
     \<lparr>ss_current = \<lparr>sg_generation = INITIAL_GENERATION, sg_tls_acceptor = tls, sg_credentials = credentials,
        sg_mask_keys = mask_keys, sg_policy_set = policy_set, sg_auth_skew = auth_skew\<rparr>,
      ss_next_generation = INITIAL_GENERATION + 1\<rparr>"

definition generation :: "'tls security_state \<Rightarrow> u64" where
  "generation s = sg_generation (ss_current s)"

definition take_authentication_snapshot :: "'tls security_state \<Rightarrow> 'tls authentication_snapshot" where
  "take_authentication_snapshot s =
     (let g = ss_current s
      in \<lparr>as_generation = sg_generation g, as_tls_acceptor = sg_tls_acceptor g, as_credentials = sg_credentials g,
          as_mask_keys = sg_mask_keys g, as_auth_skew = sg_auth_skew g\<rparr>)"

definition take_policy_snapshot ::
    "'tls security_state \<Rightarrow> authenticated_identity \<Rightarrow> u64 \<Rightarrow> policy_snapshot option" where
  "take_policy_snapshot s identity now =
     (let g = ss_current s
      in case find (\<lambda>c. cr_key_id c = ai_key_id identity \<and> cr_policy_group c = ai_policy_group identity \<and>
                        is_active_at c now) (sg_credentials g) of
           None \<Rightarrow> None
         | Some _ \<Rightarrow> Some \<lparr>pn_generation = sg_generation g, pn_policy_set = sg_policy_set g\<rparr>)"

definition security_replace ::
    "'tls security_state \<Rightarrow> 'tls \<Rightarrow> credential list \<Rightarrow> mask_keys list \<Rightarrow> policy_set \<Rightarrow> duration \<Rightarrow>
     u64 \<times> 'tls security_state" where
  "security_replace s tls credentials mask_keys policy_set auth_skew =
     (ss_next_generation s,
      \<lparr>ss_current = \<lparr>sg_generation = ss_next_generation s, sg_tls_acceptor = tls, sg_credentials = credentials,
         sg_mask_keys = mask_keys, sg_policy_set = policy_set, sg_auth_skew = auth_skew\<rparr>,
       ss_next_generation = ss_next_generation s + 1\<rparr>)"


section \<open>Reloads\<close>

lemma take_policy_snapshot_iff:
  "take_policy_snapshot s identity now = Some p \<longleftrightarrow>
     (\<exists>c \<in> set (sg_credentials (ss_current s)). identity_from c = identity \<and> is_active_at c now) \<and>
     p = \<lparr>pn_generation = generation s, pn_policy_set = sg_policy_set (ss_current s)\<rparr>"
proof -
  define P where "P c \<longleftrightarrow> identity_from c = identity \<and> is_active_at c now" for c
  define cs where "cs = sg_credentials (ss_current s)"
  have P: "(\<lambda>c. cr_key_id c = ai_key_id identity \<and> cr_policy_group c = ai_policy_group identity \<and> is_active_at c now) = P"
    by (cases identity) (auto simp: P_def identity_from_def fun_eq_iff)
  have "find P cs = None \<longleftrightarrow> \<not> (\<exists>c \<in> set cs. P c)" by (auto simp: find_None_iff)
  then show ?thesis
    unfolding take_policy_snapshot_def P Let_def cs_def [symmetric] P_def [symmetric]
    by (cases "find P cs") (auto simp: generation_def)
qed

record 'tls reload =
  rd_tls :: 'tls
  rd_credentials :: "credential list"
  rd_mask_keys :: "mask_keys list"
  rd_policy_set :: policy_set
  rd_auth_skew :: duration

definition apply_reload :: "'tls security_state \<Rightarrow> 'tls reload \<Rightarrow> 'tls security_state" where
  "apply_reload s r =
     snd (security_replace s (rd_tls r) (rd_credentials r) (rd_mask_keys r) (rd_policy_set r) (rd_auth_skew r))"

lemma reloads_next_generation:
  "ss_next_generation (foldl apply_reload s rs) = ss_next_generation s + of_nat (length rs)"
  by (induction rs arbitrary: s) (simp_all add: apply_reload_def security_replace_def algebra_simps)

lemma reloads_last:
  assumes "rs \<noteq> []"
  shows "ss_current (foldl apply_reload s rs) =
    \<lparr>sg_generation = ss_next_generation s + of_nat (length rs - 1), sg_tls_acceptor = rd_tls (last rs),
     sg_credentials = rd_credentials (last rs), sg_mask_keys = rd_mask_keys (last rs),
     sg_policy_set = rd_policy_set (last rs), sg_auth_skew = rd_auth_skew (last rs)\<rparr>"
proof -
  obtain r ys where rs: "rs = ys @ [r]" using assms by (cases rs rule: rev_cases) auto
  with reloads_next_generation [of s ys] show ?thesis
    by (simp add: apply_reload_def security_replace_def)
qed

text \<open>C36: a reload takes effect at once and as a whole. After any reloads an authenticated identity is
  given a policy exactly when the credentials of the last reload still hold its key in its policy
  group, active at that time, and the policy is that of the last reload; the material new connections
  authenticate against is that of the same generation, whose number no earlier generation had.\<close>

theorem reload_takes_effect:
  assumes "s = foldl apply_reload (security_state_new tls credentials keys policy skew) rs" "rs \<noteq> []" "length rs < 2 ^ 63"
  shows "(take_policy_snapshot s identity now = Some p \<longleftrightarrow>
      (\<exists>c \<in> set (rd_credentials (last rs)). identity_from c = identity \<and> is_active_at c now) \<and>
      p = \<lparr>pn_generation = of_nat (length rs) + 1, pn_policy_set = rd_policy_set (last rs)\<rparr>) \<and>
    take_authentication_snapshot s = \<lparr>as_generation = of_nat (length rs) + 1, as_tls_acceptor = rd_tls (last rs),
      as_credentials = rd_credentials (last rs), as_mask_keys = rd_mask_keys (last rs), as_auth_skew = rd_auth_skew (last rs)\<rparr> \<and>
    (\<forall>n < length rs. generation (foldl apply_reload (security_state_new tls credentials keys policy skew) (take n rs)) <
      generation s)"
proof -
  let ?new = "security_state_new tls credentials keys policy skew"
  have gen: "generation (foldl apply_reload ?new xs) = of_nat (length xs) + 1" for xs
    by (cases "xs = []") (simp_all add: generation_def security_state_new_def INITIAL_GENERATION_def reloads_last of_nat_diff
        Suc_leI)
  have "generation (foldl apply_reload ?new (take n rs)) < generation s" if "n < length rs" for n
    using that assms(3) unfolding assms(1) gen
    by (simp add: min_absorb2 word_less_nat_alt unat_word_ariths unat_of_nat)
  with gen [of rs] reloads_last [OF assms(2), of ?new] show ?thesis
    by (auto simp: take_policy_snapshot_iff take_authentication_snapshot_def assms(1) generation_def Let_def)
qed


definition sample_reload :: "unit reload" where
  "sample_reload = \<lparr>rd_tls = (), rd_credentials = [\<lparr>cr_key_id = [1], cr_secret = [2], cr_status = CS_Active,
     cr_not_before = None, cr_not_after = None, cr_policy_group = None\<rparr>], rd_mask_keys = [],
     rd_policy_set = \<lparr>ps_rules = [policy_rule_new Allow]\<rparr>, rd_auth_skew = 0\<rparr>"

theorem reload_takes_effect_witness:
  "take_policy_snapshot (foldl apply_reload (security_state_new () [] [] \<lparr>ps_rules = []\<rparr> 0) [sample_reload])
      \<lparr>ai_key_id = [1], ai_policy_group = None\<rparr> 5 =
    Some \<lparr>pn_generation = 2, pn_policy_set = \<lparr>ps_rules = [policy_rule_new Allow]\<rparr>\<rparr>"
  using reload_takes_effect [OF refl, of "[sample_reload]" "()" "[]" "[]" "\<lparr>ps_rules = []\<rparr>" 0
      "\<lparr>ai_key_id = [1], ai_policy_group = None\<rparr>" 5
      "\<lparr>pn_generation = 2, pn_policy_set = \<lparr>ps_rules = [policy_rule_new Allow]\<rparr>\<rparr>"]
  by (simp add: sample_reload_def identity_from_def is_active_at_def UNREADABLE_CLOCK_def)

end
