(* ===== verification/Relay_Context.thy ===== *)
theory Relay_Context
  imports Frame_Io Relay_Payloads Relay_Budget Dialer Security_State
begin

text \<open>
  \<open>crates/uk-server/src/relay/context.rs\<close> and the carrier writes of \<open>session.rs\<close>: the state of one relay
  session and the operations on its flows.

  The session loop owns the flow table. What it shares with the tasks it spawns is kept outside the
  table and found by the token of the flow: its flags and the queue of commands to its target writer
  (\<open>flow_control\<close>), the byte budgets, and the cancellation of open attempts. Spawned tasks are recorded
  in the order of their creation. A carrier write succeeds, fails, or stalls past its deadline as the
  script \<open>se_writes\<close> says; writes succeed once the script is used up. A failing \<open>debug_assert\<close> is
  recorded in \<open>se_assert_failed\<close>. The outside world is recorded as well: the frames and datagrams sent on
  the carrier, the bytes and the end of stream each target received, the datagrams sent to targets and
  the addresses dialed; \<open>se_enqueued\<close> keeps all data that was ever queued for a flow.
\<close>

section \<open>Types\<close>

definition RELAY_BUFFER_SIZE :: nat where "RELAY_BUFFER_SIZE = 16 * 1024"
definition TARGET_WRITE_QUEUE_MIN_CAPACITY :: nat where "TARGET_WRITE_QUEUE_MIN_CAPACITY = 64"
definition TARGET_WRITE_QUEUE_MAX_CAPACITY :: nat where "TARGET_WRITE_QUEUE_MAX_CAPACITY = 8192"
definition TARGET_WRITE_QUEUE_NOMINAL_FRAME_BYTES :: nat where "TARGET_WRITE_QUEUE_NOMINAL_FRAME_BYTES = 1024"
definition SESSION_EVENT_QUEUE_BASE_CAPACITY :: nat where "SESSION_EVENT_QUEUE_BASE_CAPACITY = 64"
definition SESSION_EVENT_QUEUE_PER_FLOW_CAPACITY :: nat where "SESSION_EVENT_QUEUE_PER_FLOW_CAPACITY = 4"
definition SESSION_EVENT_QUEUE_MAX_CAPACITY :: nat where "SESSION_EVENT_QUEUE_MAX_CAPACITY = 4096"
definition UDP_TARGET_BUFFER_SIZE :: nat where "UDP_TARGET_BUFFER_SIZE = 65536"

record relay_limits =
  lm_frame :: frame_limits
  lm_max_streams :: u64
  lm_max_udp_flows :: u64
  lm_max_outbound_dials :: nat
  lm_data_frame_size :: nat
  lm_session_bytes :: nat
  lm_flow_bytes :: nat
  lm_connect_timeout :: "duration option"
  lm_half_close_timeout :: "duration option"
  lm_write_timeout :: "duration option"
  lm_udp_idle_timeout :: "duration option"
  lm_task_shutdown_timeout :: "duration option"

record relay_limit_config =
  lc_frame :: frame_limits
  lc_max_streams :: u64
  lc_max_udp_flows :: u64
  lc_max_outbound_dials :: nat
  lc_session_bytes :: nat
  lc_flow_bytes :: nat
  lc_connect_timeout :: "duration option"
  lc_half_close_timeout :: "duration option"
  lc_write_timeout :: "duration option"
  lc_udp_idle_timeout :: "duration option"
  lc_task_shutdown_timeout :: "duration option"
  lc_relay_buffer_size :: "nat option"

definition tcp_data_frame_size :: "frame_limits \<Rightarrow> nat option \<Rightarrow> nat" where
  "tcp_data_frame_size limits relay_buffer_size =
     (let buf_size = (case relay_buffer_size of Some n \<Rightarrow> n | None \<Rightarrow> RELAY_BUFFER_SIZE)
      in min (unat (max_frame_size limits)) buf_size)"

definition relay_limits_new :: "relay_limit_config \<Rightarrow> relay_limits" where
  "relay_limits_new c =
     \<lparr>lm_frame = lc_frame c, lm_max_streams = lc_max_streams c, lm_max_udp_flows = lc_max_udp_flows c,
      lm_max_outbound_dials = lc_max_outbound_dials c,
      lm_data_frame_size = tcp_data_frame_size (lc_frame c) (lc_relay_buffer_size c),
      lm_session_bytes = lc_session_bytes c, lm_flow_bytes = lc_flow_bytes c,
      lm_connect_timeout = lc_connect_timeout c, lm_half_close_timeout = lc_half_close_timeout c,
      lm_write_timeout = lc_write_timeout c, lm_udp_idle_timeout = lc_udp_idle_timeout c,
      lm_task_shutdown_timeout = lc_task_shutdown_timeout c\<rparr>"

definition target_write_queue_capacity :: "nat \<Rightarrow> nat" where
  "target_write_queue_capacity max_buffered_bytes_per_flow =
     max TARGET_WRITE_QUEUE_MIN_CAPACITY (min TARGET_WRITE_QUEUE_MAX_CAPACITY
       (max_buffered_bytes_per_flow div TARGET_WRITE_QUEUE_NOMINAL_FRAME_BYTES))"

datatype server_session_state = Authenticated | Relaying | Draining | Closing | Closed

datatype half_close_side = TargetToClient | ClientToTarget

datatype session_task =
    TcpOpenTask u64 u64 target policy_set
  | UdpOpenTask u64 u64 target policy_set
  | TargetReaderTask u64 u64
  | TargetWriterTask u64 u64
  | UdpReaderTask u64 u64
  | DatagramReaderTask
  | HalfCloseTimerTask u64 u64 half_close_side duration

datatype flow_event =
    OpenCompleted u64 u64 target "open_failure + unit"
  | UdpOpenCompleted u64 u64 target "open_failure + unit"
  | ReadClosed u64 u64
  | UdpReadClosed u64 u64
  | UdpActivity u64
  | InboundDatagram u64 "byte list"
  | HalfCloseDrainExpired u64 u64 half_close_side
  | WriteClosed u64 u64
  | Activity

text \<open>How far a task has come: it runs its loop, it writes a datum it took from the queue (in the final
  drain of the queue or before), it drains the queue, it waits to send its event, it has ended.\<close>

datatype task_state = TaskRunning | TaskWriting bool | TaskDraining | TaskSending flow_event | TaskDone

datatype target_command = CmdData "byte list" | CmdClose

datatype enqueue_error = EnqueueClosed | EnqueueResourceLimit

record flow_control =
  fc_closed :: bool
  fc_aborted :: bool
  fc_queue :: "target_command list"
  fc_writing :: "byte list option"
  fc_receiver :: bool
  fc_sender :: bool

definition flow_control_new :: flow_control where
  "flow_control_new = \<lparr>fc_closed = False, fc_aborted = False, fc_queue = [], fc_writing = None, fc_receiver = True, fc_sender = True\<rparr>"

text \<open>A flow permit is named by the token of the open attempt it was acquired for.\<close>

record open_flow_cancel =
  oc_token :: u64
  oc_permit :: "u64 option"

record target_flow =
  tf_token :: u64
  tf_commands :: bool
  tf_target_to_client_open :: bool
  tf_client_to_target_open :: bool
  tf_target_write_open :: bool
  tf_half_close_timer :: "nat option"
  tf_flow_permit :: "u64 option"

record udp_target_flow =
  uf_token :: u64
  uf_last_activity :: instant
  uf_flow_permit :: "u64 option"

datatype flow_slot = OpeningTcp open_flow_cancel | OpeningUdp open_flow_cancel | TcpFlow target_flow | UdpFlow udp_target_flow

datatype write_outcome = WriteOk | WriteFailed | WriteStalled

datatype session_error = SE_Protocol protocol_error | SE_Io | SE_WriteTimeout | SE_Shutdown | SE_CarrierUnusable
  | SE_FrameIo frame_io_error | SE_Message string

record session =
  se_flows :: "(u64, flow_slot) hash_map"
  se_controls :: "u64 \<Rightarrow> flow_control"
  se_cancelled :: "u64 set"
  se_state :: server_session_state
  se_settings_received :: bool
  se_next_token :: u64
  se_budgets :: budgets
  se_shutdown :: bool
  se_out :: "frame list"
  se_writes :: "write_outcome list"
  se_tasks :: "session_task list"
  se_task_states :: "nat \<Rightarrow> task_state"
  se_aborted_tasks :: "nat set"
  se_events :: "flow_event list"
  se_enqueued :: "u64 \<Rightarrow> byte list"
  se_delivered :: "u64 \<Rightarrow> byte list"
  se_target_eof :: "u64 set"
  se_datagrams :: "byte list list"
  se_dialed :: "(target \<times> policy_set \<times> socket_addr) list"
  se_udp_sent :: "(u64 \<times> byte list) list"
  se_assert_failed :: bool

type_synonym 'a relay = "session \<Rightarrow> (session_error + 'a) \<times> session"

text \<open>What stays the same during a session, and what the loop meets when it handles one event.\<close>

record relay_context =
  cx_session :: nat
  cx_identity :: authenticated_identity
  cx_limits :: relay_limits
  cx_global_bytes :: nat
  cx_datagrams :: bool
  cx_latest :: instant

datatype udp_send = UdpSent | UdpWouldBlock | UdpSendError

record 'tls session_env =
  en_security :: "'tls security_state"
  en_unix_now :: u64
  en_now :: instant
  en_shutdown_requested :: bool
  en_flow_permit :: bool
  en_udp_send :: udp_send
  en_order :: "u64 list \<Rightarrow> u64 list"

section \<open>Session state\<close>

fun is_valid_session_transition :: "server_session_state \<Rightarrow> server_session_state \<Rightarrow> bool" where
  "is_valid_session_transition Authenticated nx \<longleftrightarrow> nx = Relaying"
| "is_valid_session_transition Relaying nx \<longleftrightarrow> nx = Draining \<or> nx = Closing \<or> nx = Closed"
| "is_valid_session_transition Draining nx \<longleftrightarrow> nx = Closing \<or> nx = Closed"
| "is_valid_session_transition Closing nx \<longleftrightarrow> nx = Closed"
| "is_valid_session_transition Closed nx \<longleftrightarrow> False"

definition transition :: "server_session_state \<Rightarrow> session \<Rightarrow> session" where
  "transition nx s =
     s\<lparr>se_state := nx,
       se_assert_failed := (se_assert_failed s \<or> \<not> is_valid_session_transition (se_state s) nx)\<rparr>"

definition next_token :: "session \<Rightarrow> u64 \<times> session" where
  "next_token s = (se_next_token s, s\<lparr>se_next_token := se_next_token s + 1\<rparr>)"

definition spawn_task :: "session_task \<Rightarrow> session \<Rightarrow> nat \<times> session" where
  "spawn_task t s = (length (se_tasks s), s\<lparr>se_tasks := se_tasks s @ [t]\<rparr>)"

definition abort_task :: "nat \<Rightarrow> session \<Rightarrow> session" where
  "abort_task h s = s\<lparr>se_aborted_tasks := insert h (se_aborted_tasks s)\<rparr>"

definition shutdown_close :: "session \<Rightarrow> session" where
  "shutdown_close s = s\<lparr>se_shutdown := True\<rparr>"

definition cancel_open :: "u64 \<Rightarrow> session \<Rightarrow> session" where
  "cancel_open token s = s\<lparr>se_cancelled := insert token (se_cancelled s)\<rparr>"

definition update_control :: "u64 \<Rightarrow> (flow_control \<Rightarrow> flow_control) \<Rightarrow> session \<Rightarrow> session" where
  "update_control token g s = s\<lparr>se_controls := (se_controls s)(token := g (se_controls s token))\<rparr>"

definition control_close :: "u64 \<Rightarrow> session \<Rightarrow> session" where
  "control_close token = update_control token (\<lambda>c. c\<lparr>fc_closed := True\<rparr>)"

definition control_abort :: "u64 \<Rightarrow> session \<Rightarrow> session" where
  "control_abort token = update_control token (\<lambda>c. c\<lparr>fc_aborted := True, fc_closed := True\<rparr>)"

definition set_slot :: "u64 \<Rightarrow> flow_slot \<Rightarrow> session \<Rightarrow> session" where
  "set_slot flow_id slot s = s\<lparr>se_flows := hm_insert flow_id slot (se_flows s)\<rparr>"

section \<open>Target flows\<close>

definition target_flow_new :: "u64 \<Rightarrow> u64 option \<Rightarrow> target_flow" where
  "target_flow_new token permit =
     \<lparr>tf_token = token, tf_commands = True, tf_target_to_client_open = True, tf_client_to_target_open = True,
      tf_target_write_open = True, tf_half_close_timer = None, tf_flow_permit = permit\<rparr>"

definition udp_target_flow_new :: "u64 \<Rightarrow> instant \<Rightarrow> u64 option \<Rightarrow> udp_target_flow" where
  "udp_target_flow_new token now permit = \<lparr>uf_token = token, uf_last_activity = now, uf_flow_permit = permit\<rparr>"

definition set_half_close_timer :: "nat \<Rightarrow> target_flow \<times> session \<Rightarrow> target_flow \<times> session" where
  "set_half_close_timer h fs =
     (case fs of (f, s) \<Rightarrow>
        (f\<lparr>tf_half_close_timer := Some h\<rparr>,
         case tf_half_close_timer f of Some old \<Rightarrow> abort_task old s | None \<Rightarrow> s))"

definition cancel_half_close_timer :: "target_flow \<times> session \<Rightarrow> target_flow \<times> session" where
  "cancel_half_close_timer fs =
     (case fs of (f, s) \<Rightarrow>
        (f\<lparr>tf_half_close_timer := None\<rparr>,
         case tf_half_close_timer f of Some h \<Rightarrow> abort_task h s | None \<Rightarrow> s))"

text \<open>\<open>mpsc::Sender::try_send\<close> on the bounded queue of a flow.\<close>

datatype try_send = SendOk | SendClosed | SendFull

definition try_send_command :: "relay_context \<Rightarrow> u64 \<Rightarrow> target_command \<Rightarrow> session \<Rightarrow> try_send \<times> session" where
  "try_send_command cx token cmd s =
     (let c = se_controls s token
      in if \<not> fc_receiver c then (SendClosed, s)
         else if target_write_queue_capacity (lm_flow_bytes (cx_limits cx)) \<le> length (fc_queue c) then (SendFull, s)
         else (SendOk, update_control token (\<lambda>c. c\<lparr>fc_queue := fc_queue c @ [cmd]\<rparr>) s))"

definition drop_sender :: "u64 \<Rightarrow> session \<Rightarrow> session" where
  "drop_sender token = update_control token (\<lambda>c. c\<lparr>fc_sender := False\<rparr>)"

definition close_client_to_target_queue :: "relay_context \<Rightarrow> target_flow \<times> session \<Rightarrow> target_flow \<times> session" where
  "close_client_to_target_queue cx fs =
     (case fs of (f, s) \<Rightarrow>
        let s = control_close (tf_token f) s
        in if \<not> tf_commands f then (f, s)
           else case try_send_command cx (tf_token f) CmdClose s of
                  (SendOk, s) \<Rightarrow> (f, s)
                | (_, s) \<Rightarrow> (f\<lparr>tf_commands := False\<rparr>, drop_sender (tf_token f) s))"

definition close_client_to_target :: "relay_context \<Rightarrow> target_flow \<times> session \<Rightarrow> target_flow \<times> session" where
  "close_client_to_target cx fs =
     (case fs of (f, s) \<Rightarrow>
        if tf_client_to_target_open f
        then close_client_to_target_queue cx (f\<lparr>tf_client_to_target_open := False\<rparr>, s)
        else (f, s))"

definition flow_abort :: "relay_context \<Rightarrow> target_flow \<times> session \<Rightarrow> target_flow \<times> session" where
  "flow_abort cx fs =
     (case cancel_half_close_timer fs of (f, s) \<Rightarrow>
        close_client_to_target_queue cx
          (f\<lparr>tf_target_to_client_open := False, tf_client_to_target_open := False, tf_target_write_open := False\<rparr>,
           control_abort (tf_token f) s))"

definition mark_target_to_client_closed :: "target_flow \<Rightarrow> target_flow" where
  "mark_target_to_client_closed f = f\<lparr>tf_target_to_client_open := False\<rparr>"

definition mark_client_to_target_closed :: "target_flow \<times> session \<Rightarrow> target_flow \<times> session" where
  "mark_client_to_target_closed fs =
     (case fs of (f, s) \<Rightarrow> (f\<lparr>tf_client_to_target_open := False\<rparr>, control_close (tf_token f) s))"

definition mark_target_write_closed :: "target_flow \<times> session \<Rightarrow> target_flow \<times> session" where
  "mark_target_write_closed fs =
     (case fs of (f, s) \<Rightarrow>
        (f\<lparr>tf_client_to_target_open := False, tf_target_write_open := False\<rparr>, control_close (tf_token f) s))"

definition is_removable :: "target_flow \<Rightarrow> bool" where
  "is_removable f \<longleftrightarrow> \<not> tf_target_to_client_open f \<and> \<not> tf_client_to_target_open f \<and> \<not> tf_target_write_open f"

definition is_fully_closed :: "target_flow \<Rightarrow> bool" where
  "is_fully_closed f \<longleftrightarrow> \<not> tf_target_to_client_open f \<and> \<not> tf_client_to_target_open f"

definition budget_limits_of :: "relay_context \<Rightarrow> budget_limits" where
  "budget_limits_of cx =
     \<lparr>bl_flow = lm_flow_bytes (cx_limits cx), bl_session = lm_session_bytes (cx_limits cx), bl_global = cx_global_bytes cx\<rparr>"

definition budget_key :: "relay_context \<Rightarrow> u64 \<Rightarrow> nat \<times> nat" where
  "budget_key cx token = (cx_session cx, unat token)"

text \<open>\<open>TargetFlow::enqueue_data\<close>. A datum that is not queued is dropped, which returns its bytes.\<close>

definition enqueue_data ::
    "relay_context \<Rightarrow> byte list \<Rightarrow> target_flow \<times> session \<Rightarrow> (enqueue_error + unit) \<times> target_flow \<times> session" where
  "enqueue_data cx payload fs =
     (case fs of (f, s) \<Rightarrow>
        let token = tf_token f; key = budget_key cx token; n = length payload
        in if fc_closed (se_controls s token) then (Inl EnqueueClosed, f, s)
           else case control_reserve_bytes (budget_limits_of cx) key n (se_budgets s) of
                  (False, bg) \<Rightarrow>
                    (Inl EnqueueResourceLimit, close_client_to_target_queue cx (f, s\<lparr>se_budgets := bg\<rparr>))
                | (True, bg) \<Rightarrow>
                    let held = s\<lparr>se_budgets := bg\<rparr>; dropped = s\<lparr>se_budgets := control_release_bytes key n bg\<rparr>
                    in if \<not> tf_commands f then (Inl EnqueueClosed, f, dropped)
                       else case try_send_command cx token (CmdData payload) held of
                              (SendOk, s) \<Rightarrow>
                                (Inr (), f, s\<lparr>se_enqueued := (se_enqueued s)(token := se_enqueued s token @ payload)\<rparr>)
                            | (SendClosed, _) \<Rightarrow> (Inl EnqueueClosed, f, dropped)
                            | (SendFull, _) \<Rightarrow>
                                (Inl EnqueueResourceLimit, close_client_to_target_queue cx (f, dropped)))"

section \<open>Slots\<close>

text \<open>The destructors: a target flow that is dropped while a direction is open aborts, and its command
  sender goes with it; a UDP flow aborts.\<close>

fun drop_slot :: "flow_slot \<Rightarrow> session \<Rightarrow> session" where
  "drop_slot (OpeningTcp c) s = s"
| "drop_slot (OpeningUdp c) s = s"
| "drop_slot (TcpFlow f) s =
     (case cancel_half_close_timer (f, s) of (f, s) \<Rightarrow>
        drop_sender (tf_token f) (if is_fully_closed f then s else control_abort (tf_token f) s))"
| "drop_slot (UdpFlow f) s = control_abort (uf_token f) s"

fun cancel_slot :: "flow_slot \<Rightarrow> session \<Rightarrow> session" where
  "cancel_slot (OpeningTcp c) s = cancel_open (oc_token c) s"
| "cancel_slot (OpeningUdp c) s = cancel_open (oc_token c) s"
| "cancel_slot _ s = s"

definition remove_flow_slot :: "u64 \<Rightarrow> session \<Rightarrow> session" where
  "remove_flow_slot flow_id s =
     (let removed = s\<lparr>se_flows := hm_remove flow_id (se_flows s)\<rparr>
      in case hm_get (se_flows s) flow_id of
           None \<Rightarrow> removed
         | Some slot \<Rightarrow> drop_slot slot (cancel_slot slot removed))"

definition open_target_flow :: "session \<Rightarrow> u64 \<Rightarrow> target_flow option" where
  "open_target_flow s flow_id = (case hm_get (se_flows s) flow_id of Some (TcpFlow f) \<Rightarrow> Some f | _ \<Rightarrow> None)"

definition udp_flow :: "session \<Rightarrow> u64 \<Rightarrow> udp_target_flow option" where
  "udp_flow s flow_id = (case hm_get (se_flows s) flow_id of Some (UdpFlow f) \<Rightarrow> Some f | _ \<Rightarrow> None)"

text \<open>Code that works on a borrowed \<open>&mut TargetFlow\<close> puts the changed flow back into its slot.\<close>

definition put_flow :: "u64 \<Rightarrow> target_flow \<times> session \<Rightarrow> session" where
  "put_flow flow_id fs = (case fs of (f, s) \<Rightarrow> set_slot flow_id (TcpFlow f) s)"

definition record_activity :: "u64 \<Rightarrow> instant \<Rightarrow> session \<Rightarrow> session" where
  "record_activity flow_id now s =
     (case udp_flow s flow_id of
        Some f \<Rightarrow> set_slot flow_id (UdpFlow (f\<lparr>uf_last_activity := now\<rparr>)) s
      | None \<Rightarrow> s)"

section \<open>Carrier writes\<close>

definition carrier_write :: "relay_context \<Rightarrow> frame \<Rightarrow> unit relay" where
  "carrier_write cx f s =
     (let outcome = (case se_writes s of [] \<Rightarrow> WriteOk | w # _ \<Rightarrow> w);
          s = s\<lparr>se_writes := tl (se_writes s)\<rparr>
      in case outcome of
           WriteFailed \<Rightarrow> (Inl SE_Io, s)
         | WriteStalled \<Rightarrow>
             if lm_write_timeout (cx_limits cx) \<noteq> None then (Inl SE_WriteTimeout, shutdown_close s)
             else (Inr (), s\<lparr>se_out := se_out s @ [f]\<rparr>)
         | WriteOk \<Rightarrow> (Inr (), s\<lparr>se_out := se_out s @ [f]\<rparr>))"

definition write_frame_locked :: "relay_context \<Rightarrow> frame \<Rightarrow> unit relay" where
  "write_frame_locked cx f s = (if se_shutdown s then (Inl SE_Shutdown, s) else carrier_write cx f s)"

definition write_flow_frame_locked :: "relay_context \<Rightarrow> frame \<Rightarrow> u64 \<Rightarrow> unit relay" where
  "write_flow_frame_locked cx f token s =
     (if se_shutdown s \<or> fc_aborted (se_controls s token) then (Inr (), s) else carrier_write cx f s)"

definition protocol_result :: "protocol_error + 'a \<Rightarrow> 'a relay" where
  "protocol_result r s = (map_err SE_Protocol r, s)"

definition send_status_frame :: "relay_context \<Rightarrow> frame_type \<Rightarrow> u64 \<Rightarrow> error_code \<Rightarrow> unit relay" where
  "send_status_frame cx frame_type flow_id code =
     io_then (protocol_result (error_payload_encode \<lparr>ep_code = code\<rparr>)) (\<lambda>payload.
     io_then (protocol_result (frame_new frame_type 0 flow_id payload)) (\<lambda>f.
     write_frame_locked cx f))"

definition send_policy_denied :: "relay_context \<Rightarrow> u64 \<Rightarrow> unit relay" where
  "send_policy_denied cx flow_id = send_status_frame cx FT_PolicyDenied flow_id EC_PolicyDenied"

definition send_resource_limit :: "relay_context \<Rightarrow> u64 \<Rightarrow> unit relay" where
  "send_resource_limit cx flow_id = send_status_frame cx FT_ResourceLimit flow_id EC_ResourceLimit"

definition send_error :: "relay_context \<Rightarrow> u64 \<Rightarrow> error_code \<Rightarrow> unit relay" where
  "send_error cx flow_id code = send_status_frame cx FT_Error flow_id code"

definition send_tcp_close :: "relay_context \<Rightarrow> u64 \<Rightarrow> u16 \<Rightarrow> unit relay" where
  "send_tcp_close cx flow_id close_code =
     io_then (protocol_result (tcp_close_encode \<lparr>tc_close_code = close_code\<rparr>)) (\<lambda>payload.
     io_then (protocol_result (frame_new FT_TcpClose 0 flow_id payload)) (\<lambda>f.
     write_frame_locked cx f))"

definition send_udp_close :: "relay_context \<Rightarrow> u64 \<Rightarrow> u16 \<Rightarrow> unit relay" where
  "send_udp_close cx flow_id close_code =
     io_then (protocol_result (udp_close_encode \<lparr>uc_close_code = close_code\<rparr>)) (\<lambda>payload.
     io_then (protocol_result (frame_new FT_UdpClose 0 flow_id payload)) (\<lambda>f.
     write_frame_locked cx f))"

definition send_tcp_data :: "relay_context \<Rightarrow> u64 \<Rightarrow> byte list \<Rightarrow> u64 \<Rightarrow> unit relay" where
  "send_tcp_data cx flow_id payload token =
     io_then (protocol_result (frame_new FT_TcpData 0 flow_id payload)) (\<lambda>f.
     write_flow_frame_locked cx f token)"

definition send_udp_data :: "relay_context \<Rightarrow> u64 \<Rightarrow> byte list \<Rightarrow> u64 \<Rightarrow> unit relay" where
  "send_udp_data cx flow_id payload token =
     io_then (protocol_result (frame_new FT_UdpData 0 flow_id payload)) (\<lambda>f.
     write_flow_frame_locked cx f token)"

definition write_pong :: "relay_context \<Rightarrow> frame \<Rightarrow> unit relay" where
  "write_pong cx request_frame =
     io_then (protocol_result (frame_new FT_Pong 0 (fh_id (fr_header request_frame)) (fr_payload request_frame))) (\<lambda>f.
     write_frame_locked cx f)"

definition modify :: "(session \<Rightarrow> session) \<Rightarrow> unit relay" where
  "modify g s = (Inr (), g s)"

end
