(* ===== verification/Relay_Tcp.thy ===== *)
theory Relay_Tcp
  imports Relay_Context
begin

text \<open>
  \<open>crates/uk-server/src/relay/tcp.rs\<close>, with the flow-id checks of \<open>session.rs\<close>: the handlers of TCP frames
  and of the events of TCP flows. Each one is a function on the session; one that may fail also returns
  the error that ends the session.
\<close>

section \<open>Flow ids\<close>

datatype flow_id_rejection = FlowIdZero | FlowIdReserved

definition validate_client_relay_flow_id :: "u64 \<Rightarrow> flow_id_rejection + unit" where
  "validate_client_relay_flow_id flow_id =
     (if flow_id = 0 then Inl FlowIdZero
      else if \<not> is_client_initiated_flow_id flow_id then Inl FlowIdReserved
      else Inr ())"

definition reject_invalid_client_relay_flow_id ::
    "relay_context \<Rightarrow> u64 \<Rightarrow> flow_id_rejection \<Rightarrow> string \<Rightarrow> unit relay" where
  "reject_invalid_client_relay_flow_id cx flow_id rejection zero_id_error =
     io_then (send_error cx flow_id EC_Protocol) (\<lambda>_.
     case rejection of
       FlowIdZero \<Rightarrow> io_err (SE_Message zero_id_error)
     | FlowIdReserved \<Rightarrow> send_tcp_close cx flow_id TCP_CLOSE_ERROR)"

definition reject_invalid_udp_relay_flow_id ::
    "relay_context \<Rightarrow> u64 \<Rightarrow> flow_id_rejection \<Rightarrow> string \<Rightarrow> unit relay" where
  "reject_invalid_udp_relay_flow_id cx flow_id rejection zero_id_error =
     io_then (send_error cx flow_id EC_Protocol) (\<lambda>_.
     case rejection of
       FlowIdZero \<Rightarrow> io_err (SE_Message zero_id_error)
     | FlowIdReserved \<Rightarrow> send_udp_close cx flow_id UDP_CLOSE_ERROR)"

section \<open>Events of established flows\<close>

definition should_start_half_close_drain :: "target_flow \<Rightarrow> bool" where
  "should_start_half_close_drain f \<longleftrightarrow> tf_client_to_target_open f \<and> tf_target_to_client_open f"

definition start_half_close_timer ::
    "relay_context \<Rightarrow> u64 \<Rightarrow> half_close_side \<Rightarrow> target_flow \<times> session \<Rightarrow> target_flow \<times> session" where
  "start_half_close_timer cx flow_id side fs =
     (case fs of (f, s) \<Rightarrow>
        case lm_half_close_timeout (cx_limits cx) of
          None \<Rightarrow> (f, s)
        | Some timeout \<Rightarrow>
            (case spawn_task (HalfCloseTimerTask flow_id (tf_token f) side timeout) s of
               (h, s) \<Rightarrow> set_half_close_timer h (f, s)))"

definition handle_target_read_closed :: "relay_context \<Rightarrow> u64 \<Rightarrow> u64 \<Rightarrow> session \<Rightarrow> session" where
  "handle_target_read_closed cx flow_id token s =
     (case open_target_flow s flow_id of
        None \<Rightarrow> s
      | Some f \<Rightarrow>
          if tf_token f \<noteq> token then s
          else if fc_aborted (se_controls s token)
          then remove_flow_slot flow_id (put_flow flow_id (flow_abort cx (f, s)))
          else let fs = (mark_target_to_client_closed f, s);
                   fs = (if tf_client_to_target_open f then start_half_close_timer cx flow_id TargetToClient fs else fs)
               in if is_removable (fst fs)
                  then remove_flow_slot flow_id (put_flow flow_id (cancel_half_close_timer fs))
                  else put_flow flow_id fs)"

datatype half_close_drain_decision = DrainIgnored | DrainClosePeer bool | DrainAbort bool

definition expire_half_close_drain ::
    "relay_context \<Rightarrow> u64 \<Rightarrow> u64 \<Rightarrow> half_close_side \<Rightarrow> session \<Rightarrow> half_close_drain_decision \<times> session" where
  "expire_half_close_drain cx flow_id token closed_side s =
     (case open_target_flow s flow_id of
        None \<Rightarrow> (DrainIgnored, s)
      | Some f \<Rightarrow>
          if tf_token f \<noteq> token then (DrainIgnored, s)
          else let aborted = flow_abort cx (f, s); s' = put_flow flow_id aborted; remove = is_removable (fst aborted)
               in case closed_side of
                    TargetToClient \<Rightarrow>
                      if \<not> tf_target_to_client_open f \<and> tf_client_to_target_open f
                      then (DrainAbort remove, s') else (DrainIgnored, s)
                  | ClientToTarget \<Rightarrow>
                      if \<not> tf_client_to_target_open f \<and> tf_target_to_client_open f
                      then (DrainClosePeer remove, s') else (DrainIgnored, s))"

definition handle_half_close_drain_expired ::
    "relay_context \<Rightarrow> u64 \<Rightarrow> u64 \<Rightarrow> half_close_side \<Rightarrow> unit relay" where
  "handle_half_close_drain_expired cx flow_id token closed_side s =
     (case expire_half_close_drain cx flow_id token closed_side s of
        (DrainIgnored, s) \<Rightarrow> (Inr (), s)
      | (DrainClosePeer remove, s) \<Rightarrow>
          io_then (send_tcp_close cx flow_id TCP_CLOSE_NORMAL)
            (\<lambda>_. modify (if remove then remove_flow_slot flow_id else id)) s
      | (DrainAbort remove, s) \<Rightarrow>
          (case send_tcp_close cx flow_id TCP_CLOSE_ERROR s of
             (_, s) \<Rightarrow> modify (if remove then remove_flow_slot flow_id else id) s))"

definition handle_target_write_closed :: "relay_context \<Rightarrow> u64 \<Rightarrow> u64 \<Rightarrow> session \<Rightarrow> session" where
  "handle_target_write_closed cx flow_id token s =
     (case open_target_flow s flow_id of
        None \<Rightarrow> s
      | Some f \<Rightarrow>
          if tf_token f \<noteq> token then s
          else let fs = mark_target_write_closed (f, s);
                   fs = (if fc_aborted (se_controls s token) then flow_abort cx fs else fs)
               in if is_removable (fst fs)
                  then remove_flow_slot flow_id (put_flow flow_id (cancel_half_close_timer fs))
                  else put_flow flow_id fs)"

section \<open>Data and close frames\<close>

datatype tcp_data_disposition_t = TcpUnknownFlow | TcpOpeningFlow | TcpOtherProtocolFlow | TcpEmptyPayload | TcpForwardPayload

definition tcp_data_disposition :: "u64 \<Rightarrow> byte list \<Rightarrow> session \<Rightarrow> tcp_data_disposition_t" where
  "tcp_data_disposition flow_id payload s =
     (case hm_get (se_flows s) flow_id of
        None \<Rightarrow> TcpUnknownFlow
      | Some (OpeningTcp _) \<Rightarrow> TcpOpeningFlow
      | Some (OpeningUdp _) \<Rightarrow> TcpOtherProtocolFlow
      | Some (UdpFlow _) \<Rightarrow> TcpOtherProtocolFlow
      | Some (TcpFlow _) \<Rightarrow> if payload = [] then TcpEmptyPayload else TcpForwardPayload)"

definition forward_tcp_data_frame :: "relay_context \<Rightarrow> u64 \<Rightarrow> byte list \<Rightarrow> unit relay" where
  "forward_tcp_data_frame cx flow_id payload s =
     (case open_target_flow s flow_id of
        None \<Rightarrow> send_error cx flow_id EC_Protocol s
      | Some f \<Rightarrow>
          (case enqueue_data cx payload (f, s) of
             (Inr _, fs) \<Rightarrow> (Inr (), put_flow flow_id fs)
           | (Inl EnqueueClosed, fs) \<Rightarrow>
               let fs = mark_client_to_target_closed fs; s = put_flow flow_id fs
               in (Inr (), if is_removable (fst fs) then remove_flow_slot flow_id s else s)
           | (Inl EnqueueResourceLimit, fs) \<Rightarrow>
               io_then (send_resource_limit cx flow_id) (\<lambda>_.
               io_then (send_tcp_close cx flow_id TCP_CLOSE_ERROR) (\<lambda>_.
               modify (remove_flow_slot flow_id))) (put_flow flow_id (flow_abort cx fs))))"

definition handle_tcp_data_frame :: "relay_context \<Rightarrow> frame \<Rightarrow> unit relay" where
  "handle_tcp_data_frame cx f =
     (let flow_id = fh_id (fr_header f)
      in case validate_client_relay_flow_id flow_id of
           Inl rejection \<Rightarrow>
             reject_invalid_client_relay_flow_id cx flow_id rejection ''tcp data flow id must be non-zero''
         | Inr _ \<Rightarrow> (\<lambda>s.
             case tcp_data_disposition flow_id (fr_payload f) s of
               TcpUnknownFlow \<Rightarrow> send_error cx flow_id EC_Protocol s
             | TcpOtherProtocolFlow \<Rightarrow>
                 io_then (send_error cx flow_id EC_Protocol) (\<lambda>_.
                 io_then (send_udp_close cx flow_id UDP_CLOSE_ERROR) (\<lambda>_.
                 modify (remove_flow_slot flow_id))) s
             | TcpOpeningFlow \<Rightarrow>
                 io_then (send_error cx flow_id EC_Protocol) (\<lambda>_.
                 io_then (send_tcp_close cx flow_id TCP_CLOSE_ERROR) (\<lambda>_.
                 modify (remove_flow_slot flow_id))) s
             | TcpEmptyPayload \<Rightarrow> (Inr (), s)
             | TcpForwardPayload \<Rightarrow> forward_tcp_data_frame cx flow_id (fr_payload f) s))"

text \<open>The close of an established flow: whether the slot is to be removed, and the session.\<close>

definition tcp_close_flow :: "relay_context \<Rightarrow> u64 \<Rightarrow> u16 \<Rightarrow> target_flow \<Rightarrow> session \<Rightarrow> bool \<times> session" where
  "tcp_close_flow cx flow_id close_code f s =
     (if close_code = TCP_CLOSE_NORMAL then
        let should_start_drain_timer = should_start_half_close_drain f;
            fs = close_client_to_target cx (f, s)
        in if tf_target_to_client_open (fst fs) then
             (False, put_flow flow_id
                (if should_start_drain_timer then start_half_close_timer cx flow_id ClientToTarget fs else fs))
           else let fs = cancel_half_close_timer fs
                in (is_removable (fst fs), put_flow flow_id fs)
      else (True, put_flow flow_id (flow_abort cx (f, s))))"

definition handle_tcp_close_frame :: "relay_context \<Rightarrow> frame \<Rightarrow> unit relay" where
  "handle_tcp_close_frame cx f =
     (let flow_id = fh_id (fr_header f)
      in case validate_client_relay_flow_id flow_id of
           Inl rejection \<Rightarrow>
             reject_invalid_client_relay_flow_id cx flow_id rejection ''tcp close flow id must be non-zero''
         | Inr _ \<Rightarrow>
             (case tcp_close_decode (fr_payload f) of
                Inl e \<Rightarrow> io_then (send_error cx flow_id EC_Protocol) (\<lambda>_. io_err (SE_Protocol e))
              | Inr close \<Rightarrow> (\<lambda>s.
                  case hm_get (se_flows s) flow_id of
                    None \<Rightarrow> (Inr (), s)
                  | Some (OpeningTcp _) \<Rightarrow> (Inr (), remove_flow_slot flow_id s)
                  | Some (TcpFlow fl) \<Rightarrow>
                      (case tcp_close_flow cx flow_id (tc_close_code close) fl s of
                         (should_remove, s) \<Rightarrow> (Inr (), if should_remove then remove_flow_slot flow_id s else s))
                  | Some _ \<Rightarrow>
                      io_then (send_error cx flow_id EC_Protocol) (\<lambda>_.
                      io_then (send_udp_close cx flow_id UDP_CLOSE_ERROR) (\<lambda>_.
                      modify (remove_flow_slot flow_id))) s)))"

section \<open>Status frames from the client\<close>

definition validate_client_flow_status_payload :: "frame_type \<Rightarrow> byte list \<Rightarrow> session_error + unit" where
  "validate_client_flow_status_payload frame_type payload =
     and_then (map_err SE_Protocol (error_payload_decode payload)) (\<lambda>status.
     case frame_type of
       FT_Error \<Rightarrow> Inr ()
     | FT_PolicyDenied \<Rightarrow>
         if ep_code status = EC_PolicyDenied then Inr () else Inl (SE_Message ''unexpected client flow status code'')
     | FT_ResourceLimit \<Rightarrow>
         if ep_code status = EC_ResourceLimit then Inr () else Inl (SE_Message ''unexpected client flow status code'')
     | _ \<Rightarrow> Inl (SE_Message ''unexpected client flow status frame''))"

definition abort_client_flow :: "relay_context \<Rightarrow> u64 \<Rightarrow> session \<Rightarrow> session" where
  "abort_client_flow cx flow_id s =
     (case hm_get (se_flows s) flow_id of
        None \<Rightarrow> s
      | Some (TcpFlow f) \<Rightarrow> remove_flow_slot flow_id (put_flow flow_id (flow_abort cx (f, s)))
      | Some (UdpFlow f) \<Rightarrow> remove_flow_slot flow_id (control_abort (uf_token f) s)
      | Some _ \<Rightarrow> remove_flow_slot flow_id s)"

definition handle_client_flow_status_frame :: "relay_context \<Rightarrow> frame \<Rightarrow> unit relay" where
  "handle_client_flow_status_frame cx f =
     (let flow_id = fh_id (fr_header f); frame_type = fh_frame_type (fr_header f)
      in if flow_id = 0 \<and> frame_type = FT_Error then
           (case validate_client_flow_status_payload frame_type (fr_payload f) of
              Inl e \<Rightarrow> io_err e
            | Inr _ \<Rightarrow> io_err (SE_Message ''connection error from client''))
         else case validate_client_relay_flow_id flow_id of
                Inl rejection \<Rightarrow>
                  reject_invalid_client_relay_flow_id cx flow_id rejection ''flow status id must be non-zero''
              | Inr _ \<Rightarrow>
                  (case validate_client_flow_status_payload frame_type (fr_payload f) of
                     Inl e \<Rightarrow> io_then (send_error cx flow_id EC_Protocol) (\<lambda>_. io_err e)
                   | Inr _ \<Rightarrow> modify (abort_client_flow cx flow_id)))"

section \<open>Opening\<close>

datatype open_slot_rejection = DuplicateFlowId | SlotResourceLimit

definition check_open_slot :: "u64 \<Rightarrow> session \<Rightarrow> u64 \<Rightarrow> open_slot_rejection + unit" where
  "check_open_slot flow_id s max_streams =
     (if \<not> is_client_initiated_flow_id flow_id then Inr ()
      else if hm_get (se_flows s) flow_id \<noteq> None then Inl DuplicateFlowId
      else if unat max_streams \<le> hm_len (se_flows s) then Inl SlotResourceLimit
      else Inr ())"

definition validate_tcp_open_request :: "relay_context \<Rightarrow> frame \<Rightarrow> (u64 \<times> target) option relay" where
  "validate_tcp_open_request cx f =
     (let flow_id = fh_id (fr_header f)
      in if flow_id = 0 then
           io_then (send_error cx flow_id EC_Protocol) (\<lambda>_. io_err (SE_Message ''tcp flow id must be non-zero''))
         else if \<not> is_client_initiated_flow_id flow_id then
           io_then (send_error cx flow_id EC_Protocol) (\<lambda>_.
           io_then (send_tcp_close cx flow_id TCP_CLOSE_ERROR) (\<lambda>_. io_ok None))
         else case tcp_open_decode (fr_payload f) of
                Inl e \<Rightarrow>
                  io_then (send_error cx flow_id (from_protocol_error e)) (\<lambda>_.
                  io_then (send_tcp_close cx flow_id TCP_CLOSE_ERROR) (\<lambda>_. io_ok None))
              | Inr open_request \<Rightarrow>
                  if to_open_flags open_request \<noteq> TCP_OPEN_FLAGS_NONE then
                    io_then (send_error cx flow_id EC_Protocol) (\<lambda>_.
                    io_then (send_tcp_close cx flow_id TCP_CLOSE_ERROR) (\<lambda>_. io_ok None))
                  else io_ok (Some (flow_id, to_target open_request)))"

fun reject_open_failure :: "relay_context \<Rightarrow> u64 \<Rightarrow> open_failure \<Rightarrow> unit relay" where
  "reject_open_failure cx flow_id OF_PolicyDenied =
     io_then (send_policy_denied cx flow_id) (\<lambda>_. send_tcp_close cx flow_id TCP_CLOSE_NORMAL)"
| "reject_open_failure cx flow_id OF_ResourceLimit =
     io_then (send_resource_limit cx flow_id) (\<lambda>_. send_tcp_close cx flow_id TCP_CLOSE_ERROR)"
| "reject_open_failure cx flow_id (OF_TargetUnavailable e) =
     io_then (send_error cx flow_id EC_TargetUnavailable) (\<lambda>_. send_tcp_close cx flow_id TCP_CLOSE_ERROR)"
| "reject_open_failure cx flow_id OF_TargetTimeout =
     io_then (send_error cx flow_id EC_TargetTimeout) (\<lambda>_. send_tcp_close cx flow_id TCP_CLOSE_ERROR)"

text \<open>An admitted open: the permit is named by the attempt's token, the slot installed and the task spawned.\<close>

definition admit_tcp_open :: "u64 \<Rightarrow> target \<Rightarrow> policy_set \<Rightarrow> session \<Rightarrow> session" where
  "admit_tcp_open flow_id t ps s =
     (case next_token s of (token, s) \<Rightarrow>
        let s = set_slot flow_id (OpeningTcp \<lparr>oc_token = token, oc_permit = Some token\<rparr>) s
        in snd (spawn_task (TcpOpenTask flow_id token t ps) s))"

definition handle_tcp_open_frame :: "relay_context \<Rightarrow> 'tls session_env \<Rightarrow> frame \<Rightarrow> unit relay" where
  "handle_tcp_open_frame cx en f s =
     (let flow_id = fh_id (fr_header f)
      in case check_open_slot flow_id s (lm_max_streams (cx_limits cx)) of
           Inl DuplicateFlowId \<Rightarrow>
             io_then (send_error cx flow_id EC_Protocol) (\<lambda>_.
             io_then (send_tcp_close cx flow_id TCP_CLOSE_ERROR) (\<lambda>_.
             modify (remove_flow_slot flow_id))) s
         | Inl SlotResourceLimit \<Rightarrow>
             io_then (send_resource_limit cx flow_id) (\<lambda>_. send_tcp_close cx flow_id TCP_CLOSE_ERROR) s
         | Inr _ \<Rightarrow>
             io_then (validate_tcp_open_request cx f) (\<lambda>r.
             case r of
               None \<Rightarrow> io_ok ()
             | Some (flow_id, t) \<Rightarrow>
                 (case take_policy_snapshot (en_security en) (cx_identity cx) (en_unix_now en) of
                    None \<Rightarrow> reject_open_failure cx flow_id OF_PolicyDenied
                  | Some policy \<Rightarrow>
                      if \<not> en_flow_permit en then
                        io_then (send_resource_limit cx flow_id) (\<lambda>_. send_tcp_close cx flow_id TCP_CLOSE_ERROR)
                      else modify (admit_tcp_open flow_id t (pn_policy_set policy)))) s)"

definition accept_open_target :: "relay_context \<Rightarrow> u64 \<Rightarrow> u64 option \<Rightarrow> target_flow relay" where
  "accept_open_target cx flow_id permit s =
     (case next_token s of (token, s) \<Rightarrow>
        io_then (send_tcp_data cx flow_id [] token) (\<lambda>_ s.
          let s = snd (spawn_task (TargetReaderTask flow_id token) s);
              s = snd (spawn_task (TargetWriterTask flow_id token) s)
          in (Inr (target_flow_new token permit), s))
        (update_control token (\<lambda>_. flow_control_new) s))"

text \<open>The stream of a successful open plays no part in the session's own state.\<close>

definition handle_tcp_open_completed :: "relay_context \<Rightarrow> u64 \<Rightarrow> u64 \<Rightarrow> open_failure + unit \<Rightarrow> unit relay" where
  "handle_tcp_open_completed cx flow_id token result s =
     (case hm_get (se_flows s) flow_id of
        Some (OpeningTcp cancel) \<Rightarrow>
          if oc_token cancel \<noteq> token then (Inr (), s)
          else (case result of
                  Inr _ \<Rightarrow>
                    io_then (accept_open_target cx flow_id (oc_permit cancel)) (\<lambda>fl.
                    modify (set_slot flow_id (TcpFlow fl))) s
                | Inl failure \<Rightarrow>
                    io_then (reject_open_failure cx flow_id failure) (\<lambda>_.
                    modify (remove_flow_slot flow_id)) s)
      | _ \<Rightarrow> (Inr (), s))"

end
