(* ===== verification/Relay_Udp.thy ===== *)
theory Relay_Udp
  imports Relay_Tcp
begin

text \<open>
  \<open>crates/uk-server/src/relay/udp.rs\<close>: the handlers of UDP frames, datagrams and UDP flow events. A send
  on the target socket has the outcome the environment gives; what was sent is recorded under the
  token of the flow.
\<close>

section \<open>Events and data\<close>

definition handle_udp_read_closed :: "u64 \<Rightarrow> u64 \<Rightarrow> session \<Rightarrow> session" where
  "handle_udp_read_closed flow_id token s =
     (case hm_get (se_flows s) flow_id of
        Some (UdpFlow f) \<Rightarrow> if uf_token f = token then remove_flow_slot flow_id s else s
      | _ \<Rightarrow> s)"

datatype udp_data_disposition_t = UdpUnknownFlow | UdpOpeningFlow | UdpTcpFlow | UdpForwardPayload

definition udp_data_disposition :: "u64 \<Rightarrow> session \<Rightarrow> udp_data_disposition_t" where
  "udp_data_disposition flow_id s =
     (case hm_get (se_flows s) flow_id of
        None \<Rightarrow> UdpUnknownFlow
      | Some (OpeningUdp _) \<Rightarrow> UdpOpeningFlow
      | Some (OpeningTcp _) \<Rightarrow> UdpTcpFlow
      | Some (TcpFlow _) \<Rightarrow> UdpTcpFlow
      | Some (UdpFlow _) \<Rightarrow> UdpForwardPayload)"

definition udp_socket_send :: "u64 \<Rightarrow> byte list \<Rightarrow> session \<Rightarrow> session" where
  "udp_socket_send token payload s = s\<lparr>se_udp_sent := se_udp_sent s @ [(token, payload)]\<rparr>"

definition forward_udp_data_frame :: "relay_context \<Rightarrow> 'tls session_env \<Rightarrow> u64 \<Rightarrow> byte list \<Rightarrow> unit relay" where
  "forward_udp_data_frame cx en flow_id payload s =
     (case udp_flow s flow_id of
        None \<Rightarrow> send_error cx flow_id EC_Protocol s
      | Some f \<Rightarrow>
          let s = record_activity flow_id (en_now en) s
          in case en_udp_send en of
               UdpSent \<Rightarrow> (Inr (), udp_socket_send (uf_token f) payload s)
             | UdpWouldBlock \<Rightarrow> (Inr (), s)
             | UdpSendError \<Rightarrow>
                 io_then (send_error cx flow_id EC_TargetUnavailable) (\<lambda>_.
                 io_then (send_udp_close cx flow_id UDP_CLOSE_ERROR) (\<lambda>_.
                 modify (remove_flow_slot flow_id))) s)"

definition forward_udp_datagram :: "'tls session_env \<Rightarrow> u64 \<Rightarrow> byte list \<Rightarrow> session \<Rightarrow> session" where
  "forward_udp_datagram en flow_id payload s =
     (case udp_flow s flow_id of
        None \<Rightarrow> s
      | Some f \<Rightarrow>
          let s = record_activity flow_id (en_now en) s
          in case en_udp_send en of
               UdpSent \<Rightarrow> udp_socket_send (uf_token f) payload s
             | _ \<Rightarrow> s)"

definition handle_udp_data_frame :: "relay_context \<Rightarrow> 'tls session_env \<Rightarrow> frame \<Rightarrow> unit relay" where
  "handle_udp_data_frame cx en f =
     (let flow_id = fh_id (fr_header f)
      in case validate_client_relay_flow_id flow_id of
           Inl rejection \<Rightarrow>
             reject_invalid_udp_relay_flow_id cx flow_id rejection ''udp data flow id must be non-zero''
         | Inr _ \<Rightarrow> (\<lambda>s.
             case udp_data_disposition flow_id s of
               UdpUnknownFlow \<Rightarrow> send_error cx flow_id EC_Protocol s
             | UdpTcpFlow \<Rightarrow>
                 io_then (send_error cx flow_id EC_Protocol) (\<lambda>_.
                 io_then (send_tcp_close cx flow_id TCP_CLOSE_ERROR) (\<lambda>_.
                 modify (remove_flow_slot flow_id))) s
             | UdpOpeningFlow \<Rightarrow>
                 io_then (send_error cx flow_id EC_Protocol) (\<lambda>_.
                 io_then (send_udp_close cx flow_id UDP_CLOSE_ERROR) (\<lambda>_.
                 modify (remove_flow_slot flow_id))) s
             | UdpForwardPayload \<Rightarrow> forward_udp_data_frame cx en flow_id (fr_payload f) s))"

definition handle_udp_close_frame :: "relay_context \<Rightarrow> frame \<Rightarrow> unit relay" where
  "handle_udp_close_frame cx f =
     (let flow_id = fh_id (fr_header f)
      in case validate_client_relay_flow_id flow_id of
           Inl rejection \<Rightarrow>
             reject_invalid_udp_relay_flow_id cx flow_id rejection ''udp close flow id must be non-zero''
         | Inr _ \<Rightarrow>
             (case udp_close_decode (fr_payload f) of
                Inl e \<Rightarrow> io_then (send_error cx flow_id EC_Protocol) (\<lambda>_. io_err (SE_Protocol e))
              | Inr close \<Rightarrow> (\<lambda>s.
                  case hm_get (se_flows s) flow_id of
                    None \<Rightarrow> (Inr (), s)
                  | Some (OpeningUdp _) \<Rightarrow> (Inr (), remove_flow_slot flow_id s)
                  | Some (UdpFlow fl) \<Rightarrow>
                      (Inr (), remove_flow_slot flow_id
                         (if uc_close_code close \<noteq> UDP_CLOSE_NORMAL then control_abort (uf_token fl) s else s))
                  | Some _ \<Rightarrow>
                      io_then (send_error cx flow_id EC_Protocol) (\<lambda>_.
                      io_then (send_tcp_close cx flow_id TCP_CLOSE_ERROR) (\<lambda>_.
                      modify (remove_flow_slot flow_id))) s)))"

section \<open>Idle flows\<close>

text \<open>The expired flows are closed in the order of the hash map's iteration, which is not specified.\<close>

fun close_udp_flows :: "relay_context \<Rightarrow> u64 list \<Rightarrow> unit relay" where
  "close_udp_flows cx [] = io_ok ()"
| "close_udp_flows cx (flow_id # rest) =
     io_then (send_udp_close cx flow_id UDP_CLOSE_NORMAL) (\<lambda>_.
     io_then (modify (remove_flow_slot flow_id)) (\<lambda>_. close_udp_flows cx rest))"

definition udp_expired :: "instant \<Rightarrow> duration \<Rightarrow> flow_slot \<Rightarrow> bool" where
  "udp_expired now idle_timeout slot =
     (case slot of UdpFlow f \<Rightarrow> idle_timeout \<le> now - uf_last_activity f | _ \<Rightarrow> False)"

definition close_idle_udp_flows :: "relay_context \<Rightarrow> 'tls session_env \<Rightarrow> unit relay" where
  "close_idle_udp_flows cx en s =
     (case lm_udp_idle_timeout (cx_limits cx) of
        None \<Rightarrow> (Inr (), s)
      | Some idle_timeout \<Rightarrow>
          let expired = map fst (filter (\<lambda>(_, slot). udp_expired (en_now en) idle_timeout slot) (se_flows s))
          in close_udp_flows cx (en_order en expired) s)"

section \<open>Opening\<close>

datatype udp_open_slot_rejection = UdpDuplicateFlowId | UdpSlotResourceLimit | UdpFlowLimit

definition is_udp_slot :: "flow_slot \<Rightarrow> bool" where
  "is_udp_slot slot = (case slot of OpeningUdp _ \<Rightarrow> True | UdpFlow _ \<Rightarrow> True | _ \<Rightarrow> False)"

definition udp_flow_count :: "session \<Rightarrow> nat" where
  "udp_flow_count s = length (filter (\<lambda>(_, slot). is_udp_slot slot) (se_flows s))"

definition check_udp_open_slot :: "u64 \<Rightarrow> session \<Rightarrow> u64 \<Rightarrow> u64 \<Rightarrow> udp_open_slot_rejection + unit" where
  "check_udp_open_slot flow_id s max_streams max_udp_flows =
     (case check_open_slot flow_id s max_streams of
        Inl DuplicateFlowId \<Rightarrow> Inl UdpDuplicateFlowId
      | Inl SlotResourceLimit \<Rightarrow> Inl UdpSlotResourceLimit
      | Inr _ \<Rightarrow>
          if is_client_initiated_flow_id flow_id \<and> unat max_udp_flows \<le> udp_flow_count s then Inl UdpFlowLimit
          else Inr ())"

definition validate_udp_open_request :: "relay_context \<Rightarrow> frame \<Rightarrow> (u64 \<times> target) option relay" where
  "validate_udp_open_request cx f =
     (let flow_id = fh_id (fr_header f)
      in if flow_id = 0 then
           io_then (send_error cx flow_id EC_Protocol) (\<lambda>_. io_err (SE_Message ''udp flow id must be non-zero''))
         else if \<not> is_client_initiated_flow_id flow_id then
           io_then (send_error cx flow_id EC_Protocol) (\<lambda>_.
           io_then (send_udp_close cx flow_id UDP_CLOSE_ERROR) (\<lambda>_. io_ok None))
         else case udp_open_decode (fr_payload f) of
                Inl e \<Rightarrow>
                  io_then (send_error cx flow_id (from_protocol_error e)) (\<lambda>_.
                  io_then (send_udp_close cx flow_id UDP_CLOSE_ERROR) (\<lambda>_. io_ok None))
              | Inr open_request \<Rightarrow> io_ok (Some (flow_id, uo_target open_request)))"

fun reject_udp_open_failure :: "relay_context \<Rightarrow> u64 \<Rightarrow> open_failure \<Rightarrow> unit relay" where
  "reject_udp_open_failure cx flow_id OF_PolicyDenied =
     io_then (send_policy_denied cx flow_id) (\<lambda>_. send_udp_close cx flow_id UDP_CLOSE_NORMAL)"
| "reject_udp_open_failure cx flow_id OF_ResourceLimit =
     io_then (send_resource_limit cx flow_id) (\<lambda>_. send_udp_close cx flow_id UDP_CLOSE_ERROR)"
| "reject_udp_open_failure cx flow_id (OF_TargetUnavailable e) =
     io_then (send_error cx flow_id EC_TargetUnavailable) (\<lambda>_. send_udp_close cx flow_id UDP_CLOSE_ERROR)"
| "reject_udp_open_failure cx flow_id OF_TargetTimeout =
     io_then (send_error cx flow_id EC_TargetTimeout) (\<lambda>_. send_udp_close cx flow_id UDP_CLOSE_ERROR)"

definition admit_udp_open :: "u64 \<Rightarrow> target \<Rightarrow> policy_set \<Rightarrow> session \<Rightarrow> session" where
  "admit_udp_open flow_id t ps s =
     (case next_token s of (token, s) \<Rightarrow>
        let s = set_slot flow_id (OpeningUdp \<lparr>oc_token = token, oc_permit = Some token\<rparr>) s
        in snd (spawn_task (UdpOpenTask flow_id token t ps) s))"

definition handle_udp_open_frame :: "relay_context \<Rightarrow> 'tls session_env \<Rightarrow> frame \<Rightarrow> unit relay" where
  "handle_udp_open_frame cx en f s =
     (let flow_id = fh_id (fr_header f)
      in case check_udp_open_slot flow_id s (lm_max_streams (cx_limits cx)) (lm_max_udp_flows (cx_limits cx)) of
           Inl UdpDuplicateFlowId \<Rightarrow>
             io_then (send_error cx flow_id EC_Protocol) (\<lambda>_.
             io_then (send_udp_close cx flow_id UDP_CLOSE_ERROR) (\<lambda>_.
             modify (remove_flow_slot flow_id))) s
         | Inl _ \<Rightarrow>
             io_then (send_resource_limit cx flow_id) (\<lambda>_. send_udp_close cx flow_id UDP_CLOSE_ERROR) s
         | Inr _ \<Rightarrow>
             io_then (validate_udp_open_request cx f) (\<lambda>r.
             case r of
               None \<Rightarrow> io_ok ()
             | Some (flow_id, t) \<Rightarrow>
                 (case take_policy_snapshot (en_security en) (cx_identity cx) (en_unix_now en) of
                    None \<Rightarrow> reject_udp_open_failure cx flow_id OF_PolicyDenied
                  | Some policy \<Rightarrow>
                      if \<not> en_flow_permit en then
                        io_then (send_resource_limit cx flow_id) (\<lambda>_. send_udp_close cx flow_id UDP_CLOSE_ERROR)
                      else modify (admit_udp_open flow_id t (pn_policy_set policy)))) s)"

definition accept_open_udp_target :: "relay_context \<Rightarrow> 'tls session_env \<Rightarrow> u64 \<Rightarrow> u64 option \<Rightarrow> udp_target_flow relay" where
  "accept_open_udp_target cx en flow_id permit s =
     (case next_token s of (token, s) \<Rightarrow>
        io_then (send_udp_data cx flow_id [] token) (\<lambda>_ s.
          (Inr (udp_target_flow_new token (en_now en) permit), snd (spawn_task (UdpReaderTask flow_id token) s)))
        (update_control token (\<lambda>_. flow_control_new) s))"

definition handle_udp_open_completed ::
    "relay_context \<Rightarrow> 'tls session_env \<Rightarrow> u64 \<Rightarrow> u64 \<Rightarrow> open_failure + unit \<Rightarrow> unit relay" where
  "handle_udp_open_completed cx en flow_id token result s =
     (case hm_get (se_flows s) flow_id of
        Some (OpeningUdp cancel) \<Rightarrow>
          if oc_token cancel \<noteq> token then (Inr (), s)
          else (case result of
                  Inr _ \<Rightarrow>
                    io_then (accept_open_udp_target cx en flow_id (oc_permit cancel)) (\<lambda>fl.
                    modify (set_slot flow_id (UdpFlow fl))) s
                | Inl failure \<Rightarrow>
                    io_then (reject_udp_open_failure cx flow_id failure) (\<lambda>_.
                    modify (remove_flow_slot flow_id)) s)
      | _ \<Rightarrow> (Inr (), s))"

end
