(* ===== verification/Relay_Tasks.thy ===== *)
theory Relay_Tasks
  imports Relay_Udp
begin

text \<open>
  \<open>crates/uk-server/src/relay/tasks.rs\<close>, with \<open>emit_udp_to_client\<close> of \<open>udp.rs\<close>: the tasks a session spawns. A
  task advances in steps; a step runs from one await to the next, takes what the task was waiting for
  as its argument, and acts on the part of the session the tasks share with the loop. A step that its
  task cannot take leaves the session as it is. Where a select has several branches ready, the step
  says which one is taken.
\<close>

section \<open>Task states and the event channel\<close>

definition set_task :: "nat \<Rightarrow> task_state \<Rightarrow> session \<Rightarrow> session" where
  "set_task h st s = s\<lparr>se_task_states := (se_task_states s)(h := st)\<rparr>"

definition session_event_queue_capacity :: "relay_limits \<Rightarrow> nat" where
  "session_event_queue_capacity limits =
     min SESSION_EVENT_QUEUE_MAX_CAPACITY
       (SESSION_EVENT_QUEUE_BASE_CAPACITY + unat (lm_max_streams limits) * SESSION_EVENT_QUEUE_PER_FLOW_CAPACITY)"

definition event_room :: "relay_context \<Rightarrow> session \<Rightarrow> bool" where
  "event_room cx s \<longleftrightarrow> length (se_events s) < session_event_queue_capacity (cx_limits cx)"

definition push_event :: "flow_event \<Rightarrow> session \<Rightarrow> session" where
  "push_event ev s = s\<lparr>se_events := se_events s @ [ev]\<rparr>"

text \<open>\<open>send_flow_event_or_shutdown\<close>: the check before the select, and the select.\<close>

definition begin_send :: "nat \<Rightarrow> flow_event \<Rightarrow> session \<Rightarrow> session" where
  "begin_send h ev s = (if se_shutdown s then set_task h TaskDone s else set_task h (TaskSending ev) s)"

definition after_send :: "session_task \<Rightarrow> task_state" where
  "after_send task = (case task of DatagramReaderTask \<Rightarrow> TaskRunning | _ \<Rightarrow> TaskDone)"

definition send_flow_event_or_shutdown :: "relay_context \<Rightarrow> nat \<Rightarrow> session_task \<Rightarrow> bool \<Rightarrow> session \<Rightarrow> session" where
  "send_flow_event_or_shutdown cx h task gives_up s =
     (case se_task_states s h of
        TaskSending ev \<Rightarrow>
          if gives_up then (if se_shutdown s then set_task h (after_send task) s else s)
          else if event_room cx s then set_task h (after_send task) (push_event ev s) else s
      | _ \<Rightarrow> s)"

definition try_record_flow_activity :: "relay_context \<Rightarrow> flow_event \<Rightarrow> session \<Rightarrow> session" where
  "try_record_flow_activity cx ev s = (if event_room cx s then push_event ev s else s)"

section \<open>Open tasks\<close>

text \<open>The dial runs in the world given; when a run has no result yet the task keeps waiting. A task that
  is stopped by shutdown or cancellation has made the dials of the run so far.\<close>

definition record_dials :: "target \<Rightarrow> policy_set \<Rightarrow> connect_tasks \<Rightarrow> session \<Rightarrow> session" where
  "record_dials t ps ts s = s\<lparr>se_dialed := se_dialed s @ map (\<lambda>addr. (t, ps, addr)) (ct_dialed ts)\<rparr>"

definition open_task_step ::
    "nat \<Rightarrow> u64 \<Rightarrow> target \<Rightarrow> policy_set \<Rightarrow> (open_failure + unit \<Rightarrow> flow_event) \<Rightarrow>
     (open_failure + unit) option \<times> (byte list \<times> u16) list \<times> connect_tasks \<Rightarrow> bool \<Rightarrow> session \<Rightarrow> session" where
  "open_task_step h token t ps completed run stopped s =
     (case run of (result, _, ts) \<Rightarrow>
        if stopped then
          (if se_shutdown s \<or> token \<in> se_cancelled s then set_task h TaskDone (record_dials t ps ts s) else s)
        else case result of
               None \<Rightarrow> s
             | Some result \<Rightarrow>
                 let s = record_dials t ps ts s
                 in if token \<in> se_cancelled s then set_task h TaskDone s
                    else begin_send h (completed result) s)"

definition target_open_step ::
    "relay_context \<Rightarrow> nat \<Rightarrow> u64 \<Rightarrow> u64 \<Rightarrow> target \<Rightarrow> policy_set \<Rightarrow> unit dial_world \<Rightarrow> instant \<Rightarrow> bool \<Rightarrow> session \<Rightarrow> session" where
  "target_open_step cx h flow_id token t ps w now stopped =
     open_task_step h token t ps (OpenCompleted flow_id token t)
       (connect_allowed_target w t (cx_identity cx) ps now (cx_latest cx) (lm_connect_timeout (cx_limits cx))) stopped"

definition udp_open_step ::
    "relay_context \<Rightarrow> nat \<Rightarrow> u64 \<Rightarrow> u64 \<Rightarrow> target \<Rightarrow> policy_set \<Rightarrow> unit dial_world \<Rightarrow> instant \<Rightarrow> bool \<Rightarrow> session \<Rightarrow> session" where
  "udp_open_step cx h flow_id token t ps w now stopped =
     open_task_step h token t ps (UdpOpenCompleted flow_id token t)
       (connect_allowed_udp_target w t (cx_identity cx) ps now (cx_latest cx) (lm_connect_timeout (cx_limits cx))) stopped"

section \<open>The target writer\<close>

text \<open>A dropped receiver drops the commands still queued, and each dropped datum returns its bytes.\<close>

definition release_data :: "relay_context \<Rightarrow> u64 \<Rightarrow> byte list \<Rightarrow> session \<Rightarrow> session" where
  "release_data cx token p s = s\<lparr>se_budgets := control_release_bytes (budget_key cx token) (length p) (se_budgets s)\<rparr>"

fun drop_command :: "relay_context \<Rightarrow> u64 \<Rightarrow> target_command \<Rightarrow> session \<Rightarrow> session" where
  "drop_command cx token (CmdData p) s = release_data cx token p s"
| "drop_command cx token CmdClose s = s"

definition drop_receiver :: "relay_context \<Rightarrow> u64 \<Rightarrow> session \<Rightarrow> session" where
  "drop_receiver cx token s =
     fold (drop_command cx token) (fc_queue (se_controls s token))
       (update_control token (\<lambda>c. c\<lparr>fc_queue := [], fc_receiver := False\<rparr>) s)"

text \<open>What the target receives: bytes, and the end of the stream.\<close>

definition deliver :: "u64 \<Rightarrow> byte list \<Rightarrow> session \<Rightarrow> session" where
  "deliver token p s = s\<lparr>se_delivered := (se_delivered s)(token := se_delivered s token @ p)\<rparr>"

definition deliver_eof :: "u64 \<Rightarrow> session \<Rightarrow> session" where
  "deliver_eof token s = s\<lparr>se_target_eof := insert token (se_target_eof s)\<rparr>"

text \<open>A task whose relay loop failed aborts its flow and reports, unless the session is closing.\<close>

definition report_target_failure :: "relay_context \<Rightarrow> u64 \<Rightarrow> u64 \<Rightarrow> (unit relay) \<Rightarrow> session \<Rightarrow> session" where
  "report_target_failure cx flow_id token send_close s =
     (if se_shutdown s then s
      else let s = control_abort token s;
               s = snd (send_error cx flow_id EC_TargetUnavailable s)
           in snd (send_close s))"

definition end_target_writer :: "relay_context \<Rightarrow> nat \<Rightarrow> u64 \<Rightarrow> u64 \<Rightarrow> bool \<Rightarrow> session \<Rightarrow> session" where
  "end_target_writer cx h flow_id token failed s =
     (let s = drop_receiver cx token s;
          s = (if failed then report_target_failure cx flow_id token (send_tcp_close cx flow_id TCP_CLOSE_ERROR) s else s)
      in begin_send h (WriteClosed flow_id token) s)"

text \<open>\<open>target_writer.shutdown()\<close> followed by the end of the task.\<close>

definition shutdown_target :: "relay_context \<Rightarrow> nat \<Rightarrow> u64 \<Rightarrow> u64 \<Rightarrow> bool \<Rightarrow> session \<Rightarrow> session" where
  "shutdown_target cx h flow_id token ok s =
     (if ok then end_target_writer cx h flow_id token False (deliver_eof token s)
      else end_target_writer cx h flow_id token True s)"

definition finish_target_writer :: "relay_context \<Rightarrow> nat \<Rightarrow> u64 \<Rightarrow> u64 \<Rightarrow> bool \<Rightarrow> session \<Rightarrow> session" where
  "finish_target_writer cx h flow_id token ok s =
     (if fc_closed (se_controls s token) \<and> \<not> fc_aborted (se_controls s token)
      then shutdown_target cx h flow_id token ok s
      else end_target_writer cx h flow_id token False s)"

text \<open>The start of \<open>write_target_command\<close>, on a command just taken from the queue.\<close>

fun begin_target_command :: "relay_context \<Rightarrow> nat \<Rightarrow> u64 \<Rightarrow> u64 \<Rightarrow> bool \<Rightarrow> bool \<Rightarrow> target_command \<Rightarrow> session \<Rightarrow> session" where
  "begin_target_command cx h flow_id token draining ok (CmdData p) s =
     (if fc_aborted (se_controls s token) then end_target_writer cx h flow_id token False (release_data cx token p s)
      else set_task h (TaskWriting draining) (update_control token (\<lambda>c. c\<lparr>fc_writing := Some p\<rparr>) s))"
| "begin_target_command cx h flow_id token draining ok CmdClose s =
     shutdown_target cx h flow_id token ok (control_close token s)"

text \<open>One turn of the loop of \<open>relay_client_to_target\<close>. The branches of its select are tried in order;
  \<open>ok\<close> is the outcome of a shutdown of the target's write half, should the turn make one.\<close>

definition relay_client_to_target :: "relay_context \<Rightarrow> nat \<Rightarrow> u64 \<Rightarrow> u64 \<Rightarrow> bool \<Rightarrow> session \<Rightarrow> session" where
  "relay_client_to_target cx h flow_id token ok s =
     (let c = se_controls s token;
          pop = update_control token (\<lambda>c. c\<lparr>fc_queue := tl (fc_queue c)\<rparr>)
      in case se_task_states s h of
           TaskRunning \<Rightarrow>
             if fc_aborted c then end_target_writer cx h flow_id token False s
             else (case fc_queue c of
                     command # _ \<Rightarrow> begin_target_command cx h flow_id token False ok command (pop s)
                   | [] \<Rightarrow>
                       if \<not> fc_sender c then finish_target_writer cx h flow_id token ok s
                       else if se_shutdown s then set_task h TaskDraining s
                       else s)
         | TaskDraining \<Rightarrow>
             (case fc_queue c of
                command # _ \<Rightarrow> begin_target_command cx h flow_id token True ok command (pop s)
              | [] \<Rightarrow> finish_target_writer cx h flow_id token ok s)
         | _ \<Rightarrow> s)"

text \<open>How the write of a datum ends. Other than in the first case some prefix of it has been written.\<close>

datatype target_write = TargetWritten | TargetWriteFailed nat | TargetWriteTimedOut nat | TargetWriteAborted nat

definition end_write :: "relay_context \<Rightarrow> u64 \<Rightarrow> nat \<Rightarrow> byte list \<Rightarrow> session \<Rightarrow> session" where
  "end_write cx token n p s =
     release_data cx token p (deliver token (take n p) (update_control token (\<lambda>c. c\<lparr>fc_writing := None\<rparr>) s))"

definition write_target_command ::
    "relay_context \<Rightarrow> nat \<Rightarrow> u64 \<Rightarrow> u64 \<Rightarrow> target_write \<Rightarrow> session \<Rightarrow> session" where
  "write_target_command cx h flow_id token outcome s =
     (case (se_task_states s h, fc_writing (se_controls s token)) of
        (TaskWriting draining, Some p) \<Rightarrow>
          (case outcome of
             TargetWritten \<Rightarrow>
               set_task h (if draining then TaskDraining else TaskRunning)
                 (try_record_flow_activity cx Activity (end_write cx token (length p) p s))
           | TargetWriteFailed n \<Rightarrow> end_target_writer cx h flow_id token True (end_write cx token n p s)
           | TargetWriteTimedOut n \<Rightarrow>
               if lm_write_timeout (cx_limits cx) = None then s
               else end_target_writer cx h flow_id token True (end_write cx token n p s)
           | TargetWriteAborted n \<Rightarrow>
               if fc_aborted (se_controls s token)
               then end_target_writer cx h flow_id token False (end_write cx token n p s)
               else s)
      | _ \<Rightarrow> s)"

section \<open>Target readers\<close>

datatype target_read = TargetRead "byte list" | TargetReadFailed | TargetReadStopped

definition reader_stopped :: "u64 \<Rightarrow> session \<Rightarrow> bool" where
  "reader_stopped token s \<longleftrightarrow> se_shutdown s \<or> fc_aborted (se_controls s token)"

definition end_target_reader :: "relay_context \<Rightarrow> nat \<Rightarrow> u64 \<Rightarrow> u64 \<Rightarrow> bool \<Rightarrow> session \<Rightarrow> session" where
  "end_target_reader cx h flow_id token failed s =
     begin_send h (ReadClosed flow_id token)
       (if failed then report_target_failure cx flow_id token (send_tcp_close cx flow_id TCP_CLOSE_ERROR) s else s)"

text \<open>One turn of \<open>relay_target_to_client\<close>; a read returns at most a buffer full, and nothing at the end of
  the stream.\<close>

definition relay_target_to_client :: "relay_context \<Rightarrow> nat \<Rightarrow> u64 \<Rightarrow> u64 \<Rightarrow> target_read \<Rightarrow> session \<Rightarrow> session" where
  "relay_target_to_client cx h flow_id token outcome s =
     (if se_task_states s h \<noteq> TaskRunning then s
      else case outcome of
             TargetReadStopped \<Rightarrow> if reader_stopped token s then end_target_reader cx h flow_id token False s else s
           | TargetReadFailed \<Rightarrow> end_target_reader cx h flow_id token True s
           | TargetRead bytes \<Rightarrow>
               let read = take (lm_data_frame_size (cx_limits cx)) bytes
               in if reader_stopped token s then end_target_reader cx h flow_id token False s
                  else if read = [] then
                    (case send_tcp_close cx flow_id TCP_CLOSE_NORMAL s of
                       (Inl _, s) \<Rightarrow> end_target_reader cx h flow_id token True s
                     | (Inr _, s) \<Rightarrow> end_target_reader cx h flow_id token False s)
                  else
                    (case send_tcp_data cx flow_id read token s of
                       (Inl _, s) \<Rightarrow> end_target_reader cx h flow_id token True s
                     | (Inr _, s) \<Rightarrow> try_record_flow_activity cx Activity s))"

section \<open>UDP readers\<close>

datatype datagram_send_outcome = DatagramSent | DatagramTooLarge | DatagramUnavailable

datatype datagram_attempt = AttemptSent | AttemptFallBack

text \<open>What the datagram channel answers: the largest datagram it takes, and the outcome of a send.\<close>

record datagram_channel =
  dc_max_datagram_size :: "nat option"
  dc_send :: datagram_send_outcome

definition try_send_udp_datagram ::
    "datagram_channel \<Rightarrow> u64 \<Rightarrow> byte list \<Rightarrow> session \<Rightarrow> datagram_attempt \<times> session" where
  "try_send_udp_datagram channel flow_id payload s =
     (case dc_max_datagram_size channel of
        None \<Rightarrow> (AttemptFallBack, s)
      | Some max_datagram_size \<Rightarrow>
          (case datagram_overhead flow_id of
             Inl _ \<Rightarrow> (AttemptFallBack, s)
           | Inr overhead \<Rightarrow>
               if max_datagram_size < overhead + length payload then (AttemptFallBack, s)
               else case datagram_encode flow_id payload of
                      Inl _ \<Rightarrow> (AttemptFallBack, s)
                    | Inr encoded \<Rightarrow>
                        (case dc_send channel of
                           DatagramSent \<Rightarrow> (AttemptSent, s\<lparr>se_datagrams := se_datagrams s @ [encoded]\<rparr>)
                         | _ \<Rightarrow> (AttemptFallBack, s))))"

datatype udp_emit = EmitSent | EmitDroppedTooLarge

definition udp_payload_exceeds_frame_limit :: "nat \<Rightarrow> nat \<Rightarrow> bool" where
  "udp_payload_exceeds_frame_limit payload_len max_payload_len \<longleftrightarrow> max_payload_len < payload_len"

definition emit_udp_to_client ::
    "relay_context \<Rightarrow> datagram_channel \<Rightarrow> u64 \<Rightarrow> u64 \<Rightarrow> byte list \<Rightarrow> udp_emit relay" where
  "emit_udp_to_client cx channel flow_id token payload s =
     (let reliable =
            (if udp_payload_exceeds_frame_limit (length payload) (lm_data_frame_size (cx_limits cx))
             then io_ok EmitDroppedTooLarge
             else io_then (send_udp_data cx flow_id payload token) (\<lambda>_. io_ok EmitSent))
      in if cx_datagrams cx then
           (case try_send_udp_datagram channel flow_id payload s of
              (AttemptSent, s) \<Rightarrow> (Inr EmitSent, s)
            | (AttemptFallBack, s) \<Rightarrow> reliable s)
         else reliable s)"

definition end_udp_reader :: "relay_context \<Rightarrow> nat \<Rightarrow> u64 \<Rightarrow> u64 \<Rightarrow> bool \<Rightarrow> session \<Rightarrow> session" where
  "end_udp_reader cx h flow_id token failed s =
     begin_send h (UdpReadClosed flow_id token)
       (if failed then report_target_failure cx flow_id token (send_udp_close cx flow_id UDP_CLOSE_ERROR) s else s)"

definition relay_udp_target_to_client ::
    "relay_context \<Rightarrow> nat \<Rightarrow> u64 \<Rightarrow> u64 \<Rightarrow> datagram_channel \<Rightarrow> target_read \<Rightarrow> session \<Rightarrow> session" where
  "relay_udp_target_to_client cx h flow_id token channel outcome s =
     (if se_task_states s h \<noteq> TaskRunning then s
      else case outcome of
             TargetReadStopped \<Rightarrow> if reader_stopped token s then end_udp_reader cx h flow_id token False s else s
           | TargetReadFailed \<Rightarrow> end_udp_reader cx h flow_id token True s
           | TargetRead bytes \<Rightarrow>
               let payload = take UDP_TARGET_BUFFER_SIZE bytes
               in if reader_stopped token s then end_udp_reader cx h flow_id token False s
                  else
                    (case emit_udp_to_client cx channel flow_id token payload s of
                       (Inl _, s) \<Rightarrow> end_udp_reader cx h flow_id token True s
                     | (Inr EmitSent, s) \<Rightarrow> try_record_flow_activity cx (UdpActivity flow_id) s
                     | (Inr EmitDroppedTooLarge, s) \<Rightarrow> s))"

section \<open>The datagram reader and the timers\<close>

text \<open>A turn of the datagram reader: a datagram, or the channel's error or the shutdown (\<open>None\<close>).\<close>

definition datagram_reader :: "nat \<Rightarrow> byte list option \<Rightarrow> session \<Rightarrow> session" where
  "datagram_reader h received s =
     (if se_task_states s h \<noteq> TaskRunning then s
      else if se_shutdown s then set_task h TaskDone s
      else case received of
             None \<Rightarrow> set_task h TaskDone s
           | Some datagram \<Rightarrow>
               (case datagram_decode datagram of
                  Inl _ \<Rightarrow> s
                | Inr (flow_id, payload) \<Rightarrow>
                    if \<not> is_client_initiated_flow_id flow_id then s
                    else set_task h (TaskSending (InboundDatagram flow_id payload)) s))"

definition half_close_timer :: "nat \<Rightarrow> u64 \<Rightarrow> u64 \<Rightarrow> half_close_side \<Rightarrow> bool \<Rightarrow> session \<Rightarrow> session" where
  "half_close_timer h flow_id token closed_side elapsed s =
     (if se_task_states s h \<noteq> TaskRunning then s
      else if elapsed then begin_send h (HalfCloseDrainExpired flow_id token closed_side) s
      else if se_shutdown s then set_task h TaskDone s
      else s)"

section \<open>Steps\<close>

datatype task_step =
    OpenStep "unit dial_world" instant bool
  | WriterTurn bool
  | WriterWrite target_write
  | ReaderTurn target_read
  | UdpReaderTurn datagram_channel target_read
  | DatagramTurn "byte list option"
  | TimerTurn bool
  | SendTurn bool

definition task_step :: "relay_context \<Rightarrow> nat \<times> task_step \<Rightarrow> session \<Rightarrow> session" where
  "task_step cx hs s =
     (case hs of (h, step) \<Rightarrow>
        if length (se_tasks s) \<le> h \<or> h \<in> se_aborted_tasks s then s
        else case (se_tasks s ! h, step) of
               (task, SendTurn gives_up) \<Rightarrow> send_flow_event_or_shutdown cx h task gives_up s
             | (TcpOpenTask flow_id token t ps, OpenStep w now stopped) \<Rightarrow>
                 if se_task_states s h = TaskRunning then target_open_step cx h flow_id token t ps w now stopped s else s
             | (UdpOpenTask flow_id token t ps, OpenStep w now stopped) \<Rightarrow>
                 if se_task_states s h = TaskRunning then udp_open_step cx h flow_id token t ps w now stopped s else s
             | (TargetWriterTask flow_id token, WriterTurn ok) \<Rightarrow> relay_client_to_target cx h flow_id token ok s
             | (TargetWriterTask flow_id token, WriterWrite outcome) \<Rightarrow> write_target_command cx h flow_id token outcome s
             | (TargetReaderTask flow_id token, ReaderTurn outcome) \<Rightarrow> relay_target_to_client cx h flow_id token outcome s
             | (UdpReaderTask flow_id token, UdpReaderTurn channel outcome) \<Rightarrow>
                 relay_udp_target_to_client cx h flow_id token channel outcome s
             | (DatagramReaderTask, DatagramTurn received) \<Rightarrow> datagram_reader h received s
             | (HalfCloseTimerTask flow_id token side _, TimerTurn elapsed) \<Rightarrow>
                 half_close_timer h flow_id token side elapsed s
             | _ \<Rightarrow> s)"

definition task_steps :: "relay_context \<Rightarrow> (nat \<times> task_step) list \<Rightarrow> session \<Rightarrow> session" where
  "task_steps cx steps s = fold (task_step cx) steps s"

definition task_ended :: "session \<Rightarrow> nat \<Rightarrow> bool" where
  "task_ended s h \<longleftrightarrow> h \<in> se_aborted_tasks s \<or> se_task_states s h = TaskDone"

text \<open>\<open>abort_all\<close> on the task set. A writer that is dropped before it has left its loop drops the datum it was
  writing and its queue.\<close>

definition drop_writer :: "relay_context \<Rightarrow> u64 \<Rightarrow> session \<Rightarrow> session" where
  "drop_writer cx token s =
     drop_receiver cx token
       (case fc_writing (se_controls s token) of
          Some p \<Rightarrow> release_data cx token p (update_control token (\<lambda>c. c\<lparr>fc_writing := None\<rparr>) s)
        | None \<Rightarrow> s)"

definition drop_task :: "relay_context \<Rightarrow> nat \<times> session_task \<Rightarrow> session \<Rightarrow> session" where
  "drop_task cx ht s =
     (case ht of (h, task) \<Rightarrow>
        if task_ended s h then s
        else abort_task h
          (case (task, se_task_states s h) of
             (TargetWriterTask _ _, TaskSending _) \<Rightarrow> s
           | (TargetWriterTask _ token, _) \<Rightarrow> drop_writer cx token s
           | _ \<Rightarrow> s))"

definition abort_all :: "relay_context \<Rightarrow> session \<Rightarrow> session" where
  "abort_all cx s = fold (drop_task cx) (enumerate 0 (se_tasks s)) s"

definition all_tasks_ended :: "session \<Rightarrow> bool" where
  "all_tasks_ended s \<longleftrightarrow> list_all (task_ended s) [0 ..< length (se_tasks s)]"

text \<open>\<open>drain_session_tasks\<close>: the tasks take the steps given and are joined; those that have not ended are
  aborted when a timeout is configured, and waited for otherwise. The result says whether all have ended.\<close>

definition drain_session_tasks :: "relay_context \<Rightarrow> (nat \<times> task_step) list \<Rightarrow> session \<Rightarrow> bool \<times> session" where
  "drain_session_tasks cx steps s =
     (let s = task_steps cx steps s
      in if all_tasks_ended s then (True, s)
         else if lm_task_shutdown_timeout (cx_limits cx) \<noteq> None then (True, abort_all cx s)
         else (False, s))"

end
