(* ===== verification/Relay_Session.thy ===== *)
theory Relay_Session
  imports Relay_Tasks Settings
begin

text \<open>
  \<open>crates/uk-server/src/relay/session.rs\<close>: the session loop and its teardown. A run is a list of turns:
  the steps the tasks take before the loop is woken, the environment the loop runs in, and the event
  that wakes it. A turn with an event that the select of \<open>next_session_event\<close> cannot deliver at that
  point, and the end of the list, leave the loop waiting. The teardown waits for the tasks, which take
  the steps of a list of their own.
\<close>

section \<open>Events\<close>

datatype session_event =
    FlowEvent "flow_event option"
  | FrameEvent frame
  | FrameReadError frame_io_error
  | SessionTaskCompleted
  | IdleTimeout
  | UdpIdleMaintenance
  | PeerClosed
  | ShutdownEvent
  | DrainTimeout
  | CarrierFailed

datatype session_step = Continue bool | Stop "session_error + unit"

definition map_frame_event :: "frame_io_error + frame \<Rightarrow> session_event" where
  "map_frame_event result =
     (case result of
        Inr f \<Rightarrow> FrameEvent f
      | Inl IoClosed \<Rightarrow> PeerClosed
      | Inl e \<Rightarrow> FrameReadError e)"

definition flow_event_counts_as_session_activity :: "flow_event option \<Rightarrow> session \<Rightarrow> bool" where
  "flow_event_counts_as_session_activity ev s =
     (case ev of
        Some Activity \<Rightarrow> True
      | Some (UdpActivity flow_id) \<Rightarrow> udp_flow s flow_id \<noteq> None
      | Some (InboundDatagram flow_id _) \<Rightarrow> udp_flow s flow_id \<noteq> None
      | _ \<Rightarrow> False)"

definition session_has_activity_flows :: "session \<Rightarrow> bool" where
  "session_has_activity_flows s \<longleftrightarrow> se_flows s \<noteq> []"

fun handle_flow_event :: "relay_context \<Rightarrow> 'tls session_env \<Rightarrow> flow_event option \<Rightarrow> unit relay" where
  "handle_flow_event cx en (Some (OpenCompleted flow_id token t result)) =
     handle_tcp_open_completed cx flow_id token result"
| "handle_flow_event cx en (Some (UdpOpenCompleted flow_id token t result)) =
     handle_udp_open_completed cx en flow_id token result"
| "handle_flow_event cx en (Some (ReadClosed flow_id token)) = modify (handle_target_read_closed cx flow_id token)"
| "handle_flow_event cx en (Some (UdpReadClosed flow_id token)) = modify (handle_udp_read_closed flow_id token)"
| "handle_flow_event cx en (Some (UdpActivity flow_id)) = modify (record_activity flow_id (en_now en))"
| "handle_flow_event cx en (Some (InboundDatagram flow_id payload)) = modify (forward_udp_datagram en flow_id payload)"
| "handle_flow_event cx en (Some (HalfCloseDrainExpired flow_id token closed_side)) =
     handle_half_close_drain_expired cx flow_id token closed_side"
| "handle_flow_event cx en (Some (WriteClosed flow_id token)) = modify (handle_target_write_closed cx flow_id token)"
| "handle_flow_event cx en (Some Activity) = io_ok ()"
| "handle_flow_event cx en None = io_ok ()"

section \<open>Frames\<close>

definition validate_or_report_session_control_frame :: "relay_context \<Rightarrow> frame \<Rightarrow> frame_type \<Rightarrow> unit relay" where
  "validate_or_report_session_control_frame cx f expected_type =
     (case validate_connection_frame f expected_type of
        Inl e \<Rightarrow> io_then (send_error cx 0 EC_Protocol) (\<lambda>_. io_err (SE_Protocol e))
      | Inr _ \<Rightarrow> io_ok ())"

definition reject_unexpected_session_frame :: "relay_context \<Rightarrow> frame \<Rightarrow> unit relay" where
  "reject_unexpected_session_frame cx f =
     io_then (send_error cx (fh_id (fr_header f)) EC_Protocol) (\<lambda>_.
     io_err (SE_Message ''unexpected frame while relaying session''))"

definition report_frame_io_error :: "relay_context \<Rightarrow> frame_io_error \<Rightarrow> session \<Rightarrow> session" where
  "report_frame_io_error cx e s =
     (case e of
        IoProtocol p \<Rightarrow> snd (send_error cx 0 (from_protocol_error p) s)
      | _ \<Rightarrow> s)"

definition handle_settings_frame :: "relay_context \<Rightarrow> frame \<Rightarrow> unit relay" where
  "handle_settings_frame cx f =
     io_then (validate_or_report_session_control_frame cx f FT_Settings) (\<lambda>_ s.
     if se_settings_received s then
       io_then (send_error cx 0 EC_Protocol) (\<lambda>_. io_err (SE_Message ''duplicate client settings frame'')) s
     else if se_flows s \<noteq> [] then
       io_then (send_error cx 0 EC_Protocol)
         (\<lambda>_. io_err (SE_Message ''client settings arrived after relay flows started'')) s
     else case settings_decode (fr_payload f) of
            Inl e \<Rightarrow> io_then (send_error cx 0 EC_Protocol) (\<lambda>_. io_err (SE_Protocol e)) s
          | Inr settings \<Rightarrow>
              (case negotiated_v1_0 settings of
                 Inl e \<Rightarrow> io_then (send_error cx 0 EC_Protocol) (\<lambda>_. io_err (SE_Protocol e)) s
               | Inr _ \<Rightarrow> (Inr (), s\<lparr>se_settings_received := True\<rparr>)))"

definition dispatch_session_frame :: "relay_context \<Rightarrow> 'tls session_env \<Rightarrow> frame \<Rightarrow> unit relay" where
  "dispatch_session_frame cx en f =
     (case fh_frame_type (fr_header f) of
        FT_TcpOpen \<Rightarrow> handle_tcp_open_frame cx en f
      | FT_TcpData \<Rightarrow> handle_tcp_data_frame cx f
      | FT_TcpClose \<Rightarrow> handle_tcp_close_frame cx f
      | FT_UdpOpen \<Rightarrow> handle_udp_open_frame cx en f
      | FT_UdpData \<Rightarrow> handle_udp_data_frame cx en f
      | FT_UdpClose \<Rightarrow> handle_udp_close_frame cx f
      | FT_Settings \<Rightarrow> handle_settings_frame cx f
      | FT_Error \<Rightarrow> handle_client_flow_status_frame cx f
      | FT_PolicyDenied \<Rightarrow> handle_client_flow_status_frame cx f
      | FT_ResourceLimit \<Rightarrow> handle_client_flow_status_frame cx f
      | FT_Ping \<Rightarrow>
          io_then (validate_or_report_session_control_frame cx f FT_Ping) (\<lambda>_. write_pong cx f)
      | FT_Pong \<Rightarrow> validate_or_report_session_control_frame cx f FT_Pong
      | _ \<Rightarrow> reject_unexpected_session_frame cx f)"

definition handle_session_frame :: "relay_context \<Rightarrow> 'tls session_env \<Rightarrow> frame \<Rightarrow> unit relay" where
  "handle_session_frame cx en f s =
     (let flow_id = fh_id (fr_header f); frame_type = fh_frame_type (fr_header f)
      in if se_state s = Draining \<and> frame_type = FT_TcpOpen then
           io_then (send_resource_limit cx flow_id) (\<lambda>_. send_tcp_close cx flow_id TCP_CLOSE_ERROR) s
         else if se_state s = Draining \<and> frame_type = FT_UdpOpen then
           io_then (send_resource_limit cx flow_id) (\<lambda>_. send_udp_close cx flow_id UDP_CLOSE_ERROR) s
         else dispatch_session_frame cx en f s)"

section \<open>The loop\<close>

definition step_of :: "(session_error + unit) \<times> session \<Rightarrow> bool \<Rightarrow> session_step \<times> session" where
  "step_of r counts_as_activity =
     (case r of (Inl e, s) \<Rightarrow> (Stop (Inl e), s) | (Inr _, s) \<Rightarrow> (Continue counts_as_activity, s))"

fun handle_session_event ::
    "relay_context \<Rightarrow> 'tls session_env \<Rightarrow> session_event \<Rightarrow> session \<Rightarrow> session_step \<times> session" where
  "handle_session_event cx en (FlowEvent ev) s =
     step_of (handle_flow_event cx en ev s) (flow_event_counts_as_session_activity ev s)"
| "handle_session_event cx en (FrameEvent f) s =
     step_of (handle_session_frame cx en f s)
       (fh_frame_type (fr_header f) \<in> {FT_Ping, FT_Pong} \<or> session_has_activity_flows s)"
| "handle_session_event cx en SessionTaskCompleted s = (Continue False, s)"
| "handle_session_event cx en UdpIdleMaintenance s = step_of (close_idle_udp_flows cx en s) False"
| "handle_session_event cx en (FrameReadError e) s = (Stop (Inl (SE_FrameIo e)), report_frame_io_error cx e s)"
| "handle_session_event cx en IdleTimeout s = (Stop (Inr ()), s)"
| "handle_session_event cx en PeerClosed s = (Stop (Inr ()), s)"
| "handle_session_event cx en ShutdownEvent s =
     (let s = (if se_state s = Relaying then transition Draining s else s)
      in if se_flows s = [] then (Stop (Inr ()), s) else (Continue False, s))"
| "handle_session_event cx en DrainTimeout s = (Stop (Inr ()), s)"
| "handle_session_event cx en CarrierFailed s = (Stop (Inl SE_CarrierUnusable), s)"

definition close_slot :: "relay_context \<Rightarrow> flow_slot \<Rightarrow> session \<Rightarrow> session" where
  "close_slot cx slot s =
     (case slot of
        OpeningTcp c \<Rightarrow> cancel_open (oc_token c) s
      | OpeningUdp c \<Rightarrow> cancel_open (oc_token c) s
      | TcpFlow f \<Rightarrow>
          (case close_client_to_target cx (mark_target_to_client_closed f, s) of (f, s) \<Rightarrow> drop_slot (TcpFlow f) s)
      | UdpFlow f \<Rightarrow> drop_slot (UdpFlow f) (control_abort (uf_token f) s))"

definition close_target_flows :: "relay_context \<Rightarrow> session \<Rightarrow> session" where
  "close_target_flows cx s = fold (close_slot cx) (map snd (se_flows s)) (s\<lparr>se_flows := []\<rparr>)"

text \<open>\<open>close_session\<close>, up to the shutdown of the carrier's write half. The result says whether it is through,
  or still waits for tasks.\<close>

definition close_session :: "relay_context \<Rightarrow> (nat \<times> task_step) list \<Rightarrow> session \<Rightarrow> bool \<times> session" where
  "close_session cx steps s =
     (case drain_session_tasks cx steps (close_target_flows cx (shutdown_close (transition Closing s))) of
        (True, s) \<Rightarrow> (True, transition Closed (s\<lparr>se_flows := []\<rparr>))
      | (False, s) \<Rightarrow> (False, s))"

record loop_timers =
  lt_idle_deadline :: "instant option"
  lt_drain_deadline_set :: bool
  lt_drain_deadline :: "instant option"

definition deadline_after :: "instant \<Rightarrow> instant \<Rightarrow> duration option \<Rightarrow> instant option" where
  "deadline_after latest now timeout =
     (case timeout of None \<Rightarrow> None | Some d \<Rightarrow> if now + d \<le> latest then Some (now + d) else None)"

text \<open>The events \<open>next_session_event\<close> can return.\<close>

definition reached :: "instant option \<Rightarrow> instant \<Rightarrow> bool" where
  "reached deadline now = (case deadline of None \<Rightarrow> False | Some t \<Rightarrow> t \<le> now)"

fun event_enabled :: "relay_context \<Rightarrow> 'tls session_env \<Rightarrow> loop_timers \<Rightarrow> session \<Rightarrow> session_event \<Rightarrow> bool" where
  "event_enabled cx en lt s ShutdownEvent \<longleftrightarrow> se_state s \<noteq> Draining"
| "event_enabled cx en lt s ev \<longleftrightarrow>
     \<not> (se_state s \<noteq> Draining \<and> en_shutdown_requested en) \<and>
     (case ev of
        IdleTimeout \<Rightarrow> reached (lt_idle_deadline lt) (en_now en)
      | DrainTimeout \<Rightarrow> se_state s = Draining \<and> reached (lt_drain_deadline lt) (en_now en)
      | CarrierFailed \<Rightarrow> se_shutdown s
      | UdpIdleMaintenance \<Rightarrow> lm_udp_idle_timeout (cx_limits cx) \<noteq> None
      | SessionTaskCompleted \<Rightarrow> list_ex (task_ended s) [0 ..< length (se_tasks s)]
      | FlowEvent received \<Rightarrow> (case received of None \<Rightarrow> False | Some e \<Rightarrow> take 1 (se_events s) = [e])
      | _ \<Rightarrow> True)"

definition receive_event :: "session_event \<Rightarrow> session \<Rightarrow> session" where
  "receive_event ev s = (case ev of FlowEvent _ \<Rightarrow> s\<lparr>se_events := tl (se_events s)\<rparr> | _ \<Rightarrow> s)"

text \<open>How a run stands: waiting for an event, refused because the event it was given cannot happen there,
  waiting for the tasks to end, or ended.\<close>

datatype session_run = Waiting session | Refused session | Joining session | Ended "session_error + unit" session

fun run_session :: "session_run \<Rightarrow> session" where
  "run_session (Waiting s) = s"
| "run_session (Refused s) = s"
| "run_session (Joining s) = s"
| "run_session (Ended _ s) = s"

definition end_session ::
    "relay_context \<Rightarrow> (nat \<times> task_step) list \<Rightarrow> session_error + unit \<Rightarrow> session \<Rightarrow> session_run" where
  "end_session cx steps result s =
     (case close_session cx steps s of (True, s) \<Rightarrow> Ended result s | (False, s) \<Rightarrow> Joining s)"

type_synonym 'tls turn = "(nat \<times> task_step) list \<times> 'tls session_env \<times> session_event"

fun session_loop ::
    "relay_context \<Rightarrow> duration option \<Rightarrow> (nat \<times> task_step) list \<Rightarrow> 'tls turn list \<Rightarrow> loop_timers \<Rightarrow> session \<Rightarrow> session_run" where
  "session_loop cx idle_timeout closing [] lt s = Waiting s"
| "session_loop cx idle_timeout closing ((steps, en, ev) # rest) lt s =
     (let s = task_steps cx steps s
      in if \<not> event_enabled cx en lt s ev then Refused s
         else case handle_session_event cx en ev (receive_event ev s) of
                (Stop result, s) \<Rightarrow> end_session cx closing result s
              | (Continue counts_as_activity, s) \<Rightarrow>
                  let lt = (if counts_as_activity
                            then lt\<lparr>lt_idle_deadline := deadline_after (cx_latest cx) (en_now en) idle_timeout\<rparr> else lt)
                  in if se_state s = Draining \<and> se_flows s = [] then end_session cx closing (Inr ()) s
                     else session_loop cx idle_timeout closing rest
                       (if se_state s = Draining \<and> \<not> lt_drain_deadline_set lt
                        then lt\<lparr>lt_drain_deadline_set := True,
                                lt_drain_deadline :=
                                  deadline_after (cx_latest cx) (en_now en) (lm_task_shutdown_timeout (cx_limits cx))\<rparr>
                        else lt) s)"

definition session_new :: "budgets \<Rightarrow> write_outcome list \<Rightarrow> session" where
  "session_new bg writes =
     \<lparr>se_flows = [], se_controls = \<lambda>_. flow_control_new, se_cancelled = {}, se_state = Authenticated,
      se_settings_received = False, se_next_token = 1, se_budgets = bg, se_shutdown = False, se_out = [],
      se_writes = writes, se_tasks = [], se_task_states = \<lambda>_. TaskRunning, se_aborted_tasks = {}, se_events = [],
      se_enqueued = \<lambda>_. [], se_delivered = \<lambda>_. [], se_target_eof = {}, se_datagrams = [], se_dialed = [],
      se_udp_sent = [], se_assert_failed = False\<rparr>"

definition maybe_spawn_datagram_reader :: "relay_context \<Rightarrow> session \<Rightarrow> session" where
  "maybe_spawn_datagram_reader cx s = (if cx_datagrams cx then snd (spawn_task DatagramReaderTask s) else s)"

definition relay_session ::
    "relay_context \<Rightarrow> instant \<Rightarrow> duration option \<Rightarrow> budgets \<Rightarrow> write_outcome list \<Rightarrow> (nat \<times> task_step) list \<Rightarrow>
     'tls turn list \<Rightarrow> session_run" where
  "relay_session cx now idle_timeout bg writes closing turns =
     session_loop cx idle_timeout closing turns
       \<lparr>lt_idle_deadline = deadline_after (cx_latest cx) now idle_timeout, lt_drain_deadline_set = False,
        lt_drain_deadline = None\<rparr>
       (maybe_spawn_datagram_reader cx (transition Relaying (session_new bg writes)))"

end
