(* ===== verification/Relay_Steps.thy ===== *)
theory Relay_Steps
  imports Relay_Session
begin

text \<open>
  Every handler of the session loop and every step of a task is a sequence of small steps, each one a
  single change of the session under a condition the code has checked. The small steps are listed once;
  a property of sessions that each of them keeps is kept by the whole program.
\<close>

section \<open>Small steps\<close>

definition is_timer :: "session \<Rightarrow> nat \<Rightarrow> bool" where
  "is_timer s h \<longleftrightarrow> h < length (se_tasks s) \<and>
     (case se_tasks s ! h of HalfCloseTimerTask _ _ _ _ \<Rightarrow> True | _ \<Rightarrow> False)"

definition is_writer :: "session \<Rightarrow> nat \<Rightarrow> u64 \<Rightarrow> bool" where
  "is_writer s h token \<longleftrightarrow> h < length (se_tasks s) \<and> h \<notin> se_aborted_tasks s \<and>
     (\<exists>flow_id. se_tasks s ! h = TargetWriterTask flow_id token)"

definition is_live_writer :: "session \<Rightarrow> nat \<Rightarrow> u64 \<Rightarrow> bool" where
  "is_live_writer s h token \<longleftrightarrow> is_writer s h token \<and> se_task_states s h \<in> {TaskRunning, TaskDraining, TaskWriting True, TaskWriting False}"

text \<open>The slot of a flow may change while the flow stays the same: its token, its permit and its protocol.
  A half-close timer it has is a timer task, or the one it had.\<close>

definition same_flow :: "session \<Rightarrow> target_flow \<Rightarrow> target_flow \<Rightarrow> bool" where
  "same_flow s f f' \<longleftrightarrow> tf_token f' = tf_token f \<and> tf_flow_permit f' = tf_flow_permit f \<and>
     (\<forall>h. tf_half_close_timer f' = Some h \<longrightarrow> tf_half_close_timer f = Some h \<or> is_timer s h)"

fun same_slot :: "session \<Rightarrow> flow_slot \<Rightarrow> flow_slot \<Rightarrow> bool" where
  "same_slot s (TcpFlow f) (TcpFlow f') = same_flow s f f'"
| "same_slot s (UdpFlow f) (UdpFlow f') = (uf_token f' = uf_token f \<and> uf_flow_permit f' = uf_flow_permit f)"
| "same_slot s _ _ = False"

definition queue_has_room :: "relay_context \<Rightarrow> session \<Rightarrow> u64 \<Rightarrow> bool" where
  "queue_has_room cx s token \<longleftrightarrow> fc_receiver (se_controls s token) \<and>
     length (fc_queue (se_controls s token)) < target_write_queue_capacity (lm_flow_bytes (cx_limits cx))"

definition push_command :: "u64 \<Rightarrow> target_command \<Rightarrow> session \<Rightarrow> session" where
  "push_command token cmd = update_control token (\<lambda>c. c\<lparr>fc_queue := fc_queue c @ [cmd]\<rparr>)"

definition pop_command :: "u64 \<Rightarrow> session \<Rightarrow> session" where
  "pop_command token = update_control token (\<lambda>c. c\<lparr>fc_queue := tl (fc_queue c)\<rparr>)"

text \<open>A new flow in its slot, with the tasks that serve it.\<close>

definition new_token :: "session \<Rightarrow> session" where
  "new_token s = update_control (se_next_token s) (\<lambda>_. flow_control_new) (s\<lparr>se_next_token := se_next_token s + 1\<rparr>)"

definition establish_tcp :: "u64 \<Rightarrow> u64 option \<Rightarrow> session \<Rightarrow> session" where
  "establish_tcp flow_id permit s =
     (let token = se_next_token s
      in set_slot flow_id (TcpFlow (target_flow_new token permit))
           (snd (spawn_task (TargetWriterTask flow_id token)
             (snd (spawn_task (TargetReaderTask flow_id token) (new_token s))))))"

definition establish_udp :: "u64 \<Rightarrow> instant \<Rightarrow> u64 option \<Rightarrow> session \<Rightarrow> session" where
  "establish_udp flow_id now permit s =
     (let token = se_next_token s
      in set_slot flow_id (UdpFlow (udp_target_flow_new token now permit))
           (snd (spawn_task (UdpReaderTask flow_id token) (new_token s))))"

definition may_admit :: "relay_context \<Rightarrow> u64 \<Rightarrow> session \<Rightarrow> bool" where
  "may_admit cx flow_id s \<longleftrightarrow> is_client_initiated_flow_id flow_id \<and> hm_get (se_flows s) flow_id = None \<and>
     hm_len (se_flows s) < unat (lm_max_streams (cx_limits cx)) \<and> se_state s \<noteq> Draining"

text \<open>The event a task sends about its flow.\<close>

definition task_event :: "session_task \<Rightarrow> flow_event \<Rightarrow> bool" where
  "task_event task ev \<longleftrightarrow>
     (case task of
        TcpOpenTask flow_id token t _ \<Rightarrow> \<exists>r. ev = OpenCompleted flow_id token t r
      | UdpOpenTask flow_id token t _ \<Rightarrow> \<exists>r. ev = UdpOpenCompleted flow_id token t r
      | TargetReaderTask flow_id token \<Rightarrow> ev = ReadClosed flow_id token
      | TargetWriterTask flow_id token \<Rightarrow> ev = WriteClosed flow_id token
      | UdpReaderTask flow_id token \<Rightarrow> ev = UdpReadClosed flow_id token
      | DatagramReaderTask \<Rightarrow> \<exists>flow_id p. ev = InboundDatagram flow_id p \<and> is_client_initiated_flow_id flow_id
      | HalfCloseTimerTask flow_id token side _ \<Rightarrow> ev = HalfCloseDrainExpired flow_id token side)"

definition dials_of :: "relay_context \<Rightarrow> session_task \<Rightarrow> target \<Rightarrow> policy_set \<Rightarrow> connect_tasks \<Rightarrow> bool" where
  "dials_of cx task t ps ts \<longleftrightarrow> (\<exists>flow_id token w now.
     task = TcpOpenTask flow_id token t ps \<and>
       ts = snd (snd (connect_allowed_target (w :: unit dial_world) t (cx_identity cx) ps now (cx_latest cx) (lm_connect_timeout (cx_limits cx)))) \<or>
     task = UdpOpenTask flow_id token t ps \<and>
       ts = snd (snd (connect_allowed_udp_target w t (cx_identity cx) ps now (cx_latest cx) (lm_connect_timeout (cx_limits cx)))))"

text \<open>The permissions of a run: the policies the security state has given for the session's identity,
  whether tokens are handed out, and whether the session is being closed.\<close>

type_synonym permissions = "(policy_set \<Rightarrow> bool) \<times> bool \<times> bool"

inductive small_step :: "relay_context \<Rightarrow> permissions \<Rightarrow> session \<Rightarrow> session \<Rightarrow> bool" for cx perm where
  frame_written: "frame_new ft 0 i p = Inr f \<Longrightarrow> \<not> se_shutdown s \<Longrightarrow>
    small_step cx perm s (s\<lparr>se_writes := tl (se_writes s), se_out := se_out s @ [f]\<rparr>)"
| frame_failed: "small_step cx perm s (s\<lparr>se_writes := tl (se_writes s)\<rparr>)"
| shut_down: "small_step cx perm s (shutdown_close s)"
| control_closed: "small_step cx perm s (control_close token s)"
| control_aborted: "small_step cx perm s (control_abort token s)"
| close_queued: "fc_closed (se_controls s token) \<Longrightarrow> queue_has_room cx s token \<Longrightarrow>
    small_step cx perm s (push_command token CmdClose s)"
| sender_dropped: "small_step cx perm s (drop_sender token s)"
| data_queued: "hm_get (se_flows s) i = Some (TcpFlow f) \<Longrightarrow> \<not> fc_closed (se_controls s (tf_token f)) \<Longrightarrow>
    queue_has_room cx s (tf_token f) \<Longrightarrow>
    control_reserve_bytes (budget_limits_of cx) (budget_key cx (tf_token f)) (length p) (se_budgets s) = (True, bg) \<Longrightarrow>
    small_step cx perm s (push_command (tf_token f) (CmdData p) (s\<lparr>se_budgets := bg,
      se_enqueued := (se_enqueued s)(tf_token f := se_enqueued s (tf_token f) @ p)\<rparr>))"
| slot_changed: "hm_get (se_flows s) i = Some slot \<Longrightarrow> same_slot s slot slot' \<Longrightarrow> small_step cx perm s (set_slot i slot' s)"
| slot_removed: "small_step cx perm s (s\<lparr>se_flows := hm_remove i (se_flows s)\<rparr>)"
| slots_cleared: "small_step cx perm s (s\<lparr>se_flows := []\<rparr>)"
| open_cancelled: "small_step cx perm s (cancel_open token s)"
| timer_aborted: "(hm_get (se_flows s) i = Some (TcpFlow f) \<and> tf_half_close_timer f = Some h) \<or> is_timer s h \<Longrightarrow>
    small_step cx perm s (abort_task h s)"
| timer_spawned: "small_step cx perm s (snd (spawn_task (HalfCloseTimerTask i token side d) s))"
| tcp_admitted: "may_admit cx i s \<Longrightarrow> fst perm ps \<Longrightarrow>
    fst (snd perm) \<Longrightarrow> se_next_token s + 1 \<noteq> 0 \<Longrightarrow> small_step cx perm s (admit_tcp_open i t ps s)"
| udp_admitted: "may_admit cx i s \<Longrightarrow> udp_flow_count s < unat (lm_max_udp_flows (cx_limits cx)) \<Longrightarrow>
    fst perm ps \<Longrightarrow> fst (snd perm) \<Longrightarrow> se_next_token s + 1 \<noteq> 0 \<Longrightarrow> small_step cx perm s (admit_udp_open i t ps s)"
| token_allocated: "fst (snd perm) \<Longrightarrow> se_next_token s + 1 \<noteq> 0 \<Longrightarrow> small_step cx perm s (new_token s)"
| tcp_established: "hm_get (se_flows s) i = Some (OpeningTcp c) \<Longrightarrow> fst (snd perm) \<Longrightarrow> se_next_token s + 1 \<noteq> 0 \<Longrightarrow>
    small_step cx perm s (establish_tcp i (oc_permit c) s)"
| udp_established: "hm_get (se_flows s) i = Some (OpeningUdp c) \<Longrightarrow> fst (snd perm) \<Longrightarrow> se_next_token s + 1 \<noteq> 0 \<Longrightarrow>
    small_step cx perm s (establish_udp i now (oc_permit c) s)"
| udp_sent: "hm_get (se_flows s) i = Some (UdpFlow f) \<Longrightarrow> small_step cx perm s (udp_socket_send (uf_token f) p s)"
| settings_received: "small_step cx perm s (s\<lparr>se_settings_received := True\<rparr>)"
| state_changed: "is_valid_session_transition (se_state s) nx \<Longrightarrow> nx = Draining \<or> snd (snd perm) \<and> nx \<in> {Closing, Closed} \<Longrightarrow> (nx = Closed \<Longrightarrow> se_state s = Closing \<and> se_flows s = []) \<Longrightarrow>
    small_step cx perm s (transition nx s)"
| event_received: "small_step cx perm s (s\<lparr>se_events := tl (se_events s)\<rparr>)"
| event_pushed: "(\<exists>h < length (se_tasks s). se_task_states s h = TaskSending ev) \<or> ev = Activity \<or> (\<exists>i. ev = UdpActivity i) \<Longrightarrow>
    small_step cx perm s (push_event ev s)"
| task_finished: "h < length (se_tasks s) \<Longrightarrow> h \<notin> se_aborted_tasks s \<Longrightarrow>
    st = TaskDone \<or> (\<exists>ev. st = TaskSending ev \<and> task_event (se_tasks s ! h) ev) \<or> (st = TaskRunning \<and> se_tasks s ! h = DatagramReaderTask) \<Longrightarrow>
    (\<And>i token. se_tasks s ! h = TargetWriterTask i token \<Longrightarrow>
       \<not> fc_receiver (se_controls s token) \<and> fc_queue (se_controls s token) = [] \<and> fc_writing (se_controls s token) = None) \<Longrightarrow>
    small_step cx perm s (set_task h st s)"
| writer_draining: "is_writer s h token \<Longrightarrow> se_task_states s h = TaskRunning \<Longrightarrow> small_step cx perm s (set_task h TaskDraining s)"
| data_taken: "is_writer s h token \<Longrightarrow> se_task_states s h = (if draining then TaskDraining else TaskRunning) \<Longrightarrow>
    fc_queue (se_controls s token) = CmdData p # q \<Longrightarrow>
    small_step cx perm s (set_task h (TaskWriting draining)
      (update_control token (\<lambda>c. c\<lparr>fc_writing := Some p\<rparr>) (pop_command token s)))"
| data_written: "is_writer s h token \<Longrightarrow> se_task_states s h = TaskWriting draining \<Longrightarrow>
    fc_writing (se_controls s token) = Some p \<Longrightarrow>
    small_step cx perm s (set_task h (if draining then TaskDraining else TaskRunning) (end_write cx token (length p) p s))"
| write_cut_short: "is_writer s h token \<Longrightarrow> se_task_states s h = TaskWriting draining \<Longrightarrow>
    fc_writing (se_controls s token) = Some p \<Longrightarrow> small_step cx perm s (set_task h TaskDone (drop_receiver cx token (end_write cx token n p s)))"
| receiver_dropped: "is_live_writer s h token \<Longrightarrow> fc_writing (se_controls s token) = None \<Longrightarrow>
    small_step cx perm s (set_task h TaskDone (drop_receiver cx token s))"
| end_of_stream: "is_writer s h token \<Longrightarrow> se_task_states s h \<in> {TaskRunning, TaskDraining} \<Longrightarrow>
    fc_closed (se_controls s token) \<Longrightarrow>
    fc_queue (se_controls s token) = [] \<or> (\<exists>q. fc_queue (se_controls s token) = CmdClose # q) \<Longrightarrow>
    small_step cx perm s (deliver_eof token s)"
| targets_dialed: "h < length (se_tasks s) \<Longrightarrow> dials_of cx (se_tasks s ! h) t ps ts \<Longrightarrow> small_step cx perm s (record_dials t ps ts s)"
| datagram_sent: "datagram_encode i p = Inr d \<Longrightarrow> small_step cx perm s (s\<lparr>se_datagrams := se_datagrams s @ [d]\<rparr>)"
| writer_aborted: "is_live_writer s h token \<Longrightarrow> small_step cx perm s (abort_task h (drop_writer cx token s))"
| task_aborted: "h < length (se_tasks s) \<Longrightarrow> (\<And>token. \<not> is_live_writer s h token) \<Longrightarrow> small_step cx perm s (abort_task h s)"

definition small_steps :: "relay_context \<Rightarrow> permissions \<Rightarrow> session \<Rightarrow> session \<Rightarrow> bool" where
  "small_steps cx perm = (small_step cx perm)\<^sup>*\<^sup>*"


lemma ss_refl [simp, intro]: "small_steps cx G s s"
  by (simp add: small_steps_def)

lemma ss_trans [trans]: "small_steps cx G s s' \<Longrightarrow> small_steps cx G s' s'' \<Longrightarrow> small_steps cx G s s''"
  by (simp add: small_steps_def)

lemma ss_one: "small_step cx G s s' \<Longrightarrow> small_steps cx G s s'"
  by (simp add: small_steps_def r_into_rtranclp)

lemma ss_then: "small_steps cx G s s' \<Longrightarrow> small_step cx G s' s'' \<Longrightarrow> small_steps cx G s s''"
  by (rule ss_trans [OF _ ss_one])

section \<open>Carrier writes\<close>

definition carrier_only :: "session \<Rightarrow> session \<Rightarrow> bool" where
  "carrier_only s s' \<longleftrightarrow> s' = s\<lparr>se_writes := se_writes s', se_out := se_out s', se_shutdown := se_shutdown s'\<rparr>"

lemma carrier_only_refl [simp]: "carrier_only s s"
  by (simp add: carrier_only_def)

lemma carrier_only_trans:
  assumes "carrier_only s s'" "carrier_only s' s''"
  shows "carrier_only s s''"
proof -
  have "s'' = s\<lparr>se_writes := se_writes s', se_out := se_out s', se_shutdown := se_shutdown s'\<rparr>
      \<lparr>se_writes := se_writes s'', se_out := se_out s'', se_shutdown := se_shutdown s''\<rparr>"
    using assms unfolding carrier_only_def by metis
  then show ?thesis by (simp add: carrier_only_def)
qed

lemma carrier_onlyD:
  assumes "carrier_only s s'"
  shows "se_flows s' = se_flows s" "se_controls s' = se_controls s" "se_next_token s' = se_next_token s"
    "se_state s' = se_state s" "se_tasks s' = se_tasks s" "se_task_states s' = se_task_states s"
    "se_aborted_tasks s' = se_aborted_tasks s" "se_cancelled s' = se_cancelled s" "se_budgets s' = se_budgets s"
proof -
  have *: "s' = s\<lparr>se_writes := se_writes s', se_out := se_out s', se_shutdown := se_shutdown s'\<rparr>"
    using assms by (simp add: carrier_only_def)
  show "se_flows s' = se_flows s" "se_controls s' = se_controls s" "se_next_token s' = se_next_token s"
    "se_state s' = se_state s" "se_tasks s' = se_tasks s" "se_task_states s' = se_task_states s"
    "se_aborted_tasks s' = se_aborted_tasks s" "se_cancelled s' = se_cancelled s" "se_budgets s' = se_budgets s"
    by (subst *, simp)+
qed

definition sends :: "relay_context \<Rightarrow> permissions \<Rightarrow> 'a relay \<Rightarrow> bool" where
  "sends cx G m \<longleftrightarrow> (\<forall>s. small_steps cx G s (snd (m s)) \<and> carrier_only s (snd (m s)))"

named_theorems sends_intros

lemma sendsD: "sends cx G m \<Longrightarrow> m s = (r, s') \<Longrightarrow> small_steps cx G s s' \<and> carrier_only s s'"
  by (metis sends_def snd_conv)

lemma sends_basic [sends_intros]: "sends cx G (io_ok a)" "sends cx G (io_err e)" "sends cx G (protocol_result r)"
  by (simp_all add: sends_def io_ok_def io_err_def protocol_result_def)

lemma sends_then [sends_intros]:
  assumes "sends cx G m" "\<And>a. sends cx G (f a)"
  shows "sends cx G (io_then m f)"
  unfolding sends_def
proof
  fix s
  obtain r s' where m: "m s = (r, s')" by (cases "m s")
  with assms(1) have "small_steps cx G s s' \<and> carrier_only s s'" by (rule sendsD)
  moreover obtain r' s'' where f: "r = Inr a \<Longrightarrow> f a s' = (r', s'')" for a by (cases r) (auto, metis surj_pair)
  moreover have "r = Inr a \<Longrightarrow> small_steps cx G s' s'' \<and> carrier_only s' s''" for a
    using f sendsD [OF assms(2)] by blast
  ultimately show "small_steps cx G s (snd (io_then m f s)) \<and> carrier_only s (snd (io_then m f s))"
    by (cases r) (auto simp: io_then_def m intro: ss_trans carrier_only_trans)
qed

lemma sends_then_frame [sends_intros]:
  assumes "\<And>f. r = Inr f \<Longrightarrow> sends cx G (k f)"
  shows "sends cx G (io_then (protocol_result r) k)"
  using assms by (cases r) (auto simp: sends_def io_then_def protocol_result_def)

lemma carrier_write_sends:
  assumes "frame_new ft 0 i p = Inr f" "\<not> se_shutdown s"
  shows "small_steps cx G s (snd (carrier_write cx f s))" "carrier_only s (snd (carrier_write cx f s))"
proof -
  have "small_steps cx G s (s\<lparr>se_writes := tl (se_writes s)\<rparr>)" "small_steps cx G s (s\<lparr>se_writes := tl (se_writes s), se_out := se_out s @ [f]\<rparr>)"
    using small_step.frame_written [OF assms] small_step.frame_failed by (blast intro: ss_one)+
  moreover have "small_steps cx G s (shutdown_close (s\<lparr>se_writes := tl (se_writes s)\<rparr>))"
    by (rule ss_then [OF ss_one small_step.shut_down]) (rule small_step.frame_failed)
  ultimately show "small_steps cx G s (snd (carrier_write cx f s))"
    by (auto simp: carrier_write_def Let_def split: write_outcome.splits list.splits)
  show "carrier_only s (snd (carrier_write cx f s))"
    by (simp add: carrier_only_def carrier_write_def Let_def shutdown_close_def split: write_outcome.splits list.splits)
qed

lemma sends_write_frame [sends_intros]:
  assumes "frame_new ft 0 i p = Inr f"
  shows "sends cx G (write_frame_locked cx f)" "sends cx G (write_flow_frame_locked cx f token)"
  using carrier_write_sends [OF assms] by (simp_all add: sends_def write_frame_locked_def write_flow_frame_locked_def)

lemma sends_frames [sends_intros]:
  "sends cx G (send_status_frame cx ft i c)" "sends cx G (send_tcp_close cx i k)" "sends cx G (send_udp_close cx i k)"
  "sends cx G (send_tcp_data cx i p token)" "sends cx G (send_udp_data cx i p token)" "sends cx G (write_pong cx f)"
  unfolding send_status_frame_def send_tcp_close_def send_udp_close_def send_tcp_data_def send_udp_data_def write_pong_def
  by (intro sends_then_frame sends_write_frame; assumption)+

lemma sends_status [sends_intros]:
  "sends cx G (send_error cx i c)" "sends cx G (send_policy_denied cx i)" "sends cx G (send_resource_limit cx i)"
  by (simp_all add: send_error_def send_policy_denied_def send_resource_limit_def sends_frames)

lemma sends_rejections [sends_intros]:
  "sends cx G (reject_invalid_client_relay_flow_id cx i r m)" "sends cx G (reject_invalid_udp_relay_flow_id cx i r m)"
  "sends cx G (reject_open_failure cx i e)" "sends cx G (reject_udp_open_failure cx i e)"
  "sends cx G (validate_or_report_session_control_frame cx f ft)" "sends cx G (reject_unexpected_session_frame cx f)"
  unfolding reject_invalid_client_relay_flow_id_def reject_invalid_udp_relay_flow_id_def
    validate_or_report_session_control_frame_def reject_unexpected_session_frame_def
  by (cases r; cases e; auto intro!: sends_intros split: sum.splits)+

lemma sends_validation [sends_intros]:
  "sends cx G (validate_tcp_open_request cx f)" "sends cx G (validate_udp_open_request cx f)"
  unfolding validate_tcp_open_request_def validate_udp_open_request_def Let_def
  by (auto intro!: sends_intros split: sum.splits)


section \<open>Flows and slots\<close>

lemma reserve_refused: "control_reserve_bytes l key n bg = (False, bg') \<Longrightarrow> bg' = bg"
  by (auto simp: control_reserve_bytes_def reserve_bytes_def release_bytes_def Let_def fun_upd_idem split: if_splits)

lemma reserve_release: "control_reserve_bytes l key n bg = (True, bg') \<Longrightarrow> control_release_bytes key n bg' = bg"
  by (auto simp: control_reserve_bytes_def control_release_bytes_def reserve_bytes_def release_bytes_def Let_def fun_upd_idem
      split: if_splits)

text \<open>Work on a borrowed flow: the slot stays as it is until the flow is put back.\<close>

definition flow_moves :: "relay_context \<Rightarrow> permissions \<Rightarrow> u64 \<Rightarrow> target_flow \<times> session \<Rightarrow> target_flow \<times> session \<Rightarrow> bool" where
  "flow_moves cx G i fs fs' \<longleftrightarrow>
     (\<forall>f0. hm_get (se_flows (snd fs)) i = Some (TcpFlow f0) \<longrightarrow> same_flow (snd fs) f0 (fst fs) \<longrightarrow>
        small_steps cx G (snd fs) (snd fs') \<and> se_flows (snd fs') = se_flows (snd fs) \<and> same_flow (snd fs') f0 (fst fs'))"

named_theorems moves_intros

lemma moves_refl [simp, intro, moves_intros]: "flow_moves cx G i fs fs"
  by (simp add: flow_moves_def)

lemma moves_trans [trans]: "flow_moves cx G i fs fs' \<Longrightarrow> flow_moves cx G i fs' fs'' \<Longrightarrow> flow_moves cx G i fs fs''"
  by (auto simp: flow_moves_def intro: ss_trans)

lemma moves_session:
  assumes "small_step cx G s s'" "se_flows s' = se_flows s" "se_tasks s' = se_tasks s"
  shows "flow_moves cx G i (f, s) (f, s')"
  using assms by (auto simp: flow_moves_def same_flow_def is_timer_def intro: ss_one)

lemma moves_flow:
  assumes "tf_token f' = tf_token f" "tf_flow_permit f' = tf_flow_permit f"
    "tf_half_close_timer f' = None \<or> tf_half_close_timer f' = tf_half_close_timer f"
  shows "flow_moves cx G i (f, s) (f', s)"
  using assms by (auto simp: flow_moves_def same_flow_def)

lemma moves_put:
  assumes "flow_moves cx G i (f, s) fs" "hm_get (se_flows s) i = Some (TcpFlow f)"
  shows "small_steps cx G s (put_flow i fs)"
proof -
  obtain f' s' where fs: "fs = (f', s')" by (cases fs)
  have "same_flow s f f" by (simp add: same_flow_def)
  with assms have "small_steps cx G s s'" "se_flows s' = se_flows s" "same_flow s' f f'"
    by (auto simp: flow_moves_def fs)
  moreover from this assms(2) have "small_step cx G s' (set_slot i (TcpFlow f') s')"
    by (intro small_step.slot_changed [where slot = "TcpFlow f"]) simp_all
  ultimately show ?thesis by (auto simp: put_flow_def fs intro: ss_then)
qed

lemma controls_only [simp]:
  "se_flows (update_control t g s) = se_flows s" "se_tasks (update_control t g s) = se_tasks s"
  "se_flows (control_close t s) = se_flows s" "se_tasks (control_close t s) = se_tasks s"
  "se_flows (control_abort t s) = se_flows s" "se_tasks (control_abort t s) = se_tasks s"
  "se_flows (drop_sender t s) = se_flows s" "se_tasks (drop_sender t s) = se_tasks s"
  "se_flows (push_command t c s) = se_flows s" "se_tasks (push_command t c s) = se_tasks s"
  "se_flows (abort_task h s) = se_flows s" "se_tasks (abort_task h s) = se_tasks s"
  "se_flows (cancel_open t s) = se_flows s" "se_tasks (cancel_open t s) = se_tasks s"
  by (simp_all add: cancel_open_def update_control_def control_close_def control_abort_def drop_sender_def push_command_def abort_task_def)

lemma moves_controls [moves_intros]:
  "flow_moves cx G i (f, s) (f, control_close t s)" "flow_moves cx G i (f, s) (f, control_abort t s)"
  "flow_moves cx G i (f, s) (f, drop_sender t s)"
  by (auto intro!: moves_session small_step.intros)

lemma moves_cancel_timer [moves_intros]: "flow_moves cx G i (f, s) (cancel_half_close_timer (f, s))"
proof (cases "tf_half_close_timer f")
  case (Some h)
  have "small_step cx G s (abort_task h s)" if "hm_get (se_flows s) i = Some (TcpFlow f0)" "same_flow s f0 f" for f0
    using that Some by (auto simp: same_flow_def intro: small_step.timer_aborted)
  with Some show ?thesis
    by (auto simp: flow_moves_def cancel_half_close_timer_def same_flow_def is_timer_def intro: ss_one)
qed (simp add: cancel_half_close_timer_def moves_flow)

lemma try_send_steps:
  assumes "try_send_command cx t cmd s = (r, s')"
  shows "r = SendOk \<Longrightarrow> s' = push_command t cmd s \<and> queue_has_room cx s t" "r \<noteq> SendOk \<Longrightarrow> s' = s"
  using assms by (auto simp: try_send_command_def push_command_def queue_has_room_def Let_def split: if_splits)

lemma moves_close_queue [moves_intros]: "flow_moves cx G i (f, s) (close_client_to_target_queue cx (f, s))"
proof -
  let ?t = "tf_token f"
  obtain r s' where t: "try_send_command cx ?t CmdClose (control_close ?t s) = (r, s')"
    by (cases "try_send_command cx ?t CmdClose (control_close ?t s)")
  have c: "flow_moves cx G i (f, s) (f, control_close ?t s)" by (rule moves_controls)
  have "flow_moves cx G i (f, control_close ?t s) (f, push_command ?t CmdClose (control_close ?t s))"
    if "queue_has_room cx (control_close ?t s) ?t"
    using that by (intro moves_session small_step.close_queued) (simp_all add: control_close_def update_control_def)
  moreover have "flow_moves cx G i (f, control_close ?t s) (f\<lparr>tf_commands := False\<rparr>, drop_sender ?t (control_close ?t s))"
    by (rule moves_trans [OF moves_controls(3) moves_flow]) simp_all
  ultimately show ?thesis
    using c t try_send_steps [OF t]
    by (auto simp: close_client_to_target_queue_def Let_def intro: moves_trans split: try_send.splits)
qed

lemma moves_close [moves_intros]: "flow_moves cx G i (f, s) (close_client_to_target cx (f, s))"
proof -
  have "flow_moves cx G i (f, s) (close_client_to_target_queue cx (f\<lparr>tf_client_to_target_open := False\<rparr>, s))"
    by (rule moves_trans [OF moves_flow moves_close_queue]) simp_all
  then show ?thesis by (simp add: close_client_to_target_def)
qed

lemma moves_abort [moves_intros]: "flow_moves cx G i (f, s) (flow_abort cx (f, s))"
proof -
  obtain f' s' where c: "cancel_half_close_timer (f, s) = (f', s')" by (cases "cancel_half_close_timer (f, s)")
  then have "flow_moves cx G i (f, s) (f', s')" using moves_cancel_timer by metis
  also have "flow_moves cx G i (f', s') (f', control_abort (tf_token f') s')" by (rule moves_controls)
  also have "flow_moves cx G i (f', control_abort (tf_token f') s')
      (f'\<lparr>tf_target_to_client_open := False, tf_client_to_target_open := False, tf_target_write_open := False\<rparr>, control_abort (tf_token f') s')"
    by (rule moves_flow) simp_all
  also note moves_close_queue
  finally show ?thesis by (simp add: flow_abort_def c)
qed


lemma moves_marks [moves_intros]:
  "flow_moves cx G i (f, s) (mark_target_to_client_closed f, s)"
  "flow_moves cx G i (f, s) (mark_client_to_target_closed (f, s))"
  "flow_moves cx G i (f, s) (mark_target_write_closed (f, s))"
  unfolding mark_target_to_client_closed_def mark_client_to_target_closed_def mark_target_write_closed_def
  by (simp_all add: moves_flow) (rule moves_trans [OF moves_controls(1) moves_flow]; simp)+

lemma moves_start_timer [moves_intros]: "flow_moves cx G i (f, s) (start_half_close_timer cx i side (f, s))"
proof (cases "lm_half_close_timeout (cx_limits cx)")
  case (Some d)
  let ?h = "length (se_tasks s)" and ?s = "snd (spawn_task (HalfCloseTimerTask i (tf_token f) side d) s)"
  have timers: "is_timer s h \<Longrightarrow> is_timer ?s h" "is_timer ?s ?h" for h
    by (auto simp: is_timer_def spawn_task_def nth_append)
  then have "flow_moves cx G i (f, s) (f, ?s)"
    by (auto simp: flow_moves_def same_flow_def spawn_task_def intro!: ss_one)
      (metis small_step.timer_spawned spawn_task_def snd_conv)
  also have "flow_moves cx G i (f, ?s) (cancel_half_close_timer (f, ?s))" by (rule moves_cancel_timer)
  also have "flow_moves cx G i (cancel_half_close_timer (f, ?s)) (set_half_close_timer ?h (f, ?s))"
    using timers(2) by (auto simp: flow_moves_def set_half_close_timer_def cancel_half_close_timer_def same_flow_def is_timer_def
        split: option.splits)
  finally show ?thesis by (simp add: start_half_close_timer_def Some spawn_task_def)
qed (simp add: start_half_close_timer_def)

lemma moves_enqueue [moves_intros]: "flow_moves cx G i (f, s) (snd (enqueue_data cx p (f, s)))"
proof -
  let ?t = "tf_token f"
  obtain ok bg where r: "control_reserve_bytes (budget_limits_of cx) (budget_key cx ?t) (length p) (se_budgets s) = (ok, bg)"
    by (cases "control_reserve_bytes (budget_limits_of cx) (budget_key cx ?t) (length p) (se_budgets s)")
  obtain t s' where t: "try_send_command cx ?t (CmdData p) (s\<lparr>se_budgets := bg\<rparr>) = (t, s')"
    by (cases "try_send_command cx ?t (CmdData p) (s\<lparr>se_budgets := bg\<rparr>)")
  have undo: "\<not> ok \<Longrightarrow> s\<lparr>se_budgets := bg\<rparr> = s" "ok \<Longrightarrow> s\<lparr>se_budgets := control_release_bytes (budget_key cx ?t) (length p) bg\<rparr> = s"
    using reserve_refused reserve_release r by auto
  have q: "flow_moves cx G i (f, s) (close_client_to_target_queue cx (f, s))" by (rule moves_close_queue)
  have push: "small_step cx G s (push_command ?t (CmdData p) (s\<lparr>se_budgets := bg,
      se_enqueued := (se_enqueued s)(?t := se_enqueued s ?t @ p)\<rparr>))"
    if "ok" "t = SendOk" "hm_get (se_flows s) i = Some (TcpFlow f0)" "tf_token f0 = ?t" "\<not> fc_closed (se_controls s ?t)" for f0
    using that r try_send_steps(1) [OF t] small_step.data_queued [of s i f0 cx p bg G] by (simp add: queue_has_room_def)
  have s': "s'\<lparr>se_enqueued := (se_enqueued s')(?t := se_enqueued s' ?t @ p)\<rparr> =
      push_command ?t (CmdData p) (s\<lparr>se_budgets := bg, se_enqueued := (se_enqueued s)(?t := se_enqueued s ?t @ p)\<rparr>)"
    if "t = SendOk"
    using try_send_steps(1) [OF t that] by (simp add: push_command_def update_control_def)
  have "flow_moves cx G i (f, s) (f, s'\<lparr>se_enqueued := (se_enqueued s')(?t := se_enqueued s' ?t @ p)\<rparr>)"
    if "ok" "t = SendOk" "\<not> fc_closed (se_controls s ?t)"
    using that push by (auto simp: flow_moves_def s' same_flow_def is_timer_def intro!: ss_one)
  with q r t undo show ?thesis
    by (auto simp: enqueue_data_def Let_def split: try_send.splits bool.splits)
qed

lemma drop_slot_flows: "drop_slot slot (cancel_slot slot (s\<lparr>se_flows := m\<rparr>)) = (drop_slot slot (cancel_slot slot s))\<lparr>se_flows := m\<rparr>"
  by (cases slot) (simp_all add: cancel_open_def cancel_half_close_timer_def drop_sender_def control_abort_def update_control_def
      abort_task_def split: option.splits)

lemma drop_slot_steps:
  assumes "hm_get (se_flows s) i = Some slot"
  shows "small_steps cx G s (drop_slot slot (cancel_slot slot s)) \<and>
    se_flows (drop_slot slot (cancel_slot slot s)) = se_flows s"
proof (cases slot)
  case (TcpFlow f)
  obtain f' s' where c: "cancel_half_close_timer (f, s) = (f', s')" by (cases "cancel_half_close_timer (f, s)")
  have "same_flow s f f" by (simp add: same_flow_def)
  with moves_cancel_timer [of cx G i f s] assms have "small_steps cx G s s'" "se_flows s' = se_flows s"
    by (auto simp: flow_moves_def c TcpFlow)
  then show ?thesis
    by (auto simp: TcpFlow c intro: ss_then [OF ss_then] ss_then small_step.intros)
qed (auto intro: ss_one small_step.intros)

lemma remove_steps [intro]: "small_steps cx G s (remove_flow_slot i s)"
proof (cases "hm_get (se_flows s) i")
  case None
  then show ?thesis by (auto simp: remove_flow_slot_def intro: ss_one small_step.slot_removed)
next
  case (Some slot)
  let ?s = "drop_slot slot (cancel_slot slot s)"
  from drop_slot_steps [OF Some] have "small_steps cx G s ?s" "se_flows ?s = se_flows s" by auto
  then have "small_steps cx G s (?s\<lparr>se_flows := hm_remove i (se_flows ?s)\<rparr>)"
    by (blast intro: ss_then small_step.slot_removed)
  with Some \<open>se_flows ?s = se_flows s\<close> show ?thesis by (simp add: remove_flow_slot_def Let_def drop_slot_flows)
qed


lemma moves_after [moves_intros]:
  assumes "flow_moves cx G i fs fs'"
  shows "flow_moves cx G i fs (cancel_half_close_timer fs')" "flow_moves cx G i fs (start_half_close_timer cx i side fs')"
    "flow_moves cx G i fs (mark_client_to_target_closed fs')" "flow_moves cx G i fs (flow_abort cx fs')"
  by (rule moves_trans [OF assms], cases fs', simp add: moves_cancel_timer moves_start_timer moves_marks moves_abort)+

lemma put_remove_steps:
  assumes "flow_moves cx G i (f, s) fs" "hm_get (se_flows s) i = Some (TcpFlow f)"
  shows "small_steps cx G s (remove_flow_slot i (put_flow i fs))"
  by (rule ss_trans [OF moves_put [OF assms] remove_steps])

lemma open_target_flow_Some [simp]: "open_target_flow s i = Some f \<longleftrightarrow> hm_get (se_flows s) i = Some (TcpFlow f)"
  by (auto simp: open_target_flow_def split: option.splits flow_slot.splits)

lemma udp_flow_Some [simp]: "udp_flow s i = Some f \<longleftrightarrow> hm_get (se_flows s) i = Some (UdpFlow f)"
  by (auto simp: udp_flow_def split: option.splits flow_slot.splits)

lemma record_activity_steps [intro]: "small_steps cx G s (record_activity i now s)"
  by (auto simp: record_activity_def split: option.splits intro!: ss_one small_step.slot_changed)

lemma sends_then_steps:
  assumes "sends cx G m" "\<And>a s'. carrier_only s s' \<Longrightarrow> small_steps cx G s' (snd (k a s'))"
  shows "small_steps cx G s (snd (io_then m k s))"
proof -
  obtain r s' where m: "m s = (r, s')" by (cases "m s")
  from sendsD [OF assms(1) m] have "small_steps cx G s s'" "carrier_only s s'" by auto
  with assms(2) show ?thesis by (cases r) (auto simp: io_then_def m intro: ss_trans)
qed

lemma modify_steps: "small_steps cx G s (g s) \<Longrightarrow> small_steps cx G s (snd (modify g s))"
  by (simp add: modify_def)

lemma sends_steps: "sends cx G m \<Longrightarrow> small_steps cx G s (snd (m s))"
  by (simp add: sends_def)

section \<open>Handlers\<close>

lemma read_closed_steps: "small_steps cx G s (handle_target_read_closed cx i token s)"
  by (auto simp: handle_target_read_closed_def Let_def split: option.splits
      intro!: put_remove_steps moves_put moves_intros)

lemma write_closed_steps: "small_steps cx G s (handle_target_write_closed cx i token s)"
  by (auto simp: handle_target_write_closed_def Let_def split: option.splits
      intro!: put_remove_steps moves_put moves_intros)

lemma expire_steps: "small_steps cx G s (snd (expire_half_close_drain cx i token side s))"
proof (cases "open_target_flow s i")
  case (Some f)
  then have "small_steps cx G s (put_flow i (flow_abort cx (f, s)))"
    by (intro moves_put [OF moves_abort]) simp
  then show ?thesis by (simp add: expire_half_close_drain_def Some Let_def split: half_close_side.splits)
qed (simp add: expire_half_close_drain_def)

lemma drain_expired_steps: "small_steps cx G s (snd (handle_half_close_drain_expired cx i token side s))"
proof -
  obtain d s' where e: "expire_half_close_drain cx i token side s = (d, s')"
    by (cases "expire_half_close_drain cx i token side s")
  then have s': "small_steps cx G s s'" using expire_steps by (metis snd_conv)
  obtain r s'' where c: "send_tcp_close cx i TCP_CLOSE_ERROR s' = (r, s'')" by (cases "send_tcp_close cx i TCP_CLOSE_ERROR s'")
  then have "small_steps cx G s' s''" using sendsD [OF sends_frames(2)] by blast
  moreover have "small_steps cx G s' (snd (io_then (send_tcp_close cx i k) (\<lambda>_. modify (remove_flow_slot i)) s'))"
    "small_steps cx G s' (snd (io_then (send_tcp_close cx i k) (\<lambda>_. modify id) s'))" for k
    by (rule sends_then_steps [OF sends_frames(2)], auto simp: modify_def)+
  moreover have "small_steps cx G s'' (remove_flow_slot i s'')" by (rule remove_steps)
  ultimately show ?thesis
    using s' by (cases d) (auto simp: handle_half_close_drain_expired_def e c modify_def [of _ s''] intro: ss_trans)
qed

lemma forward_tcp_steps: "small_steps cx G s (snd (forward_tcp_data_frame cx i p s))"
proof (cases "open_target_flow s i")
  case (Some f)
  then have slot: "hm_get (se_flows s) i = Some (TcpFlow f)" by simp
  obtain r fs where e: "enqueue_data cx p (f, s) = (r, fs)" by (cases "enqueue_data cx p (f, s)")
  then have m: "flow_moves cx G i (f, s) fs" using moves_enqueue by (metis snd_conv)
  have "small_steps cx G s (snd (io_then (send_resource_limit cx i) (\<lambda>_. io_then (send_tcp_close cx i TCP_CLOSE_ERROR)
      (\<lambda>_. modify (remove_flow_slot i))) (put_flow i (flow_abort cx fs))))"
    by (rule ss_trans [OF moves_put [OF moves_after(4) [OF m] slot]]) (auto intro!: sends_then_steps sends_intros modify_steps)
  then show ?thesis
    using m slot by (auto simp: forward_tcp_data_frame_def Some e Let_def split: sum.splits enqueue_error.splits
        intro!: put_remove_steps moves_put moves_intros)
qed (simp add: forward_tcp_data_frame_def sends_steps sends_intros)

lemma reject_remove_steps:
  "small_steps cx G s (snd (io_then (send_error cx i c) (\<lambda>_. io_then (send_tcp_close cx i k) (\<lambda>_. modify (remove_flow_slot i))) s))"
  "small_steps cx G s (snd (io_then (send_error cx i c) (\<lambda>_. io_then (send_udp_close cx i k) (\<lambda>_. modify (remove_flow_slot i))) s))"
  by (auto intro!: sends_then_steps sends_intros modify_steps)

lemma tcp_data_steps: "small_steps cx G s (snd (handle_tcp_data_frame cx f s))"
  by (auto simp: handle_tcp_data_frame_def Let_def split: sum.splits tcp_data_disposition_t.splits
      intro!: sends_steps sends_intros reject_remove_steps forward_tcp_steps)

lemma tcp_close_flow_steps:
  assumes "hm_get (se_flows s) i = Some (TcpFlow f)"
  shows "small_steps cx G s (snd (tcp_close_flow cx i k f s))"
  using assms by (auto simp: tcp_close_flow_def Let_def intro!: moves_put moves_intros)

lemma tcp_close_steps: "small_steps cx G s (snd (handle_tcp_close_frame cx f s))"
proof -
  have "small_steps cx G s (if b then remove_flow_slot i s' else s')"
    if "tcp_close_flow cx i k fl s = (b, s')" "hm_get (se_flows s) i = Some (TcpFlow fl)" for i k fl b s'
    using that tcp_close_flow_steps [OF that(2), of cx G k] by (auto intro: ss_trans)
  then show ?thesis
    by (auto simp: handle_tcp_close_frame_def Let_def split: sum.splits option.splits flow_slot.splits prod.splits
        intro!: sends_steps sends_intros reject_remove_steps)
qed

lemma abort_client_steps: "small_steps cx G s (abort_client_flow cx i s)"
proof (cases "hm_get (se_flows s) i")
  case (Some slot)
  have "small_steps cx G s (remove_flow_slot i (control_abort t s))" for t
    by (rule ss_trans [OF ss_one [OF small_step.control_aborted] remove_steps])
  with Some show ?thesis
    by (cases slot) (auto simp: abort_client_flow_def intro: put_remove_steps [OF moves_abort])
qed (simp add: abort_client_flow_def)

lemma status_steps: "small_steps cx G s (snd (handle_client_flow_status_frame cx f s))"
  by (auto simp: handle_client_flow_status_frame_def Let_def split: sum.splits
      intro!: sends_steps sends_intros modify_steps abort_client_steps)

lemma record_send_steps:
  assumes "udp_flow s i = Some f"
  shows "small_steps cx G s (udp_socket_send (uf_token f) p (record_activity i now s))"
proof -
  let ?s = "record_activity i now s"
  from assms have "hm_get (se_flows ?s) i = Some (UdpFlow (f\<lparr>uf_last_activity := now\<rparr>))"
    by (simp add: record_activity_def set_slot_def hm.get_insert del: udp_flow_Some)
  from small_step.udp_sent [OF this] have "small_step cx G ?s (udp_socket_send (uf_token f) p ?s)" by simp
  then show ?thesis by (rule ss_then [OF record_activity_steps])
qed

lemma forward_udp_steps: "small_steps cx G s (snd (forward_udp_data_frame cx en i p s))"
proof (cases "udp_flow s i")
  case (Some f)
  with record_send_steps [OF Some] ss_trans [OF record_activity_steps reject_remove_steps(2)] show ?thesis
    by (auto simp: forward_udp_data_frame_def Let_def split: udp_send.splits simp del: udp_flow_Some)
qed (simp add: forward_udp_data_frame_def sends_steps sends_intros)

lemma forward_datagram_steps: "small_steps cx G s (forward_udp_datagram en i p s)"
  using record_send_steps [of s i]
  by (auto simp: forward_udp_datagram_def Let_def split: option.splits udp_send.splits simp del: udp_flow_Some)

lemma udp_data_steps: "small_steps cx G s (snd (handle_udp_data_frame cx en f s))"
  by (auto simp: handle_udp_data_frame_def Let_def split: sum.splits udp_data_disposition_t.splits
      intro!: sends_steps sends_intros reject_remove_steps forward_udp_steps)

lemma udp_close_steps: "small_steps cx G s (snd (handle_udp_close_frame cx f s))"
proof -
  have "small_steps cx G s (remove_flow_slot i (control_abort t s))" for i t
    by (rule ss_trans [OF ss_one [OF small_step.control_aborted] remove_steps])
  then show ?thesis
    by (auto simp: handle_udp_close_frame_def Let_def split: sum.splits option.splits flow_slot.splits
        intro!: sends_steps sends_intros reject_remove_steps)
qed

lemma udp_read_closed_steps: "small_steps cx G s (handle_udp_read_closed i token s)"
  by (auto simp: handle_udp_read_closed_def split: option.splits flow_slot.splits)

lemma close_udp_flows_steps: "small_steps cx G s (snd (close_udp_flows cx is s))"
proof (induction "is" arbitrary: s)
  case (Cons i "is")
  show ?case unfolding close_udp_flows.simps
    by (rule sends_then_steps [OF sends_frames(3)])
      (simp add: io_then_def [of "modify _"] modify_def ss_trans [OF remove_steps Cons.IH])
qed (simp add: io_ok_def)

lemma idle_udp_steps: "small_steps cx G s (snd (close_idle_udp_flows cx en s))"
  by (auto simp: close_idle_udp_flows_def Let_def close_udp_flows_steps split: option.splits)


section \<open>Opens\<close>

lemma limit_steps:
  "small_steps cx G s (snd (io_then (send_resource_limit cx i) (\<lambda>_. send_tcp_close cx i k) s))"
  "small_steps cx G s (snd (io_then (send_resource_limit cx i) (\<lambda>_. send_udp_close cx i k) s))"
  by (rule sends_steps, intro sends_intros)+

lemma sends_then_steps_eq:
  assumes "sends cx G m" "\<And>a s'. m s = (Inr a, s') \<Longrightarrow> small_steps cx G s s' \<Longrightarrow> carrier_only s s' \<Longrightarrow> small_steps cx G s' (snd (k a s'))"
  shows "small_steps cx G s (snd (io_then m k s))"
proof -
  obtain r s' where m: "m s = (r, s')" by (cases "m s")
  from sendsD [OF assms(1) m] assms(2) m show ?thesis by (cases r) (auto simp: io_then_def m intro: ss_trans)
qed

lemma validated_open:
  "validate_tcp_open_request cx f s = (Inr (Some (i, t)), s') \<Longrightarrow> i = fh_id (fr_header f) \<and> is_client_initiated_flow_id i"
  "validate_udp_open_request cx f s = (Inr (Some (i, t)), s') \<Longrightarrow> i = fh_id (fr_header f) \<and> is_client_initiated_flow_id i"
  by (auto simp: validate_tcp_open_request_def validate_udp_open_request_def Let_def io_then_def io_ok_def io_err_def
      split: if_splits sum.splits prod.splits)

definition policy_granted :: "relay_context \<Rightarrow> permissions \<Rightarrow> 'tls session_env \<Rightarrow> bool" where
  "policy_granted cx G en \<longleftrightarrow>
     (\<forall>pn. take_policy_snapshot (en_security en) (cx_identity cx) (en_unix_now en) = Some pn \<longrightarrow> fst G (pn_policy_set pn))"

lemma tcp_open_steps:
  assumes "fst (snd G)" "se_next_token s + 1 \<noteq> 0" "se_state s \<noteq> Draining" "policy_granted cx G en"
  shows "small_steps cx G s (snd (handle_tcp_open_frame cx en f s))"
proof -
  let ?i = "fh_id (fr_header f)"
  have admit: "small_steps cx G s' (admit_tcp_open i t (pn_policy_set pn) s')"
    if "check_open_slot ?i s (lm_max_streams (cx_limits cx)) = Inr u" "validate_tcp_open_request cx f s = (Inr (Some (i, t)), s')"
      "carrier_only s s'" "take_policy_snapshot (en_security en) (cx_identity cx) (en_unix_now en) = Some pn" for u s' i t pn
    using that(1) validated_open(1) [OF that(2)] carrier_onlyD [OF that(3)] that(4) assms
    by (intro ss_one small_step.tcp_admitted) (auto simp: may_admit_def check_open_slot_def policy_granted_def split: if_splits)
  show ?thesis
    by (auto simp: handle_tcp_open_frame_def Let_def modify_def io_ok_def split: sum.splits open_slot_rejection.splits option.splits
        intro!: reject_remove_steps limit_steps sends_then_steps_eq [OF sends_validation(1)] admit
          sends_steps [OF sends_rejections(3)] simp del: reject_open_failure.simps)
qed

lemma udp_open_steps:
  assumes "fst (snd G)" "se_next_token s + 1 \<noteq> 0" "se_state s \<noteq> Draining" "policy_granted cx G en"
  shows "small_steps cx G s (snd (handle_udp_open_frame cx en f s))"
proof -
  let ?i = "fh_id (fr_header f)"
  have admit: "small_steps cx G s' (admit_udp_open i t (pn_policy_set pn) s')"
    if "check_udp_open_slot ?i s (lm_max_streams (cx_limits cx)) (lm_max_udp_flows (cx_limits cx)) = Inr u"
      "validate_udp_open_request cx f s = (Inr (Some (i, t)), s')"
      "carrier_only s s'" "take_policy_snapshot (en_security en) (cx_identity cx) (en_unix_now en) = Some pn" for u s' i t pn
    using that(1) validated_open(2) [OF that(2)] carrier_onlyD [OF that(3)] that(4) assms
    by (intro ss_one small_step.udp_admitted)
      (auto simp: may_admit_def check_open_slot_def check_udp_open_slot_def policy_granted_def udp_flow_count_def
        split: if_splits sum.splits open_slot_rejection.splits)
  show ?thesis
    by (auto simp: handle_udp_open_frame_def Let_def modify_def io_ok_def split: sum.splits udp_open_slot_rejection.splits option.splits
        intro!: reject_remove_steps limit_steps sends_then_steps_eq [OF sends_validation(2)] admit
          sends_steps [OF sends_rejections(4)] simp del: reject_udp_open_failure.simps)
qed

lemma carrier_write_new_token: "carrier_write cx f (new_token s) = map_prod id new_token (carrier_write cx f s)"
  by (auto simp: carrier_write_def new_token_def update_control_def shutdown_close_def Let_def split: write_outcome.splits list.splits)

lemma flow_frame_new_token:
  assumes "frame_new ft 0 i p = Inr f" "write_flow_frame_locked cx f (se_next_token s) (new_token s) = (r, s2)"
  obtains s1 where "small_steps cx G s s1" "carrier_only s s1" "s2 = new_token s1"
proof (cases "se_shutdown s")
  case True
  with assms(2) have "s2 = new_token s" by (simp add: write_flow_frame_locked_def new_token_def update_control_def)
  with that [of s] show ?thesis by simp
next
  case False
  with assms(2) have "(r, s2) = map_prod id new_token (carrier_write cx f s)"
    by (simp add: write_flow_frame_locked_def carrier_write_new_token [symmetric])
      (simp add: new_token_def update_control_def flow_control_new_def)
  then have "s2 = new_token (snd (carrier_write cx f s))" by (cases "carrier_write cx f s") simp
  with that carrier_write_sends [OF assms(1) False] show ?thesis by blast
qed

lemma open_data_new_token:
  assumes "send_tcp_data cx i p (se_next_token s) (new_token s) = (r, s2) \<or>
    send_udp_data cx i p (se_next_token s) (new_token s) = (r, s2)"
  obtains s1 where "small_steps cx G s s1" "carrier_only s s1" "s2 = new_token s1"
proof -
  have *: thesis if "io_then (protocol_result (frame_new ft 0 i p)) (\<lambda>f. write_flow_frame_locked cx f (se_next_token s)) (new_token s) = (r, s2)" for ft
  proof (cases "frame_new ft 0 i p")
    case (Inl e)
    with that have "s2 = new_token s" by (simp add: io_then_def protocol_result_def)
    then show thesis using \<open>\<And>s1. \<lbrakk>small_steps cx G s s1; carrier_only s s1; s2 = new_token s1\<rbrakk> \<Longrightarrow> thesis\<close> [of s] by simp
  next
    case (Inr f)
    with that have "write_flow_frame_locked cx f (se_next_token s) (new_token s) = (r, s2)"
      by (simp add: io_then_def protocol_result_def)
    from flow_frame_new_token [OF Inr this] show thesis
      using \<open>\<And>s1. \<lbrakk>small_steps cx G s s1; carrier_only s s1; s2 = new_token s1\<rbrakk> \<Longrightarrow> thesis\<close> by blast
  qed
  from assms * show thesis unfolding send_tcp_data_def send_udp_data_def by blast
qed


lemma accept_state:
  "accept_open_target cx i permit s =
     io_then (send_tcp_data cx i [] (se_next_token s)) (\<lambda>_ s'.
       (Inr (target_flow_new (se_next_token s) permit),
        snd (spawn_task (TargetWriterTask i (se_next_token s)) (snd (spawn_task (TargetReaderTask i (se_next_token s)) s')))))
     (new_token s)"
  "accept_open_udp_target cx en i permit s =
     io_then (send_udp_data cx i [] (se_next_token s)) (\<lambda>_ s'.
       (Inr (udp_target_flow_new (se_next_token s) (en_now en) permit), snd (spawn_task (UdpReaderTask i (se_next_token s)) s')))
     (new_token s)"
  by (simp_all add: accept_open_target_def accept_open_udp_target_def next_token_def new_token_def Let_def)

lemma tcp_completed_steps:
  assumes "fst (snd G)" "se_next_token s + 1 \<noteq> 0"
  shows "small_steps cx G s (snd (handle_tcp_open_completed cx i token result s))"
proof -
  have accept: "small_steps cx G s (snd (io_then (accept_open_target cx i (oc_permit c)) (\<lambda>fl. modify (set_slot i (TcpFlow fl))) s))"
    if "hm_get (se_flows s) i = Some (OpeningTcp c)" for c
  proof -
    obtain r s2 where d: "send_tcp_data cx i [] (se_next_token s) (new_token s) = (r, s2)"
      by (cases "send_tcp_data cx i [] (se_next_token s) (new_token s)")
    then obtain s1 where s1: "small_steps cx G s s1" "carrier_only s s1" "s2 = new_token s1"
      using open_data_new_token by metis
    note eq = carrier_onlyD [OF s1(2)]
    have "small_step cx G s1 (new_token s1)" "small_step cx G s1 (establish_tcp i (oc_permit c) s1)"
      using assms that by (auto simp: eq intro: small_step.intros)
    then have "small_steps cx G s s2" "small_steps cx G s (establish_tcp i (oc_permit c) s1)"
      using s1(1,3) by (auto intro: ss_then)
    then show ?thesis
      by (cases r) (simp_all add: io_then_def accept_state d s1(3) modify_def establish_tcp_def eq Let_def)
  qed
  have "small_steps cx G s (snd (io_then (reject_open_failure cx i e) (\<lambda>_. modify (remove_flow_slot i)) s))" for e
    by (rule sends_then_steps [OF sends_rejections(3)]) (auto simp: modify_def)
  with accept show ?thesis
    by (auto simp: handle_tcp_open_completed_def split: option.splits flow_slot.splits sum.splits)
qed

lemma udp_completed_steps:
  assumes "fst (snd G)" "se_next_token s + 1 \<noteq> 0"
  shows "small_steps cx G s (snd (handle_udp_open_completed cx en i token result s))"
proof -
  have accept: "small_steps cx G s (snd (io_then (accept_open_udp_target cx en i (oc_permit c)) (\<lambda>fl. modify (set_slot i (UdpFlow fl))) s))"
    if "hm_get (se_flows s) i = Some (OpeningUdp c)" for c
  proof -
    obtain r s2 where d: "send_udp_data cx i [] (se_next_token s) (new_token s) = (r, s2)"
      by (cases "send_udp_data cx i [] (se_next_token s) (new_token s)")
    then obtain s1 where s1: "small_steps cx G s s1" "carrier_only s s1" "s2 = new_token s1"
      using open_data_new_token by metis
    note eq = carrier_onlyD [OF s1(2)]
    have "small_step cx G s1 (new_token s1)" "small_step cx G s1 (establish_udp i (en_now en) (oc_permit c) s1)"
      using assms that by (auto simp: eq intro: small_step.intros)
    then have "small_steps cx G s s2" "small_steps cx G s (establish_udp i (en_now en) (oc_permit c) s1)"
      using s1(1,3) by (auto intro: ss_then)
    then show ?thesis
      by (cases r) (simp_all add: io_then_def accept_state d s1(3) modify_def establish_udp_def eq Let_def)
  qed
  have "small_steps cx G s (snd (io_then (reject_udp_open_failure cx i e) (\<lambda>_. modify (remove_flow_slot i)) s))" for e
    by (rule sends_then_steps [OF sends_rejections(4)]) (auto simp: modify_def)
  with accept show ?thesis
    by (auto simp: handle_udp_open_completed_def split: option.splits flow_slot.splits sum.splits)
qed

section \<open>Events\<close>

lemma settings_steps: "small_steps cx G s (snd (handle_settings_frame cx f s))"
proof -
  have "small_steps cx G s' (snd (io_then (send_error cx 0 c) (\<lambda>_. io_err e) s'))" for s' c e
    by (rule sends_steps) (intro sends_intros)
  moreover have "small_steps cx G s' (s'\<lparr>se_settings_received := True\<rparr>)" for s'
    by (rule ss_one) (rule small_step.settings_received)
  ultimately show ?thesis
    unfolding handle_settings_frame_def
    by (intro sends_then_steps [OF sends_rejections(5)]) (auto split: sum.splits)
qed

text \<open>Only opens hand out tokens.\<close>

definition is_open_frame :: "frame \<Rightarrow> bool" where
  "is_open_frame f \<longleftrightarrow> fh_frame_type (fr_header f) \<in> {FT_TcpOpen, FT_UdpOpen}"

lemma other_frame_steps:
  assumes "\<not> is_open_frame f"
  shows "small_steps cx G s (snd (dispatch_session_frame cx en f s))"
proof -
  have "small_steps cx G s (snd (io_then (validate_or_report_session_control_frame cx f FT_Ping) (\<lambda>_. write_pong cx f) s))"
    by (rule sends_steps) (intro sends_intros)
  with assms show ?thesis
    by (auto simp: dispatch_session_frame_def is_open_frame_def split: frame_type.splits
        intro: tcp_data_steps udp_data_steps tcp_close_steps udp_close_steps settings_steps
          status_steps sends_steps [OF sends_rejections(5)] sends_steps [OF sends_rejections(6)])
qed

lemma session_frame_steps:
  assumes "fst (snd G)" "se_next_token s + 1 \<noteq> 0" "policy_granted cx G en"
  shows "small_steps cx G s (snd (handle_session_frame cx en f s))"
proof -
  have "small_steps cx G s (snd (dispatch_session_frame cx en f s))" if "se_state s \<noteq> Draining \<or> \<not> is_open_frame f"
  proof (cases "is_open_frame f")
    case True
    with that assms show ?thesis
      by (auto simp: dispatch_session_frame_def is_open_frame_def intro: tcp_open_steps udp_open_steps)
  qed (rule other_frame_steps)
  then show ?thesis
    by (auto simp: handle_session_frame_def Let_def limit_steps is_open_frame_def)
qed

definition is_open_event :: "flow_event option \<Rightarrow> bool" where
  "is_open_event ev \<longleftrightarrow>
     (case ev of Some (OpenCompleted _ _ _ _) \<Rightarrow> True | Some (UdpOpenCompleted _ _ _ _) \<Rightarrow> True | _ \<Rightarrow> False)"

lemma other_event_steps:
  assumes "\<not> is_open_event ev"
  shows "small_steps cx G s (snd (handle_flow_event cx en ev s))"
  using assms
  by (cases "(cx, en, ev)" rule: handle_flow_event.cases)
    (auto simp: is_open_event_def modify_def io_ok_def intro: read_closed_steps udp_read_closed_steps
      forward_datagram_steps drain_expired_steps write_closed_steps)

lemma flow_event_steps:
  assumes "fst (snd G)" "se_next_token s + 1 \<noteq> 0"
  shows "small_steps cx G s (snd (handle_flow_event cx en ev s))"
proof (cases "is_open_event ev")
  case True
  with assms show ?thesis
    by (auto simp: is_open_event_def intro: tcp_completed_steps udp_completed_steps split: option.splits flow_event.splits)
qed (rule other_event_steps)

lemma report_steps: "small_steps cx G s (report_frame_io_error cx e s)"
  by (auto simp: report_frame_io_error_def sends_steps sends_intros split: frame_io_error.splits)

lemma session_event_steps:
  assumes "fst (snd G)" "se_next_token s + 1 \<noteq> 0" "policy_granted cx G en"
  shows "small_steps cx G s (snd (handle_session_event cx en ev s))"
proof -
  have step_of: "snd (step_of r b) = snd r" for r b by (cases r) (auto simp: step_of_def split: sum.splits)
  have "se_state s = Relaying \<Longrightarrow> small_steps cx G s (transition Draining s)"
    by (rule ss_one) (rule small_step.state_changed; simp)
  with assms show ?thesis
    by (cases ev) (auto simp: step_of Let_def intro: flow_event_steps session_frame_steps idle_udp_steps report_steps)
qed

end
