(* ===== verification/Relay_Runs.thy ===== *)
theory Relay_Runs
  imports Relay_Steps
begin

text \<open>
  The tasks, the teardown and whole runs as sequences of small steps, and the locale that carries a
  property from the small steps to the runs of \<open>relay_session\<close>.
\<close>

section \<open>Tasks\<close>

lemma try_record_steps:
  "small_steps cx G s (try_record_flow_activity cx Activity s)"
  "small_steps cx G s (try_record_flow_activity cx (UdpActivity i) s)"
  by (auto simp: try_record_flow_activity_def intro: ss_one small_step.event_pushed)

definition task_at :: "session \<Rightarrow> nat \<Rightarrow> session_task \<Rightarrow> bool" where
  "task_at s h task \<longleftrightarrow> h < length (se_tasks s) \<and> h \<notin> se_aborted_tasks s \<and> se_tasks s ! h = task"

lemma task_at_carrier: "carrier_only s s' \<Longrightarrow> task_at s h task \<Longrightarrow> task_at s' h task"
  by (simp add: task_at_def carrier_onlyD)

lemma task_at_controls [simp]:
  "task_at (update_control t g s) = task_at s" "task_at (control_abort t s) = task_at s" "task_at (control_close t s) = task_at s"
  "task_at (push_event ev s) = task_at s" "task_at (record_dials t' ps ts s) = task_at s"
  by (simp_all add: task_at_def fun_eq_iff update_control_def control_abort_def control_close_def push_event_def record_dials_def)

lemma finished_steps:
  assumes "task_at s h task" "st = TaskDone \<or> (\<exists>ev. st = TaskSending ev \<and> task_event task ev)"
    "\<And>i token. task = TargetWriterTask i token \<Longrightarrow>
       \<not> fc_receiver (se_controls s token) \<and> fc_queue (se_controls s token) = [] \<and> fc_writing (se_controls s token) = None"
  shows "small_steps cx G s (set_task h st s)"
proof (intro ss_one small_step.task_finished)
  from assms(1) have t: "se_tasks s ! h = task" by (simp add: task_at_def)
  show "h < length (se_tasks s)" "h \<notin> se_aborted_tasks s" using assms(1) by (simp_all add: task_at_def)
  show "st = TaskDone \<or> (\<exists>ev. st = TaskSending ev \<and> task_event (se_tasks s ! h) ev) \<or> st = TaskRunning \<and> se_tasks s ! h = DatagramReaderTask"
    using assms(2) t by blast
  show "\<not> fc_receiver (se_controls s token) \<and> fc_queue (se_controls s token) = [] \<and> fc_writing (se_controls s token) = None"
    if "se_tasks s ! h = TargetWriterTask i token" for i token
    using assms(3) that t by simp
qed

lemma begin_send_steps:
  assumes "task_at s h task" "task_event task ev"
    "\<And>i token. task = TargetWriterTask i token \<Longrightarrow>
       \<not> fc_receiver (se_controls s token) \<and> fc_queue (se_controls s token) = [] \<and> fc_writing (se_controls s token) = None"
  shows "small_steps cx G s (begin_send h ev s)"
  using assms by (auto simp: begin_send_def intro: finished_steps)

lemma open_task_steps:
  assumes "task_at s h task" "dials_of cx task t ps (snd (snd run))" "\<And>r. task_event task (completed r)"
    "\<And>i tok. task \<noteq> TargetWriterTask i tok"
  shows "small_steps cx G s (open_task_step h token t ps completed run stopped s)"
proof -
  obtain result lookups ts where run: "run = (result, lookups, ts)" by (cases run)
  let ?s = "record_dials t ps ts s"
  have "small_steps cx G s ?s"
    using assms(1,2) by (intro ss_one small_step.targets_dialed [of h]) (auto simp: run task_at_def)
  moreover have "small_steps cx G ?s (set_task h TaskDone ?s)" "small_steps cx G ?s (begin_send h (completed r) ?s)" for r
    using assms by (auto intro!: finished_steps begin_send_steps)
  ultimately show ?thesis
    by (auto simp: open_task_step_def run Let_def intro: ss_trans split: option.splits)
qed

lemma report_failure_steps:
  assumes "sends cx G m"
  shows "small_steps cx G s (report_target_failure cx i token m s) \<and>
    (\<exists>s'. carrier_only s' (report_target_failure cx i token m s) \<and> (s' = s \<or> s' = control_abort token s))"
proof -
  let ?a = "control_abort token s"
  obtain r1 s1 where e: "send_error cx i EC_TargetUnavailable ?a = (r1, s1)" by (cases "send_error cx i EC_TargetUnavailable ?a")
  obtain r2 s2 where m: "m s1 = (r2, s2)" by (cases "m s1")
  have "small_steps cx G ?a s1 \<and> carrier_only ?a s1" by (rule sendsD [OF sends_status(1) e])
  moreover have "small_steps cx G s1 s2 \<and> carrier_only s1 s2" by (rule sendsD [OF assms m])
  moreover have "small_steps cx G s ?a" by (rule ss_one) (rule small_step.control_aborted)
  ultimately have "small_steps cx G s s2 \<and> carrier_only ?a s2" by (blast intro: ss_trans carrier_only_trans)
  then show ?thesis by (auto simp: report_target_failure_def e m Let_def intro: exI [of _ s])
qed

lemma reported_task:
  assumes "sends cx G m" "task_at s h task"
  shows "task_at (report_target_failure cx i token m s) h task"
  using report_failure_steps [OF assms(1), of s i token] assms(2) by (auto dest: task_at_carrier)

lemma end_reader_steps:
  assumes "task_at s h (TargetReaderTask i token)"
  shows "small_steps cx G s (end_target_reader cx h i token failed s)"
proof -
  let ?r = "report_target_failure cx i token (send_tcp_close cx i TCP_CLOSE_ERROR) s"
  have "small_steps cx G s ?r" using report_failure_steps [OF sends_frames(2)] by blast
  moreover have "small_steps cx G ?r (begin_send h (ReadClosed i token) ?r)"
    by (rule begin_send_steps [OF reported_task [OF sends_frames(2) assms]]) (simp_all add: task_event_def)
  moreover have "small_steps cx G s (begin_send h (ReadClosed i token) s)"
    by (rule begin_send_steps [OF assms]) (simp_all add: task_event_def)
  ultimately show ?thesis by (auto simp: end_target_reader_def intro: ss_trans)
qed

lemma end_udp_reader_steps:
  assumes "task_at s h (UdpReaderTask i token)"
  shows "small_steps cx G s (end_udp_reader cx h i token failed s)"
proof -
  let ?r = "report_target_failure cx i token (send_udp_close cx i UDP_CLOSE_ERROR) s"
  have "small_steps cx G s ?r" using report_failure_steps [OF sends_frames(3)] by blast
  moreover have "small_steps cx G ?r (begin_send h (UdpReadClosed i token) ?r)"
    by (rule begin_send_steps [OF reported_task [OF sends_frames(3) assms]]) (simp_all add: task_event_def)
  moreover have "small_steps cx G s (begin_send h (UdpReadClosed i token) s)"
    by (rule begin_send_steps [OF assms]) (simp_all add: task_event_def)
  ultimately show ?thesis by (auto simp: end_udp_reader_def intro: ss_trans)
qed

lemma reader_steps:
  assumes "task_at s h (TargetReaderTask i token)"
  shows "small_steps cx G s (relay_target_to_client cx h i token outcome s)"
proof -
  have *: "small_steps cx G s (end_target_reader cx h i token failed s')" "small_steps cx G s (try_record_flow_activity cx Activity s')"
    if "small_steps cx G s s' \<and> carrier_only s s'" for s' failed
    using that assms by (auto intro: ss_trans [OF _ end_reader_steps] ss_trans [OF _ try_record_steps(1)] task_at_carrier)
  show ?thesis
    using * [of s] * [OF sendsD [OF sends_frames(2)]] * [OF sendsD [OF sends_frames(4)]]
    by (auto simp: relay_target_to_client_def Let_def split: target_read.splits prod.splits sum.splits)
qed


lemma emit_steps:
  assumes "emit_udp_to_client cx channel i token p s = (r, s')"
  shows "small_steps cx G s s' \<and> task_at s' = task_at s"
proof -
  let ?m = "if udp_payload_exceeds_frame_limit (length p) (lm_data_frame_size (cx_limits cx)) then io_ok EmitDroppedTooLarge
    else io_then (send_udp_data cx i p token) (\<lambda>_. io_ok EmitSent)"
  have m: "sends cx G ?m" by (auto intro: sends_intros)
  obtain a s1 where t: "try_send_udp_datagram channel i p s = (a, s1)" by (cases "try_send_udp_datagram channel i p s")
  then have dg: "a = AttemptFallBack \<and> s1 = s \<or> a = AttemptSent \<and> small_step cx G s s1 \<and> task_at s1 = task_at s"
    using small_step.datagram_sent [of i p _ cx G s]
    by (auto simp: try_send_udp_datagram_def task_at_def fun_eq_iff
        split: option.splits sum.splits if_splits datagram_send_outcome.splits)
  show ?thesis
  proof (cases "cx_datagrams cx \<and> a = AttemptSent")
    case True
    with assms dg have "s' = s1" "small_step cx G s s1 \<and> task_at s1 = task_at s"
      by (simp_all add: emit_udp_to_client_def Let_def t)
    then show ?thesis by (simp add: ss_one)
  next
    case False
    with assms dg have "?m s = (r, s')" by (auto simp: emit_udp_to_client_def Let_def t split: if_splits)
    from sendsD [OF m this] show ?thesis using carrier_onlyD [of s s'] by (simp add: task_at_def fun_eq_iff)
  qed
qed

lemma udp_reader_steps:
  assumes "task_at s h (UdpReaderTask i token)"
  shows "small_steps cx G s (relay_udp_target_to_client cx h i token channel outcome s)"
proof -
  have *: "small_steps cx G s (end_udp_reader cx h i token failed s')" "small_steps cx G s (try_record_flow_activity cx (UdpActivity i) s')"
    "small_steps cx G s s'"
    if "small_steps cx G s s' \<and> task_at s' = task_at s" for s' failed
    using that assms by (auto intro: ss_trans [OF _ end_udp_reader_steps] ss_trans [OF _ try_record_steps(2)])
  show ?thesis
    using * [of s] * [OF emit_steps]
    by (auto simp: relay_udp_target_to_client_def Let_def split: target_read.splits prod.splits sum.splits udp_emit.splits)
qed

section \<open>The target writer\<close>

fun queue_data :: "target_command list \<Rightarrow> byte list list" where
  "queue_data [] = []"
| "queue_data (CmdData p # q) = p # queue_data q"
| "queue_data (CmdClose # q) = queue_data q"

lemma drop_commands:
  "fold (drop_command cx token) q s =
     s\<lparr>se_budgets := fold (\<lambda>p. control_release_bytes (budget_key cx token) (length p)) (queue_data q) (se_budgets s)\<rparr>"
  by (induction q arbitrary: s rule: queue_data.induct) (simp_all add: release_data_def)

lemma drop_receiver_eq:
  "drop_receiver cx token s =
     (let c = se_controls s token
      in s\<lparr>se_controls := (se_controls s)(token := c\<lparr>fc_queue := [], fc_receiver := False\<rparr>),
           se_budgets := fold (\<lambda>p. control_release_bytes (budget_key cx token) (length p)) (queue_data (fc_queue c)) (se_budgets s)\<rparr>)"
  by (simp add: drop_receiver_def drop_commands update_control_def Let_def)

lemma drop_writer_eq:
  "drop_writer cx token s =
     (let c = se_controls s token;
          bg = (case fc_writing c of
                  Some p \<Rightarrow> control_release_bytes (budget_key cx token) (length p) (se_budgets s) | None \<Rightarrow> se_budgets s)
      in s\<lparr>se_controls := (se_controls s)(token := c\<lparr>fc_queue := [], fc_writing := None, fc_receiver := False\<rparr>),
           se_budgets := fold (\<lambda>p. control_release_bytes (budget_key cx token) (length p)) (queue_data (fc_queue c)) bg\<rparr>)"
proof (cases "fc_writing (se_controls s token)")
  case None
  then have "se_controls s token\<lparr>fc_queue := [], fc_receiver := False\<rparr> =
      se_controls s token\<lparr>fc_queue := [], fc_writing := None, fc_receiver := False\<rparr>"
    by (cases "se_controls s token") simp
  with None show ?thesis by (simp only: drop_writer_def drop_receiver_eq Let_def option.case)
next
  case (Some p)
  then show ?thesis
    by (cases "se_controls s token") (simp add: drop_writer_def drop_receiver_eq release_data_def update_control_def Let_def)
qed

lemma task_at_drop [simp]: "task_at (drop_receiver cx token s) = task_at s"
  by (simp add: drop_receiver_eq Let_def task_at_def fun_eq_iff)

text \<open>Carrier writes do not look at the states of tasks.\<close>

definition state_blind :: "nat \<Rightarrow> task_state \<Rightarrow> 'a relay \<Rightarrow> bool" where
  "state_blind h st m \<longleftrightarrow> (\<forall>s. m (set_task h st s) = map_prod id (set_task h st) (m s))"

lemma state_blind_then: "state_blind h st m \<Longrightarrow> (\<And>a. state_blind h st (k a)) \<Longrightarrow> state_blind h st (io_then m k)"
  by (auto simp: state_blind_def io_then_def split: prod.splits sum.splits)

lemma state_blind_writes:
  "state_blind h st (protocol_result r)" "state_blind h st (write_frame_locked cx f)"
  by (auto simp: state_blind_def protocol_result_def write_frame_locked_def carrier_write_def set_task_def shutdown_close_def Let_def
      split: write_outcome.splits list.splits)

lemma state_blind_sends: "state_blind h st (send_error cx i c)" "state_blind h st (send_tcp_close cx i k)"
  unfolding send_error_def send_status_frame_def send_tcp_close_def by (intro state_blind_then state_blind_writes)+

lemma report_set_task:
  "report_target_failure cx i token (send_tcp_close cx i k) (set_task h st s) =
     set_task h st (report_target_failure cx i token (send_tcp_close cx i k) s)"
proof -
  have "control_abort token (set_task h st s) = set_task h st (control_abort token s)"
    by (simp add: control_abort_def update_control_def set_task_def)
  moreover have "snd (send_error cx i c (set_task h st s)) = set_task h st (snd (send_error cx i c s))"
    "snd (send_tcp_close cx i k (set_task h st s)) = set_task h st (snd (send_tcp_close cx i k s))" for s c
    using state_blind_sends by (simp_all add: state_blind_def)
  ultimately show ?thesis by (simp add: report_target_failure_def Let_def) (simp add: set_task_def)
qed

lemma begin_send_set_task: "begin_send h ev (set_task h st s) = begin_send h ev s"
  by (simp add: begin_send_def set_task_def)

lemma end_writer_steps:
  assumes "task_at s h (TargetWriterTask i token)" "small_steps cx G s0 (set_task h TaskDone (drop_receiver cx token s))"
    "fc_writing (se_controls s token) = None"
  shows "small_steps cx G s0 (end_target_writer cx h i token failed s)"
proof -
  let ?d = "set_task h TaskDone (drop_receiver cx token s)" and ?m = "send_tcp_close cx i TCP_CLOSE_ERROR"
  let ?r = "report_target_failure cx i token ?m ?d"
  have "task_at ?d h (TargetWriterTask i token)" using assms(1) by (simp add: task_at_def set_task_def drop_receiver_eq Let_def)
  then have at: "task_at ?d h (TargetWriterTask i token)" "task_at ?r h (TargetWriterTask i token)"
    by (simp_all add: reported_task [OF sends_frames(2)])
  have r: "small_steps cx G ?d ?r" "\<exists>s'. carrier_only s' ?r \<and> (s' = ?d \<or> s' = control_abort token ?d)"
    using report_failure_steps [OF sends_frames(2)] by auto
  have d: "\<not> fc_receiver (se_controls s' token) \<and> fc_queue (se_controls s' token) = [] \<and> fc_writing (se_controls s' token) = None"
    if "s' = ?d \<or> s' = control_abort token ?d" for s'
    using that assms(3) by (auto simp: drop_receiver_eq set_task_def Let_def control_abort_def update_control_def)
  with r(2) have c: "\<not> fc_receiver (se_controls ?r token) \<and> fc_queue (se_controls ?r token) = [] \<and> fc_writing (se_controls ?r token) = None"
    by (auto simp: carrier_onlyD)
  have "small_steps cx G ?d (begin_send h (WriteClosed i token) ?d)" "small_steps cx G ?r (begin_send h (WriteClosed i token) ?r)"
    using at d [of ?d] c by (auto intro!: begin_send_steps simp: task_event_def)
  then have "small_steps cx G ?d (end_target_writer cx h i token failed s)"
    using r(1) by (auto simp: end_target_writer_def Let_def report_set_task begin_send_set_task intro: ss_trans)
  with assms(2) show ?thesis by (rule ss_trans)
qed

lemma task_at_writer: "task_at s h (TargetWriterTask i token) \<Longrightarrow> is_writer s h token"
  by (auto simp: task_at_def is_writer_def)

text \<open>The end of a turn that shuts the target's write half down, from a state whose queue is used up or
  starts with the close command.\<close>

lemma shutdown_target_steps:
  assumes "task_at s h (TargetWriterTask i token)" "se_task_states s h \<in> {TaskRunning, TaskDraining}"
    "fc_writing (se_controls s token) = None" "fc_closed (se_controls s token)"
    "fc_queue (se_controls s token) = [] \<or> (\<exists>q. fc_queue (se_controls s token) = CmdClose # q)"
  shows "small_steps cx G s (shutdown_target cx h i token ok s)"
proof -
  have live: "is_live_writer s' h token" if "se_tasks s' = se_tasks s" "se_task_states s' = se_task_states s" "se_aborted_tasks s' = se_aborted_tasks s" for s'
    using assms(1,2) that by (auto simp: is_live_writer_def is_writer_def task_at_def)
  have "small_step cx G s (set_task h TaskDone (drop_receiver cx token s))"
    by (rule small_step.receiver_dropped [OF live]) (simp_all add: assms(3))
  then have fail: "small_steps cx G s (end_target_writer cx h i token True s)"
    by (rule end_writer_steps [OF assms(1) ss_one assms(3)])
  let ?e = "deliver_eof token s"
  have "small_step cx G s ?e"
    using assms task_at_writer by (intro small_step.end_of_stream [of s h]) auto
  moreover have "small_step cx G ?e (set_task h TaskDone (drop_receiver cx token ?e))"
    by (rule small_step.receiver_dropped [OF live]) (simp_all add: assms(3) deliver_eof_def)
  ultimately have "small_steps cx G s (end_target_writer cx h i token False ?e)"
    using assms(1,3) by (intro end_writer_steps ss_then [OF ss_one]) (simp_all add: deliver_eof_def task_at_def)
  with fail show ?thesis by (simp add: shutdown_target_def)
qed

lemma end_writer_popped:
  "fc_queue (se_controls s token) = CmdClose # q \<Longrightarrow>
     shutdown_target cx h i token ok (control_close token (pop_command token s)) = shutdown_target cx h i token ok (control_close token s)"
  "fc_queue (se_controls s token) = CmdData p # q \<Longrightarrow>
     end_target_writer cx h i token failed (release_data cx token p (pop_command token s)) = end_target_writer cx h i token failed s"
  by (simp_all add: shutdown_target_def end_target_writer_def drop_receiver_eq pop_command_def control_close_def update_control_def
      deliver_eof_def release_data_def Let_def)

lemma live_writer_drop:
  assumes "task_at s h (TargetWriterTask i token)" "se_task_states s h \<in> {TaskRunning, TaskDraining}"
    "fc_writing (se_controls s token) = None"
  shows "small_steps cx G s (end_target_writer cx h i token failed s)"
  using assms by (intro end_writer_steps ss_one small_step.receiver_dropped [of s h])
    (auto simp: is_live_writer_def dest: task_at_writer)

lemma begin_command_steps:
  assumes "task_at s h (TargetWriterTask i token)" "se_task_states s h = (if draining then TaskDraining else TaskRunning)"
    "fc_writing (se_controls s token) = None" "fc_queue (se_controls s token) = cmd # q"
  shows "small_steps cx G s (begin_target_command cx h i token draining ok cmd (pop_command token s))"
proof (cases cmd)
  case (CmdData p)
  have "small_step cx G s (set_task h (TaskWriting draining)
      (update_control token (\<lambda>c. c\<lparr>fc_writing := Some p\<rparr>) (pop_command token s)))"
    using assms by (intro small_step.data_taken [OF task_at_writer]) (auto simp: CmdData)
  moreover have "small_steps cx G s (end_target_writer cx h i token False s)"
    using assms by (intro live_writer_drop) auto
  ultimately show ?thesis
    using assms(4) by (auto simp: CmdData end_writer_popped intro: ss_one)
next
  case CmdClose
  let ?c = "control_close token s"
  have "small_steps cx G ?c (shutdown_target cx h i token ok ?c)"
    using assms by (intro shutdown_target_steps) (auto simp: CmdClose control_close_def update_control_def task_at_def)
  then have "small_steps cx G s (shutdown_target cx h i token ok ?c)"
    by (rule ss_trans [OF ss_one [OF small_step.control_closed]])
  with assms(4) show ?thesis by (simp add: CmdClose end_writer_popped)
qed

section \<open>Well-formed sessions\<close>

text \<open>The tasks of a session: a task starts in its loop, tokens of tasks have been handed out, a token has
  one writer at most, a writer has a datum in hand only while it writes, it has its queue until it leaves its
  loop, and has then dropped it. The half-close timer of a flow is a timer task.\<close>

fun task_token :: "session_task \<Rightarrow> u64 option" where
  "task_token (TcpOpenTask _ token _ _) = Some token"
| "task_token (UdpOpenTask _ token _ _) = Some token"
| "task_token (TargetReaderTask _ token) = Some token"
| "task_token (TargetWriterTask _ token) = Some token"
| "task_token (UdpReaderTask _ token) = Some token"
| "task_token DatagramReaderTask = None"
| "task_token (HalfCloseTimerTask _ _ _ _) = None"

definition tasks_fresh :: "session \<Rightarrow> bool" where
  "tasks_fresh s \<longleftrightarrow> (\<forall>h \<ge> length (se_tasks s). se_task_states s h = TaskRunning \<and> h \<notin> se_aborted_tasks s) \<and>
     (\<forall>task \<in> set (se_tasks s). \<forall>token. task_token task = Some token \<longrightarrow> token < se_next_token s)"

definition writers_unique :: "session \<Rightarrow> bool" where
  "writers_unique s \<longleftrightarrow> (\<forall>h < length (se_tasks s). \<forall>h' < length (se_tasks s). \<forall>i i' token.
     se_tasks s ! h = TargetWriterTask i token \<longrightarrow> se_tasks s ! h' = TargetWriterTask i' token \<longrightarrow> h = h')"

definition writers_consistent :: "session \<Rightarrow> bool" where
  "writers_consistent s \<longleftrightarrow>
     (\<forall>h token. is_writer s h token \<longrightarrow> se_task_states s h \<in> {TaskRunning, TaskDraining} \<longrightarrow>
        fc_writing (se_controls s token) = None)"

definition writers_open :: "session \<Rightarrow> bool" where
  "writers_open s \<longleftrightarrow> (\<forall>h token. is_live_writer s h token \<longrightarrow> fc_receiver (se_controls s token))"

definition writers_ended :: "session \<Rightarrow> bool" where
  "writers_ended s \<longleftrightarrow>
     (\<forall>h < length (se_tasks s). \<forall>i token. se_tasks s ! h = TargetWriterTask i token \<longrightarrow> \<not> is_live_writer s h token \<longrightarrow>
        \<not> fc_receiver (se_controls s token) \<and> fc_queue (se_controls s token) = [] \<and> fc_writing (se_controls s token) = None)"

definition timers_ok :: "session \<Rightarrow> bool" where
  "timers_ok s \<longleftrightarrow>
     (\<forall>i f h. hm_get (se_flows s) i = Some (TcpFlow f) \<longrightarrow> tf_half_close_timer f = Some h \<longrightarrow> is_timer s h)"

definition session_wf :: "session \<Rightarrow> bool" where
  "session_wf s \<longleftrightarrow> hm_wf (se_flows s) \<and> timers_ok s \<and> tasks_fresh s \<and> writers_unique s \<and> writers_consistent s \<and>
     writers_open s \<and> writers_ended s"

lemmas session_ops =
  shutdown_close_def control_close_def control_abort_def update_control_def push_command_def pop_command_def drop_sender_def
  set_slot_def cancel_open_def abort_task_def spawn_task_def admit_tcp_open_def admit_udp_open_def next_token_def new_token_def
  establish_tcp_def establish_udp_def udp_socket_send_def transition_def push_event_def set_task_def end_write_def release_data_def
  deliver_def drop_receiver_eq drop_writer_eq deliver_eof_def record_dials_def Let_def

lemma unat_next: "t + 1 \<noteq> (0 :: u64) \<Longrightarrow> unat (t + 1) = unat t + 1"
proof -
  assume "t + 1 \<noteq> 0"
  then have "unat (t + 1) \<noteq> 0" by (simp add: unat_eq_0)
  moreover have "unat (t + 1) = (unat t + 1) mod 2 ^ 64" by (simp add: unat_word_ariths)
  moreover have "unat t < 2 ^ 64" using unat_less_pow [of t] by simp
  ultimately show ?thesis by (cases "unat t + 1 = 2 ^ 64") (simp_all add: mod_less)
qed

lemma less_next: "t + 1 \<noteq> (0 :: u64) \<Longrightarrow> u < t + 1 \<longleftrightarrow> u \<le> t"
  by (auto simp: word_less_nat_alt word_le_nat_alt unat_next)

lemma tasks_fresh_step:
  assumes "small_step cx G s s'" "timers_ok s" "tasks_fresh s"
  shows "tasks_fresh s'"
  using assms
proof cases
  case (timer_aborted i f h)
  then have "is_timer s h" using assms(2) by (auto simp: timers_ok_def)
  with timer_aborted assms(3) show ?thesis by (auto simp: tasks_fresh_def session_ops is_timer_def)
qed (auto simp: tasks_fresh_def session_ops less_next order.strict_implies_order is_writer_def is_live_writer_def)

lemma fresh_writer:
  assumes "tasks_fresh s" "h < length (se_tasks s)"
  shows "se_tasks s ! h \<noteq> TargetWriterTask i (se_next_token s)"
  using assms(1) nth_mem [OF assms(2)] by (auto simp: tasks_fresh_def)

lemma writers_unique_step:
  assumes "small_step cx G s s'" "tasks_fresh s" "writers_unique s"
  shows "writers_unique s'"
proof -
  note fresh = fresh_writer [OF assms(2)]
  show ?thesis
    using assms(1,3) by cases (auto simp: writers_unique_def session_ops nth_append less_Suc_eq fresh)
qed

lemma writers_consistent_step:
  assumes "small_step cx G s s'" "session_wf s"
  shows "writers_consistent s'"
proof -
  have fresh: "se_tasks s ! h \<noteq> TargetWriterTask i (se_next_token s)" if "h < length (se_tasks s)" for h i
    using assms(2) that by (auto simp: session_wf_def fresh_writer)
  have new: "se_task_states s (length (se_tasks s)) = TaskRunning" "se_task_states s (Suc (length (se_tasks s))) = TaskRunning"
    using assms(2) by (simp_all add: session_wf_def tasks_fresh_def)
  have unique: "writers_unique s" and c: "writers_consistent s" using assms(2) by (simp_all add: session_wf_def)
  note [simp] = is_live_writer_def is_writer_def
  from assms(1) c show ?thesis
  proof cases
    case (tcp_established i c)
    then show ?thesis using c fresh new by (auto simp: writers_consistent_def session_ops nth_append less_Suc_eq flow_control_new_def)
  next
    case (data_taken h token draining p q)
    with c unique show ?thesis by (auto simp: writers_consistent_def writers_unique_def session_ops)
  next
    case (data_written h token draining p)
    with c unique show ?thesis by (auto simp: writers_consistent_def writers_unique_def session_ops)
  qed (auto simp: writers_consistent_def session_ops nth_append less_Suc_eq new flow_control_new_def)
qed

lemma writers_open_step:
  assumes "small_step cx G s s'" "session_wf s"
  shows "writers_open s'"
proof -
  have fresh: "se_tasks s ! h \<noteq> TargetWriterTask i (se_next_token s)" if "h < length (se_tasks s)" for h i
    using assms(2) that by (auto simp: session_wf_def fresh_writer)
  have unique: "writers_unique s" and o: "writers_open s" using assms(2) by (simp_all add: session_wf_def)
  note [simp] = is_live_writer_def is_writer_def
  from assms(1) o show ?thesis
  proof cases
    case (data_taken h token draining p q)
    with o show ?thesis by (cases draining) (auto simp: writers_open_def session_ops)
  next
    case (data_written h token draining p)
    with o show ?thesis by (cases draining) (auto simp: writers_open_def session_ops)
  next
    case (write_cut_short h token draining p n)
    with o unique show ?thesis by (auto simp: writers_open_def writers_unique_def session_ops)
  next
    case (receiver_dropped h token)
    with o unique show ?thesis by (auto simp: writers_open_def writers_unique_def session_ops)
  next
    case (writer_aborted h token)
    with o unique show ?thesis by (auto simp: writers_open_def writers_unique_def session_ops)
  next
    case (task_finished h st)
    with o unique show ?thesis by (auto simp: writers_open_def writers_unique_def session_ops)
  qed (auto simp: writers_open_def session_ops nth_append less_Suc_eq flow_control_new_def)
qed

lemma writers_ended_step:
  assumes "small_step cx G s s'" "session_wf s"
  shows "writers_ended s'"
proof -
  have fresh: "se_tasks s ! h \<noteq> TargetWriterTask i (se_next_token s)" if "h < length (se_tasks s)" for h i
    using assms(2) that by (auto simp: session_wf_def fresh_writer)
  have new: "se_task_states s (length (se_tasks s)) = TaskRunning" "se_task_states s (Suc (length (se_tasks s))) = TaskRunning"
    "Suc (length (se_tasks s)) \<notin> se_aborted_tasks s"
    using assms(2) by (simp_all add: session_wf_def tasks_fresh_def)
  have unique: "writers_unique s" and e: "writers_ended s" using assms(2) by (simp_all add: session_wf_def)
  note [simp] = is_live_writer_def is_writer_def
  from assms(1) e show ?thesis
  proof cases
    case (data_taken h token draining p q)
    with e unique show ?thesis by (auto simp: writers_ended_def writers_unique_def session_ops)
  next
    case (data_written h token draining p)
    with e unique show ?thesis by (auto simp: writers_ended_def writers_unique_def session_ops)
  next
    case (write_cut_short h token draining p n)
    with e unique show ?thesis by (auto simp: writers_ended_def writers_unique_def session_ops)
  next
    case (data_queued i f p bg)
    with e show ?thesis by (auto simp: writers_ended_def session_ops queue_has_room_def)
  next
    case (close_queued token)
    with e show ?thesis by (auto simp: writers_ended_def session_ops queue_has_room_def)
  next
    case (task_aborted h)
    have "\<not> is_live_writer s h' token" if "\<not> is_live_writer s' h' token" for h' token
      using that task_aborted(3) [of token] by (cases "h' = h") (auto simp: task_aborted(1) session_ops)
    with e show ?thesis by (simp add: writers_ended_def task_aborted(1) session_ops del: is_live_writer_def)
  next
    case (timer_aborted i f h)
    then have "is_timer s h" using assms(2) by (auto simp: session_wf_def timers_ok_def)
    with e timer_aborted show ?thesis by (auto simp: writers_ended_def session_ops is_timer_def)
  qed (auto simp: writers_ended_def session_ops nth_append less_Suc_eq new fresh)
qed

lemma timers_ok_step:
  assumes "small_step cx G s s'" "timers_ok s"
  shows "timers_ok s'"
  using assms
proof cases
  case (slot_changed i slot slot')
  with assms(2) show ?thesis
    by (cases slot; cases slot') (auto simp: timers_ok_def session_ops hm.get_insert same_flow_def is_timer_def)
next
  case (slot_removed i)
  with assms(2) show ?thesis by (auto simp: timers_ok_def hm.get_remove is_timer_def)
qed (auto simp: timers_ok_def session_ops is_timer_def hm.get_insert nth_append target_flow_new_def intro!: less_SucI)

lemma flows_wf_step: "small_step cx G s s' \<Longrightarrow> hm_wf (se_flows s) \<Longrightarrow> hm_wf (se_flows s')"
  by (induction rule: small_step.induct) (simp_all add: session_ops hm.wf_insert hm.wf_remove)

lemma session_wf_step:
  assumes step: "small_step cx G s s'" and wf: "session_wf s"
  shows "session_wf s'"
proof -
  note parts = wf [unfolded session_wf_def]
  have "hm_wf (se_flows s')" "timers_ok s'" using step parts flows_wf_step timers_ok_step by blast+
  moreover have "tasks_fresh s'" "writers_unique s'" using step parts tasks_fresh_step writers_unique_step by blast+
  ultimately show ?thesis
    using writers_consistent_step [OF step wf] writers_open_step [OF step wf] writers_ended_step [OF step wf]
    by (simp add: session_wf_def)
qed

lemma session_wf_steps: "small_steps cx G s s' \<Longrightarrow> session_wf s \<Longrightarrow> session_wf s'"
  unfolding small_steps_def by (induction rule: rtranclp_induct) (auto intro: session_wf_step)


section \<open>Steps of the tasks\<close>

lemma idle_writer:
  assumes "session_wf s" "task_at s h (TargetWriterTask i token)" "se_task_states s h \<in> {TaskRunning, TaskDraining}"
  shows "fc_writing (se_controls s token) = None"
  using assms(1,3) task_at_writer [OF assms(2)] unfolding session_wf_def writers_consistent_def by blast

lemma finish_writer_steps:
  assumes "session_wf s" "task_at s h (TargetWriterTask i token)" "se_task_states s h \<in> {TaskRunning, TaskDraining}"
    "fc_queue (se_controls s token) = []"
  shows "small_steps cx G s (finish_target_writer cx h i token ok s)"
  using assms idle_writer [OF assms(1-3)]
  by (auto simp: finish_target_writer_def intro!: shutdown_target_steps live_writer_drop)

lemma writer_turn_steps:
  assumes "session_wf s" "task_at s h (TargetWriterTask i token)"
  shows "small_steps cx G s (relay_client_to_target cx h i token ok s)"
proof -
  note w = idle_writer [OF assms]
  have drain: "small_steps cx G s (set_task h TaskDraining s)" if "se_task_states s h = TaskRunning"
    using that by (rule ss_one [OF small_step.writer_draining [OF task_at_writer [OF assms(2)]]])
  note cmd = begin_command_steps [OF assms(2), unfolded pop_command_def]
  show ?thesis
  proof (cases "se_task_states s h")
    case TaskRunning
    with w have "fc_writing (se_controls s token) = None" by simp
    with TaskRunning show ?thesis
      using drain finish_writer_steps [OF assms] live_writer_drop [OF assms(2)] cmd [of False]
      by (auto simp: relay_client_to_target_def Let_def split: list.splits)
  next
    case TaskDraining
    with w have "fc_writing (se_controls s token) = None" by simp
    with TaskDraining show ?thesis
      using finish_writer_steps [OF assms] cmd [of True]
      by (auto simp: relay_client_to_target_def Let_def split: list.splits)
  qed (simp_all add: relay_client_to_target_def)
qed

lemma set_task_record:
  "set_task h st (try_record_flow_activity cx ev s) = try_record_flow_activity cx ev (set_task h st s)"
  by (simp add: try_record_flow_activity_def set_task_def event_room_def push_event_def)

lemma writer_write_steps:
  assumes "task_at s h (TargetWriterTask i token)"
  shows "small_steps cx G s (write_target_command cx h i token outcome s)"
proof -
  have "small_steps cx G s (set_task h (if d then TaskDraining else TaskRunning) (try_record_flow_activity cx Activity (end_write cx token (length p) p s)))"
    "small_steps cx G s (end_target_writer cx h i token failed (end_write cx token n p s))"
    if "se_task_states s h = TaskWriting d" "fc_writing (se_controls s token) = Some p" for d p n failed
  proof -
    note w = task_at_writer [OF assms] that
    have "small_step cx G s (set_task h (if d then TaskDraining else TaskRunning) (end_write cx token (length p) p s))"
      using w by (rule small_step.data_written)
    then show "small_steps cx G s (set_task h (if d then TaskDraining else TaskRunning) (try_record_flow_activity cx Activity (end_write cx token (length p) p s)))"
      unfolding set_task_record by (rule ss_trans [OF ss_one try_record_steps(1)])
    have "small_step cx G s (set_task h TaskDone (drop_receiver cx token (end_write cx token n p s)))"
      using w by (rule small_step.write_cut_short)
    then show "small_steps cx G s (end_target_writer cx h i token failed (end_write cx token n p s))"
      using assms by (intro end_writer_steps ss_one) (simp_all add: session_ops task_at_def)
  qed
  note this(1) [of True] this(1) [of False] this(2)
  then show ?thesis
    by (auto simp: write_target_command_def split: task_state.splits option.splits target_write.splits)
qed

lemma send_turn_steps:
  assumes "session_wf s" "task_at s h task"
  shows "small_steps cx G s (send_flow_event_or_shutdown cx h task gives_up s)"
proof (cases "se_task_states s h")
  case (TaskSending ev)
  have after: "small_step cx G s' (set_task h (after_send task) s')"
    if "se_controls s' = se_controls s" "task_at s' h task" for s'
  proof (rule small_step.task_finished)
    fix i token
    assume "se_tasks s' ! h = TargetWriterTask i token"
    with that(2) have "task = TargetWriterTask i token" by (simp add: task_at_def)
    with assms(2) have "h < length (se_tasks s)" "se_tasks s ! h = TargetWriterTask i token" "\<not> is_live_writer s h token"
      by (auto simp: TaskSending is_live_writer_def is_writer_def task_at_def)
    with assms(1) show "\<not> fc_receiver (se_controls s' token) \<and> fc_queue (se_controls s' token) = [] \<and> fc_writing (se_controls s' token) = None"
      unfolding that(1) session_wf_def writers_ended_def by blast
  qed (use that in \<open>auto simp: task_at_def after_send_def split: session_task.splits\<close>)
  have "small_step cx G s (push_event ev s)"
    using assms(2) TaskSending by (intro small_step.event_pushed) (auto simp: task_at_def)
  with after [of s] after [of "push_event ev s"] assms(2) show ?thesis
    by (auto simp: send_flow_event_or_shutdown_def TaskSending push_event_def task_at_def intro: ss_one ss_then)
qed (simp_all add: send_flow_event_or_shutdown_def)

lemma datagram_turn_steps:
  assumes "task_at s h DatagramReaderTask"
  shows "small_steps cx G s (datagram_reader h received s)"
  using assms by (auto simp: datagram_reader_def task_event_def split: option.splits sum.splits intro!: finished_steps)

lemma timer_turn_steps:
  assumes "task_at s h (HalfCloseTimerTask i token side d)"
  shows "small_steps cx G s (half_close_timer h i token side elapsed s)"
  using assms by (auto simp: half_close_timer_def task_event_def intro!: finished_steps begin_send_steps)

lemma task_step_steps:
  assumes "session_wf s"
  shows "small_steps cx G s (task_step cx hs s)"
proof -
  obtain h step where hs: "hs = (h, step)" by (cases hs)
  show ?thesis
  proof (cases "length (se_tasks s) \<le> h \<or> h \<in> se_aborted_tasks s")
    case False
    define task where "task = se_tasks s ! h"
    have at: "task_at s h task" using False by (auto simp: task_at_def task_def)
    note send = send_turn_steps [OF assms at]
    show ?thesis
    proof (cases task)
      case (TcpOpenTask i token t ps)
      have "small_steps cx G s (target_open_step cx h i token t ps w now stopped s)" for w now stopped
        unfolding target_open_step_def
        by (rule open_task_steps [OF at]) (auto simp: TcpOpenTask task_event_def dials_of_def)
      with False send show ?thesis by (auto simp: task_step_def hs task_def [symmetric] TcpOpenTask split: task_step.splits)
    next
      case (UdpOpenTask i token t ps)
      have "small_steps cx G s (udp_open_step cx h i token t ps w now stopped s)" for w now stopped
        unfolding udp_open_step_def
        by (rule open_task_steps [OF at]) (auto simp: UdpOpenTask task_event_def dials_of_def)
      with False send show ?thesis by (auto simp: task_step_def hs task_def [symmetric] UdpOpenTask split: task_step.splits)
    qed (use False send at assms in \<open>auto simp: task_step_def hs task_def [symmetric] split: task_step.splits
        intro: reader_steps udp_reader_steps writer_turn_steps writer_write_steps datagram_turn_steps timer_turn_steps\<close>)
  qed (auto simp: task_step_def hs)
qed

lemma task_steps_steps: "session_wf s \<Longrightarrow> small_steps cx G s (task_steps cx steps s)"
proof (induction steps arbitrary: s)
  case (Cons hs steps)
  have "small_steps cx G s (task_step cx hs s)" by (rule task_step_steps [OF Cons.prems])
  moreover from session_wf_steps [OF this Cons.prems] Cons.IH
  have "small_steps cx G (task_step cx hs s) (task_steps cx steps (task_step cx hs s))" by blast
  ultimately show ?case by (simp add: task_steps_def) (rule ss_trans)
qed (simp add: task_steps_def)

section \<open>Teardown\<close>

lemma drop_task_tasks [simp]: "se_tasks (drop_task cx ht s) = se_tasks s"
  by (simp add: drop_task_def session_ops split: prod.split session_task.split task_state.split)

lemma drop_task_steps:
  assumes "h < length (se_tasks s)"
  shows "small_steps cx G s (drop_task cx (h, se_tasks s ! h) s)"
proof -
  define task where "task = se_tasks s ! h"
  have writer: "small_step cx G s (abort_task h (drop_writer cx token s))"
    if "\<not> task_ended s h" "task = TargetWriterTask i token" "\<And>ev. se_task_states s h \<noteq> TaskSending ev" for i token
  proof (rule small_step.writer_aborted)
    from that have "se_task_states s h \<in> {TaskRunning, TaskDraining, TaskWriting True, TaskWriting False}"
      by (cases "se_task_states s h") (auto simp: task_ended_def)
    then show "is_live_writer s h token" using assms that by (auto simp: is_live_writer_def is_writer_def task_ended_def task_def)
  qed
  have other: "small_step cx G s (abort_task h s)"
    if "\<And>i token. task = TargetWriterTask i token \<Longrightarrow> \<exists>ev. se_task_states s h = TaskSending ev"
    using assms that by (intro small_step.task_aborted) (auto simp: is_live_writer_def is_writer_def task_def)
  show ?thesis
    unfolding drop_task_def task_def [symmetric]
    by (auto intro!: ss_one writer other split: session_task.split task_state.split)
qed

lemma drop_tasks_steps:
  assumes "\<And>h task. (h, task) \<in> set hts \<Longrightarrow> h < length (se_tasks s) \<and> se_tasks s ! h = task"
  shows "small_steps cx G s (fold (drop_task cx) hts s)"
  using assms
proof (induction hts arbitrary: s)
  case (Cons ht hts)
  obtain h task where ht: "ht = (h, task)" by (cases ht)
  have "small_steps cx G s (drop_task cx ht s)"
    using drop_task_steps [of h s] Cons.prems [of h task] by (auto simp: ht)
  moreover have "small_steps cx G (drop_task cx ht s) (fold (drop_task cx) hts (drop_task cx ht s))"
    using Cons.prems by (intro Cons.IH) (simp del: split_paired_All, blast)
  ultimately show ?case by simp (rule ss_trans)
qed simp

lemma abort_all_steps: "small_steps cx G s (abort_all cx s)"
  unfolding abort_all_def by (rule drop_tasks_steps) (auto simp: in_set_enumerate_eq)

text \<open>After \<open>abort_all\<close> every task has ended.\<close>

lemma drop_task_ended: "task_ended (drop_task cx ht s) h \<longleftrightarrow> task_ended s h \<or> h = fst ht"
  by (auto simp: drop_task_def task_ended_def session_ops split: prod.split session_task.split task_state.split)

lemma abort_all_ended: "all_tasks_ended (abort_all cx s)"
proof -
  have *: "task_ended (fold (drop_task cx) hts s) h \<longleftrightarrow> task_ended s h \<or> h \<in> fst ` set hts" for hts h s
    by (induction hts arbitrary: s) (auto simp: drop_task_ended)
  have "se_tasks (fold (drop_task cx) hts s) = se_tasks s" for hts s
    by (induction hts arbitrary: s) simp_all
  moreover have "fst ` set (enumerate 0 xs) = {0 ..< length xs}" for xs :: "session_task list"
    unfolding list.set_map [symmetric] by (simp add: enumerate_eq_zip)
  ultimately show ?thesis by (simp add: abort_all_def all_tasks_ended_def list_all_iff *)
qed

lemma drain_ended: "fst (drain_session_tasks cx steps s) \<longleftrightarrow> all_tasks_ended (snd (drain_session_tasks cx steps s))"
  by (simp add: drain_session_tasks_def Let_def abort_all_ended)

section \<open>Tokens\<close>

lemma quiet_step: "small_step cx (g, False, closing) s s' \<Longrightarrow> se_next_token s' = se_next_token s"
  by (erule small_step.cases) (simp_all add: session_ops)

lemma quiet_steps: "small_steps cx (g, False, closing) s s' \<Longrightarrow> se_next_token s' = se_next_token s"
  unfolding small_steps_def by (induction rule: rtranclp_induct) (auto dest: quiet_step)


lemma sends_next: "sends cx (\<lambda>_. True, False, False) m \<Longrightarrow> se_next_token (snd (m s)) = se_next_token s"
  by (metis carrier_onlyD(3) sends_def)

lemma remove_next [simp]: "se_next_token (remove_flow_slot i s) = se_next_token s"
  by (rule quiet_steps [OF remove_steps])

lemma sends_then_next:
  assumes "sends cx (\<lambda>_. True, False, False) m"
    "\<And>a s'. se_next_token s' = se_next_token s \<Longrightarrow> se_next_token (snd (k a s')) \<in> {se_next_token s, se_next_token s + 1}"
  shows "se_next_token (snd (io_then m k s)) \<in> {se_next_token s, se_next_token s + 1}"
proof -
  obtain r s' where m: "m s = (r, s')" by (cases "m s")
  then have "se_next_token s' = se_next_token s" using sends_next [OF assms(1)] by (metis snd_conv)
  with assms(2) show ?thesis by (cases r) (auto simp: io_then_def m)
qed

lemma reject_next:
  "se_next_token (snd (io_then (send_error cx i c) (\<lambda>_. io_then (send_tcp_close cx i k) (\<lambda>_. modify (remove_flow_slot i))) s)) = se_next_token s"
  "se_next_token (snd (io_then (send_error cx i c) (\<lambda>_. io_then (send_udp_close cx i k) (\<lambda>_. modify (remove_flow_slot i))) s)) = se_next_token s"
  "se_next_token (snd (io_then (send_resource_limit cx i) (\<lambda>_. send_tcp_close cx i k) s)) = se_next_token s"
  "se_next_token (snd (io_then (send_resource_limit cx i) (\<lambda>_. send_udp_close cx i k) s)) = se_next_token s"
  by (rule quiet_steps [OF reject_remove_steps(1)] quiet_steps [OF reject_remove_steps(2)]
      quiet_steps [OF limit_steps(1)] quiet_steps [OF limit_steps(2)])+

lemma admit_next: "se_next_token (admit_tcp_open i t ps s) = se_next_token s + 1" "se_next_token (admit_udp_open i t ps s) = se_next_token s + 1"
  by (simp_all add: session_ops)

lemma open_frame_next:
  "se_next_token (snd (handle_tcp_open_frame cx en f s)) \<in> {se_next_token s, se_next_token s + 1}"
  "se_next_token (snd (handle_udp_open_frame cx en f s)) \<in> {se_next_token s, se_next_token s + 1}"
proof -
  note sn = sends_next [OF sends_rejections(3), of cx] sends_next [OF sends_rejections(4), of cx]
  have 1: "se_next_token (snd (io_then (validate_tcp_open_request cx f) (\<lambda>r. case r of None \<Rightarrow> io_ok ()
      | Some (i, t) \<Rightarrow> (case ss of None \<Rightarrow> reject_open_failure cx i OF_PolicyDenied
          | Some policy \<Rightarrow> if \<not> b then io_then (send_resource_limit cx i) (\<lambda>_. send_tcp_close cx i TCP_CLOSE_ERROR)
              else modify (admit_tcp_open i t (pn_policy_set policy)))) s)) \<in> {se_next_token s, se_next_token s + 1}" for ss b
    by (rule sends_then_next [OF sends_validation(1)])
      (auto simp: io_ok_def modify_def admit_next reject_next sn split: option.splits simp del: reject_open_failure.simps)
  have 2: "se_next_token (snd (io_then (validate_udp_open_request cx f) (\<lambda>r. case r of None \<Rightarrow> io_ok ()
      | Some (i, t) \<Rightarrow> (case ss of None \<Rightarrow> reject_udp_open_failure cx i OF_PolicyDenied
          | Some policy \<Rightarrow> if \<not> b then io_then (send_resource_limit cx i) (\<lambda>_. send_udp_close cx i UDP_CLOSE_ERROR)
              else modify (admit_udp_open i t (pn_policy_set policy)))) s)) \<in> {se_next_token s, se_next_token s + 1}" for ss b
    by (rule sends_then_next [OF sends_validation(2)])
      (auto simp: io_ok_def modify_def admit_next reject_next sn split: option.splits simp del: reject_udp_open_failure.simps)
  show "se_next_token (snd (handle_tcp_open_frame cx en f s)) \<in> {se_next_token s, se_next_token s + 1}"
    unfolding handle_tcp_open_frame_def Let_def by (auto simp: reject_next split: sum.splits open_slot_rejection.splits) (use 1 in auto)
  show "se_next_token (snd (handle_udp_open_frame cx en f s)) \<in> {se_next_token s, se_next_token s + 1}"
    unfolding handle_udp_open_frame_def Let_def by (auto simp: reject_next split: sum.splits udp_open_slot_rejection.splits) (use 2 in auto)
qed


lemma accept_next:
  "se_next_token (snd (io_then (accept_open_target cx i permit) (\<lambda>fl. modify (set_slot i (TcpFlow fl))) s)) = se_next_token s + 1"
  "se_next_token (snd (io_then (accept_open_udp_target cx en i permit) (\<lambda>fl. modify (set_slot i (UdpFlow fl))) s)) = se_next_token s + 1"
proof -
  have nt: "se_next_token (new_token s) = se_next_token s + 1" by (simp add: session_ops)
  obtain r s1 where d: "send_tcp_data cx i [] (se_next_token s) (new_token s) = (r, s1)"
    by (cases "send_tcp_data cx i [] (se_next_token s) (new_token s)")
  then have "se_next_token s1 = se_next_token (new_token s)" using sends_next [OF sends_frames(4)] by (metis snd_conv)
  then show "se_next_token (snd (io_then (accept_open_target cx i permit) (\<lambda>fl. modify (set_slot i (TcpFlow fl))) s)) = se_next_token s + 1"
    by (cases r) (simp_all add: io_then_def accept_state d modify_def set_slot_def spawn_task_def nt)
  obtain r' s2 where d': "send_udp_data cx i [] (se_next_token s) (new_token s) = (r', s2)"
    by (cases "send_udp_data cx i [] (se_next_token s) (new_token s)")
  then have "se_next_token s2 = se_next_token (new_token s)" using sends_next [OF sends_frames(5)] by (metis snd_conv)
  then show "se_next_token (snd (io_then (accept_open_udp_target cx en i permit) (\<lambda>fl. modify (set_slot i (UdpFlow fl))) s)) = se_next_token s + 1"
    by (cases r') (simp_all add: io_then_def accept_state d' modify_def set_slot_def spawn_task_def nt)
qed

lemma completed_next:
  "se_next_token (snd (handle_tcp_open_completed cx i token result s)) \<in> {se_next_token s, se_next_token s + 1}"
  "se_next_token (snd (handle_udp_open_completed cx en i token result s)) \<in> {se_next_token s, se_next_token s + 1}"
proof -
  have "se_next_token (snd (io_then (reject_open_failure cx i e) (\<lambda>_. modify (remove_flow_slot i)) s)) \<in> {se_next_token s, se_next_token s + 1}"
    "se_next_token (snd (io_then (reject_udp_open_failure cx i e) (\<lambda>_. modify (remove_flow_slot i)) s)) \<in> {se_next_token s, se_next_token s + 1}" for e
    by (rule sends_then_next [OF sends_rejections(3)] sends_then_next [OF sends_rejections(4)]; simp add: modify_def)+
  then show "se_next_token (snd (handle_tcp_open_completed cx i token result s)) \<in> {se_next_token s, se_next_token s + 1}"
    "se_next_token (snd (handle_udp_open_completed cx en i token result s)) \<in> {se_next_token s, se_next_token s + 1}"
    by (auto simp: handle_tcp_open_completed_def handle_udp_open_completed_def accept_next
        split: option.splits flow_slot.splits sum.splits)
qed

lemma event_next: "se_next_token (snd (handle_session_event cx en ev s)) \<in> {se_next_token s, se_next_token s + 1}"
proof -
  have step_of: "snd (step_of r b) = snd r" for r b by (cases r) (auto simp: step_of_def split: sum.splits)
  have "se_next_token (snd (handle_flow_event cx en fe s)) \<in> {se_next_token s, se_next_token s + 1}" for fe
  proof (cases "is_open_event fe")
    case True
    then show ?thesis using completed_next(1) [of cx] completed_next(2) [of cx en] by (auto simp: is_open_event_def split: option.splits flow_event.splits)
  qed (simp add: quiet_steps [OF other_event_steps])
  moreover have "se_next_token (snd (handle_session_frame cx en f s)) \<in> {se_next_token s, se_next_token s + 1}" for f
  proof (cases "is_open_frame f")
    case True
    then show ?thesis
      using open_frame_next [of cx en f s] by (auto simp: handle_session_frame_def dispatch_session_frame_def is_open_frame_def Let_def reject_next)
  next
    case False
    then show ?thesis
      using quiet_steps [OF other_frame_steps [OF False]] by (auto simp: handle_session_frame_def Let_def is_open_frame_def)
  qed
  ultimately show ?thesis
    using quiet_steps [OF idle_udp_steps] quiet_steps [OF report_steps]
    by (cases ev) (auto simp: step_of Let_def transition_def)
qed

section \<open>Closing\<close>

lemma close_slot_flows: "close_slot cx slot (s\<lparr>se_flows := m\<rparr>) = (close_slot cx slot s)\<lparr>se_flows := m\<rparr>"
  by (cases slot) (auto simp: close_slot_def close_client_to_target_def close_client_to_target_queue_def try_send_command_def
      cancel_half_close_timer_def session_ops split: option.splits)

lemma close_slot_steps:
  assumes "hm_get (se_flows s) i = Some slot"
  shows "small_steps cx G s (close_slot cx slot s) \<and> se_flows (close_slot cx slot s) = se_flows s"
proof (cases slot)
  case (TcpFlow f)
  obtain f1 s1 where c: "close_client_to_target cx (mark_target_to_client_closed f, s) = (f1, s1)"
    by (cases "close_client_to_target cx (mark_target_to_client_closed f, s)")
  obtain f2 s2 where t: "cancel_half_close_timer (f1, s1) = (f2, s2)" by (cases "cancel_half_close_timer (f1, s1)")
  have "flow_moves cx G i (f, s) (f1, s1)"
    unfolding c [symmetric] by (rule moves_trans [OF moves_marks(1) moves_close])
  then have "flow_moves cx G i (f, s) (f2, s2)"
    unfolding t [symmetric] by (rule moves_trans [OF _ moves_cancel_timer])
  moreover have "same_flow s f f" by (simp add: same_flow_def)
  ultimately have "small_steps cx G s s2" "se_flows s2 = se_flows s" using assms by (auto simp: flow_moves_def TcpFlow)
  then show ?thesis
    by (auto simp: TcpFlow close_slot_def c t intro: ss_then [OF ss_then] ss_then small_step.intros)
next
  case (UdpFlow f)
  then show ?thesis
    by (auto simp: close_slot_def intro: ss_then [OF ss_one] small_step.intros)
qed (auto simp: close_slot_def intro: ss_one small_step.intros)

lemma close_flows_steps:
  assumes "hm_wf (se_flows s)"
  shows "small_steps cx G s (close_target_flows cx s)" "se_flows (close_target_flows cx s) = []"
proof -
  have steps: "small_steps cx G s' (fold (close_slot cx) slots s') \<and> se_flows (fold (close_slot cx) slots s') = se_flows s'"
    if "\<And>slot. slot \<in> set slots \<Longrightarrow> \<exists>i. hm_get (se_flows s') i = Some slot" for slots s'
    using that
  proof (induction slots arbitrary: s')
    case (Cons slot slots)
    then obtain i where "hm_get (se_flows s') i = Some slot" by auto
    from close_slot_steps [OF this] have 1: "small_steps cx G s' (close_slot cx slot s')" "se_flows (close_slot cx slot s') = se_flows s'"
      by auto
    with Cons.prems have "\<And>x. x \<in> set slots \<Longrightarrow> \<exists>i. hm_get (se_flows (close_slot cx slot s')) i = Some x" by simp
    from Cons.IH [OF this] 1 show ?case by (auto intro: ss_trans)
  qed simp
  have comm: "fold (close_slot cx) slots (s'\<lparr>se_flows := []\<rparr>) = (fold (close_slot cx) slots s')\<lparr>se_flows := []\<rparr>" for slots s'
    by (induction slots arbitrary: s') (simp_all add: close_slot_flows)
  have "\<exists>i. hm_get (se_flows s) i = Some slot" if "slot \<in> set (map snd (se_flows s))" for slot
    using that hm_mem_get [OF assms] by auto
  then have "small_steps cx G s (fold (close_slot cx) (map snd (se_flows s)) s)"
    using steps [of "map snd (se_flows s)" s] by blast
  then show "small_steps cx G s (close_target_flows cx s)"
    unfolding close_target_flows_def comm by (rule ss_then) (rule small_step.slots_cleared)
  show "se_flows (close_target_flows cx s) = []"
    unfolding close_target_flows_def comm by simp
qed

text \<open>What only the loop changes.\<close>

definition loop_state :: "session \<Rightarrow> (u64, flow_slot) hash_map \<times> server_session_state \<times> u64 \<times> bool \<times> bool \<times> u64 set" where
  "loop_state s = (se_flows s, se_state s, se_next_token s, se_settings_received s, se_assert_failed s, se_cancelled s)"

named_theorems loop_simps

lemma sends_loop: "sends cx (\<lambda>_. True, True, True) m \<Longrightarrow> loop_state (snd (m s)) = loop_state s"
proof -
  assume "sends cx (\<lambda>_. True, True, True) m"
  then have "carrier_only s (snd (m s))" by (simp add: sends_def)
  then obtain w out sd where "snd (m s) = s\<lparr>se_writes := w, se_out := out, se_shutdown := sd\<rparr>"
    unfolding carrier_only_def by blast
  then show ?thesis by (simp add: loop_state_def)
qed

lemma loop_ops [loop_simps]:
  "loop_state (set_task h st s) = loop_state s" "loop_state (push_event ev s) = loop_state s"
  "loop_state (update_control t g s) = loop_state s" "loop_state (control_abort t s) = loop_state s"
  "loop_state (control_close t s) = loop_state s" "loop_state (record_dials tg ps ts s) = loop_state s"
  "loop_state (drop_receiver cx t s) = loop_state s" "loop_state (drop_writer cx t s) = loop_state s"
  "loop_state (abort_task h s) = loop_state s" "loop_state (deliver_eof t s) = loop_state s"
  "loop_state (release_data cx t p s) = loop_state s" "loop_state (end_write cx t n p s) = loop_state s"
  "loop_state (begin_send h ev s) = loop_state s" "loop_state (try_record_flow_activity cx ev s) = loop_state s"
  by (simp_all add: loop_state_def session_ops begin_send_def try_record_flow_activity_def)

lemmas loop_sends [loop_simps] = sends_loop [OF sends_frames(2)] sends_loop [OF sends_frames(3)] sends_loop [OF sends_frames(4)]
  sends_loop [OF sends_status(1)]

lemma loop_report [loop_simps]:
  "loop_state (report_target_failure cx i t (send_tcp_close cx i k) s) = loop_state s"
  "loop_state (report_target_failure cx i t (send_udp_close cx i k) s) = loop_state s"
  by (simp_all add: report_target_failure_def Let_def loop_simps)

lemma loop_ends [loop_simps]:
  "loop_state (end_target_writer cx h i t failed s) = loop_state s" "loop_state (end_target_reader cx h i t failed s) = loop_state s"
  "loop_state (end_udp_reader cx h i t failed s) = loop_state s" "loop_state (shutdown_target cx h i t ok s) = loop_state s"
  "loop_state (finish_target_writer cx h i t ok s) = loop_state s"
  by (simp_all add: end_target_writer_def end_target_reader_def end_udp_reader_def shutdown_target_def finish_target_writer_def
      Let_def loop_simps)

lemma loop_writer [loop_simps]:
  "loop_state (begin_target_command cx h i t d ok cmd s) = loop_state s"
  "loop_state (relay_client_to_target cx h i t ok s) = loop_state s"
  "loop_state (write_target_command cx h i t outcome s) = loop_state s"
proof -
  show 1: "loop_state (begin_target_command cx h i t d ok cmd s) = loop_state s" for d ok cmd s
    by (cases cmd) (simp_all add: loop_simps)
  show "loop_state (relay_client_to_target cx h i t ok s) = loop_state s"
    by (simp add: relay_client_to_target_def Let_def 1 loop_simps split: task_state.splits list.splits)
  show "loop_state (write_target_command cx h i t outcome s) = loop_state s"
    by (simp add: write_target_command_def loop_simps split: task_state.splits option.splits target_write.splits)
qed

lemma loop_readers [loop_simps]:
  "loop_state (relay_target_to_client cx h i t outcome s) = loop_state s"
  "loop_state (relay_udp_target_to_client cx h i t channel outcome s) = loop_state s"
proof -
  have 1: "m s = (r, s') \<Longrightarrow> sends cx (\<lambda>_. True, True, True) m \<Longrightarrow> loop_state s' = loop_state s" for m r s'
    using sends_loop by (metis snd_conv)
  note tcp = 1 [OF _ sends_frames(2)] 1 [OF _ sends_frames(4)]
  show "loop_state (relay_target_to_client cx h i t outcome s) = loop_state s"
    by (auto simp: relay_target_to_client_def Let_def loop_simps tcp split: target_read.splits prod.splits sum.splits)
  have "loop_state s' = loop_state s" if e: "emit_udp_to_client cx channel i t p s = (r, s')" for p r s'
  proof -
    obtain a s1 where d: "try_send_udp_datagram channel i p s = (a, s1)" by (cases "try_send_udp_datagram channel i p s")
    then have d1: "loop_state s1 = loop_state s"
      by (auto simp: try_send_udp_datagram_def loop_state_def split: option.splits sum.splits if_splits datagram_send_outcome.splits)
    let ?m = "if udp_payload_exceeds_frame_limit (length p) (lm_data_frame_size (cx_limits cx)) then io_ok EmitDroppedTooLarge
      else io_then (send_udp_data cx i p t) (\<lambda>_. io_ok EmitSent)"
    have "loop_state (snd (?m s2)) = loop_state s2" for s2 by (rule sends_loop [of cx]) (auto intro: sends_intros)
    with e d1 show ?thesis
      by (cases "cx_datagrams cx"; cases a) (auto simp: emit_udp_to_client_def Let_def d, (metis snd_conv)+)
  qed
  then show "loop_state (relay_udp_target_to_client cx h i t channel outcome s) = loop_state s"
    by (auto simp: relay_udp_target_to_client_def Let_def loop_simps split: target_read.splits prod.splits sum.splits udp_emit.splits)
qed

lemma loop_task_step [loop_simps]: "loop_state (task_step cx hs s) = loop_state s"
  by (auto simp: task_step_def send_flow_event_or_shutdown_def target_open_step_def udp_open_step_def open_task_step_def
      datagram_reader_def half_close_timer_def Let_def loop_simps
      split: prod.splits session_task.splits task_step.splits task_state.splits option.splits sum.splits)

lemma loop_task_steps [loop_simps]: "loop_state (task_steps cx steps s) = loop_state s"
  unfolding task_steps_def by (induction steps arbitrary: s) (simp_all add: loop_simps)

lemma loop_drop_task [loop_simps]: "loop_state (drop_task cx ht s) = loop_state s"
  by (simp add: drop_task_def loop_simps split: prod.split session_task.split task_state.split)

lemma loop_abort_all [loop_simps]: "loop_state (abort_all cx s) = loop_state s"
proof -
  have "loop_state (fold (drop_task cx) hts s) = loop_state s" for hts s
    by (induction hts arbitrary: s) (auto simp: loop_simps)
  then show ?thesis by (simp add: abort_all_def)
qed

lemma loop_drain [loop_simps]: "loop_state (snd (drain_session_tasks cx steps s)) = loop_state s"
  by (simp add: drain_session_tasks_def Let_def loop_simps)


section \<open>Runs\<close>

definition loop_alive :: "session \<Rightarrow> bool" where
  "loop_alive s \<longleftrightarrow> se_state s \<in> {Relaying, Draining} \<and> \<not> se_assert_failed s"

lemma close_slot_keeps: "se_state (close_slot cx slot s) = se_state s \<and> se_assert_failed (close_slot cx slot s) = se_assert_failed s"
  by (cases slot) (auto simp: close_slot_def close_client_to_target_def close_client_to_target_queue_def try_send_command_def
      cancel_half_close_timer_def session_ops split: option.splits)

lemma close_flows_keeps:
  "se_state (close_target_flows cx s) = se_state s \<and> se_assert_failed (close_target_flows cx s) = se_assert_failed s"
proof -
  have "se_state (fold (close_slot cx) slots s) = se_state s \<and> se_assert_failed (fold (close_slot cx) slots s) = se_assert_failed s" for slots s
    by (induction slots arbitrary: s) (simp_all add: close_slot_keeps)
  then show ?thesis by (simp add: close_target_flows_def)
qed

lemma shutdown_step: "small_step cx G s s' \<Longrightarrow> se_shutdown s \<Longrightarrow> se_shutdown s'"
  by (erule small_step.cases) (simp_all add: session_ops)

lemma shutdown_steps: "small_steps cx G s s' \<Longrightarrow> se_shutdown s \<Longrightarrow> se_shutdown s'"
  unfolding small_steps_def by (induction rule: rtranclp_induct) (auto intro: shutdown_step)

lemma close_session_steps:
  assumes "session_wf s" "loop_alive s" "snd (snd G)" "close_session cx steps s = (through, s')"
  shows "small_steps cx G s s'" "se_flows s' = []" "\<not> se_assert_failed s'" "se_state s' = (if through then Closed else Closing)"
    "se_shutdown s'" "through \<Longrightarrow> all_tasks_ended s'"
proof -
  let ?c = "transition Closing s"
  let ?s = "close_target_flows cx (shutdown_close ?c)"
  let ?t = "task_steps cx steps ?s"
  obtain b d where d: "drain_session_tasks cx steps ?s = (b, d)" by (cases "drain_session_tasks cx steps ?s")
  have "small_step cx G s ?c"
    using assms(2,3) by (intro small_step.state_changed) (auto simp: loop_alive_def)
  then have 1: "small_steps cx G s (shutdown_close ?c)" by (rule ss_then [OF ss_one]) (rule small_step.shut_down)
  have flows: "hm_wf (se_flows (shutdown_close ?c))"
    using session_wf_steps [OF 1 assms(1)] by (simp add: session_wf_def)
  note 2 = ss_trans [OF 1 close_flows_steps(1) [OF flows]]
  note wf2 = session_wf_steps [OF 2 assms(1)]
  have t: "small_steps cx G ?s ?t" by (rule task_steps_steps [OF wf2])
  have "small_steps cx G ?t (abort_all cx ?t)" by (rule abort_all_steps)
  with t have "small_steps cx G ?s (snd (drain_session_tasks cx steps ?s))"
    by (auto simp: drain_session_tasks_def Let_def intro: ss_trans)
  then have steps: "small_steps cx G ?s d" by (simp add: d)
  note 3 = ss_trans [OF 2 steps]
  have loop: "loop_state d = loop_state ?s" using loop_drain [of cx steps ?s] by (simp add: d)
  have closing: "se_state ?s = Closing" "\<not> se_assert_failed ?s"
    using assms(2) by (auto simp: close_flows_keeps shutdown_close_def transition_def loop_alive_def)
  have d': "se_flows d = []" "se_state d = Closing" "\<not> se_assert_failed d"
    using loop closing close_flows_steps(2) [OF flows] by (simp_all add: loop_state_def)
  have "small_step cx G d (transition Closed d)"
    using d' assms(3) by (intro small_step.state_changed) simp_all
  then have 4: "small_steps cx G s (transition Closed d)" by (rule ss_then [OF 3])
  have "d\<lparr>se_flows := []\<rparr> = d" using d'(1) by (cases d) simp
  then have s': "s' = (if through then transition Closed d else d)"
    using assms(4) by (auto simp: close_session_def d split: bool.splits)
  show "small_steps cx G s s'" using 3 4 by (simp add: s')
  have "small_steps cx G (shutdown_close ?c) d"
    using close_flows_steps(1) [OF flows] steps by (rule ss_trans)
  then have "se_shutdown d" by (rule shutdown_steps) (simp add: shutdown_close_def)
  then show "se_shutdown s'" by (simp add: s' transition_def)
  have "b = through" using assms(4) by (auto simp: close_session_def d split: bool.splits)
  moreover have "b \<longleftrightarrow> all_tasks_ended d" using drain_ended [of cx steps ?s] by (simp add: d)
  moreover have "all_tasks_ended (transition Closed d) = all_tasks_ended d"
    by (simp add: transition_def all_tasks_ended_def task_ended_def list_all_iff)
  ultimately show "all_tasks_ended s'" if through using that by (simp add: s')
  show "se_flows s' = []" "\<not> se_assert_failed s'" "se_state s' = (if through then Closed else Closing)"
    using d' by (simp_all add: s' transition_def)
qed


fun run_consistent :: "session_run \<Rightarrow> bool" where
  "run_consistent (Waiting s) \<longleftrightarrow> loop_alive s"
| "run_consistent (Refused s) \<longleftrightarrow> loop_alive s"
| "run_consistent (Joining s) \<longleftrightarrow> se_flows s = [] \<and> \<not> se_assert_failed s \<and> se_state s = Closing"
| "run_consistent (Ended _ s) \<longleftrightarrow> se_flows s = [] \<and> \<not> se_assert_failed s \<and> se_state s = Closed \<and>
     se_shutdown s \<and> all_tasks_ended s"

lemma alive_step: "small_step cx (g, b, False) s s' \<Longrightarrow> loop_alive s \<Longrightarrow> loop_alive s'"
  by (erule small_step.cases) (auto simp: loop_alive_def session_ops)

lemma alive_steps: "small_steps cx (g, b, False) s s' \<Longrightarrow> loop_alive s \<Longrightarrow> loop_alive s'"
  unfolding small_steps_def by (induction rule: rtranclp_induct) (auto intro: alive_step)

lemma next_nonzero: "unat (t :: u64) + 1 < 2 ^ 64 \<Longrightarrow> t + 1 \<noteq> 0"
proof -
  assume "unat t + 1 < 2 ^ 64"
  then have "unat (t + 1) = unat t + 1" by (simp add: unat_word_ariths)
  then show ?thesis by (metis Suc_eq_plus1 nat.discI unat_0)
qed

lemma end_session_steps:
  assumes "session_wf s" "loop_alive s"
  shows "small_steps cx (g, True, True) s (run_session (end_session cx closing result s)) \<and>
    run_consistent (end_session cx closing result s)"
proof -
  obtain b s' where c: "close_session cx closing s = (b, s')" by (cases "close_session cx closing s")
  from close_session_steps [OF assms _ c, of "(g, True, True)"] show ?thesis by (cases b) (simp_all add: end_session_def c)
qed

text \<open>One turn up to the decision whether to go on.\<close>

lemma turn_steps:
  assumes "session_wf s" "loop_alive s" "unat (se_next_token s) + 1 < 2 ^ 64" "policy_granted cx (g, True, c) en"
    "handle_session_event cx en ev (receive_event ev (task_steps cx steps s)) = (r, s')"
  shows "small_steps cx (g, True, c) s s' \<and> loop_alive s' \<and> unat (se_next_token s') \<le> unat (se_next_token s) + 1"
proof -
  let ?t = "task_steps cx steps s"
  let ?e = "receive_event ev ?t"
  have "se_next_token ?t = se_next_token s" using loop_task_steps [of cx steps s] by (simp add: loop_state_def)
  then have nxt: "se_next_token ?e = se_next_token s" by (simp add: receive_event_def split: session_event.splits)
  have steps: "small_steps cx G s s'" if "policy_granted cx G en" "fst (snd G)" for G
  proof -
    have "small_steps cx G s ?t" by (rule task_steps_steps [OF assms(1)])
    moreover have "small_steps cx G ?t ?e"
      by (auto simp: receive_event_def split: session_event.splits intro: ss_one small_step.event_received)
    moreover have "small_steps cx G ?e s'"
      using session_event_steps [of G ?e cx en ev] that next_nonzero [OF assms(3)] by (simp add: nxt assms(5))
    ultimately show ?thesis by (blast intro: ss_trans)
  qed
  have g: "policy_granted cx (g, True, False) en" using assms(4) by (simp add: policy_granted_def)
  have "se_next_token s' \<in> {se_next_token s, se_next_token s + 1}"
    using event_next [of cx en ev ?e] by (simp add: nxt assms(5))
  then have "unat (se_next_token s') \<le> unat (se_next_token s) + 1"
    using unat_next [OF next_nonzero [OF assms(3)]] by auto
  with steps [OF assms(4)] alive_steps [OF steps [OF g]] assms(2) show ?thesis by simp
qed

lemma session_loop_steps:
  assumes "session_wf s" "loop_alive s" "unat (se_next_token s) + length turns < 2 ^ 64"
    "\<And>steps en ev. (steps, en, ev) \<in> set turns \<Longrightarrow> policy_granted cx (g, True, True) en"
  shows "small_steps cx (g, True, True) s (run_session (session_loop cx idle closing turns lt s)) \<and>
    run_consistent (session_loop cx idle closing turns lt s)"
  using assms
proof (induction turns arbitrary: lt s)
  case (Cons turn turns)
  obtain steps en ev where turn: "turn = (steps, en, ev)" by (cases turn)
  let ?t = "task_steps cx steps s"
  obtain r s' where h: "handle_session_event cx en ev (receive_event ev ?t) = (r, s')"
    by (cases "handle_session_event cx en ev (receive_event ev ?t)")
  have "unat (se_next_token s) + 1 < 2 ^ 64" using Cons.prems(3) by simp
  moreover have "policy_granted cx (g, True, True) en" using Cons.prems(4) by (auto simp: turn)
  ultimately have t: "small_steps cx (g, True, True) s s'" "loop_alive s'" "unat (se_next_token s') \<le> unat (se_next_token s) + 1"
    using turn_steps [OF Cons.prems(1,2) _ _ h] by auto
  note wf = session_wf_steps [OF t(1) Cons.prems(1)]
  have waiting: "small_steps cx (g, True, True) s ?t" "loop_alive ?t"
    using task_steps_steps [OF Cons.prems(1)] loop_task_steps [of cx steps s] Cons.prems(2)
    by (simp_all add: loop_alive_def loop_state_def)
  have ends: "small_steps cx (g, True, True) s (run_session (end_session cx closing result s')) \<and>
      run_consistent (end_session cx closing result s')" for result
    using end_session_steps [OF wf t(2)] ss_trans [OF t(1)] by blast
  have "small_steps cx (g, True, True) s (run_session (session_loop cx idle closing turns lt s')) \<and>
      run_consistent (session_loop cx idle closing turns lt s')" for lt
    using Cons.IH [OF wf t(2)] Cons.prems(3,4) t(3) ss_trans [OF t(1)] by fastforce
  with waiting ends show ?case
    by (simp add: turn h Let_def split: session_step.splits)
qed simp

definition run_policies :: "relay_context \<Rightarrow> 'tls turn list \<Rightarrow> policy_set \<Rightarrow> bool" where
  "run_policies cx turns ps \<longleftrightarrow> (\<exists>steps en ev pn. (steps, en, ev) \<in> set turns \<and>
     take_policy_snapshot (en_security en) (cx_identity cx) (en_unix_now en) = Some pn \<and> pn_policy_set pn = ps)"

definition session_start :: "relay_context \<Rightarrow> budgets \<Rightarrow> write_outcome list \<Rightarrow> session" where
  "session_start cx bg writes = maybe_spawn_datagram_reader cx (transition Relaying (session_new bg writes))"

lemma session_start_wf: "session_wf (session_start cx bg writes)" "loop_alive (session_start cx bg writes)"
  "unat (se_next_token (session_start cx bg writes)) = 1"
  by (auto simp: session_start_def maybe_spawn_datagram_reader_def session_new_def transition_def spawn_task_def session_wf_def
      timers_ok_def tasks_fresh_def writers_unique_def writers_consistent_def writers_open_def writers_ended_def is_live_writer_def is_writer_def loop_alive_def)

lemma relay_session_steps:
  assumes "length turns + 1 < 2 ^ 64"
  shows "small_steps cx (run_policies cx turns, True, True) (session_start cx bg writes)
      (run_session (relay_session cx now idle bg writes closing turns)) \<and>
    run_consistent (relay_session cx now idle bg writes closing turns)"
proof -
  have "policy_granted cx (run_policies cx turns, True, True) en" if "(steps, en, ev) \<in> set turns" for steps en ev
    using that by (auto simp: policy_granted_def run_policies_def)
  from session_loop_steps [OF session_start_wf(1,2) _ this] show ?thesis
    using assms by (simp add: relay_session_def session_start_def [symmetric] session_start_wf(3))
qed

section \<open>Invariants of runs\<close>

locale session_invariant =
  fixes cx :: relay_context and perm :: permissions and inv :: "session \<Rightarrow> bool"
  assumes inv_step: "small_step cx perm s s' \<Longrightarrow> session_wf s \<Longrightarrow> inv s \<Longrightarrow> inv s'"
begin

lemma inv_steps: "small_steps cx perm s s' \<Longrightarrow> session_wf s \<Longrightarrow> inv s \<Longrightarrow> inv s'"
proof -
  assume s: "session_wf s" "inv s" and "small_steps cx perm s s'"
  from this(3) have "session_wf s' \<and> inv s'"
    unfolding small_steps_def by (induction rule: rtranclp_induct) (use s in \<open>auto intro: inv_step session_wf_step\<close>)
  then show "inv s'" ..
qed

lemma inv_run:
  assumes "inv (session_start cx bg writes)" "length turns + 1 < 2 ^ 64" "perm = (run_policies cx turns, True, True)"
  shows "inv (run_session (relay_session cx now idle bg writes closing turns))"
  using inv_steps [OF _ session_start_wf(1) assms(1)] relay_session_steps [OF assms(2)] assms(3) by blast

end

end
