(* ===== verification/Relay_Samples.thy ===== *)
theory Relay_Samples
  imports Relay_Session "HOL-Library.Code_Target_Nat"
begin

text \<open>
  A concrete session, run through the executable model: a client opens a TCP flow, the server dials the
  target, a datum is written to it, the server drains and the drain deadline ends the session.
\<close>

definition sample_limits :: relay_limits where
  "sample_limits = \<lparr>lm_frame = default_frame_limits, lm_max_streams = 2, lm_max_udp_flows = 1, lm_max_outbound_dials = 4,
     lm_data_frame_size = 512, lm_session_bytes = 4096, lm_flow_bytes = 1024, lm_connect_timeout = None,
     lm_half_close_timeout = Some 5, lm_write_timeout = None, lm_udp_idle_timeout = None, lm_task_shutdown_timeout = Some 10\<rparr>"

definition sample_context :: relay_context where
  "sample_context = \<lparr>cx_session = 0, cx_identity = sample_identity, cx_limits = sample_limits, cx_global_bytes = 8192,
     cx_datagrams = False, cx_latest = 1000\<rparr>"

definition sample_env :: "instant \<Rightarrow> unit session_env" where
  "sample_env now = \<lparr>en_security = apply_reload (security_state_new () [] [] \<lparr>ps_rules = []\<rparr> 0) sample_reload, en_unix_now = 5,
     en_now = now, en_shutdown_requested = False, en_flow_permit = True, en_udp_send = UdpSent, en_order = id\<rparr>"

definition sample_dial_world :: "unit dial_world" where
  "sample_dial_world = \<lparr>dw_lookup = \<lambda>_ _. Inr [sample_addr], dw_lookup_elapsed = False, dw_connector = \<lambda>_ _. Connected (),
     dw_rounds = [\<lparr>dr_now = 0, dr_available = 1, dr_elapsed = False, dr_position = 0\<rparr>]\<rparr>"

definition sample_frame_of :: "frame_type \<Rightarrow> u64 \<Rightarrow> byte list \<Rightarrow> frame" where
  "sample_frame_of ft i p = \<lparr>fr_header = \<lparr>fh_version = VERSION, fh_frame_type = ft, fh_flags = 0, fh_id = i,
     fh_length = of_nat (length p)\<rparr>, fr_payload = p\<rparr>"

definition sample_open :: "byte list" where
  "sample_open = (case tcp_open_encode \<lparr>to_target = Domain [0x61] 81, to_open_flags = 0\<rparr> of Inr p \<Rightarrow> p | Inl _ \<Rightarrow> [])"

definition sample_turns :: "unit turn list" where
  "sample_turns =
     [([], sample_env 1, FrameEvent (sample_frame_of FT_TcpOpen 1 sample_open)),
      ([(0, OpenStep sample_dial_world 1 False), (0, SendTurn False)], sample_env 2,
         FlowEvent (Some (OpenCompleted 1 1 (Domain [0x61] 81) (Inr ())))),
      ([], sample_env 3, FrameEvent (sample_frame_of FT_TcpData 1 [7, 8, 9])),
      ([(2, WriterTurn True), (2, WriterWrite TargetWritten)], sample_env 4, FlowEvent (Some Activity)),
      ([], sample_env 6, ShutdownEvent),
      ([], sample_env 20, DrainTimeout)]"

definition sample_run :: session_run where
  "sample_run = relay_session sample_context 0 None no_budgets [] [] sample_turns"

definition run_ended :: "session_run \<Rightarrow> bool" where
  "run_ended r = (case r of Ended _ _ \<Rightarrow> True | _ \<Rightarrow> False)"

definition run_refused :: "session_run \<Rightarrow> bool" where
  "run_refused r = (case r of Refused _ \<Rightarrow> True | _ \<Rightarrow> False)"

definition run_view :: "session_run \<Rightarrow> bool \<times> byte list \<times> byte list \<times> target list \<times> frame list" where
  "run_view r = (let s = run_session r in (run_ended r, se_enqueued s 2, se_delivered s 2, map fst (se_dialed s), se_out s))"

lemma sample_run_view:
  "run_view sample_run = (True, [7, 8, 9], [7, 8, 9], [Domain [0x61] 81], [sample_frame_of FT_TcpData 1 []])"
  by code_simp

lemma sample_turns_length: "length sample_turns + 1 < 2 ^ 64"
  by (simp add: sample_turns_def)

text \<open>The same client while its flow is still being opened when the server shuts down.\<close>

lemma sample_drain:
  "\<not> run_refused (relay_session sample_context 0 None no_budgets [] []
     [([], sample_env 1, FrameEvent (sample_frame_of FT_TcpOpen 1 sample_open)), ([], sample_env 6, ShutdownEvent)])"
  by code_simp

end
