(* ===== verification/Relay_Table.thy ===== *)
theory Relay_Table
  imports Relay_Runs Relay_Samples
begin

text \<open>
  The flow table of a session over whole runs: which flows it can hold, how many, and that each holds a
  token and a permit of its own; the frames and datagrams a session sends; and how a session ends.
\<close>

section \<open>The flow table\<close>

fun slot_token :: "flow_slot \<Rightarrow> u64" where
  "slot_token (OpeningTcp c) = oc_token c"
| "slot_token (OpeningUdp c) = oc_token c"
| "slot_token (TcpFlow f) = tf_token f"
| "slot_token (UdpFlow f) = uf_token f"

fun slot_permit :: "flow_slot \<Rightarrow> u64 option" where
  "slot_permit (OpeningTcp c) = oc_permit c"
| "slot_permit (OpeningUdp c) = oc_permit c"
| "slot_permit (TcpFlow f) = tf_flow_permit f"
| "slot_permit (UdpFlow f) = uf_flow_permit f"

definition flows_counted :: "relay_context \<Rightarrow> session \<Rightarrow> bool" where
  "flows_counted cx s \<longleftrightarrow> (\<forall>i \<in> hm_keys (se_flows s). is_client_initiated_flow_id i) \<and>
     hm_len (se_flows s) \<le> unat (lm_max_streams (cx_limits cx)) \<and>
     udp_flow_count s \<le> unat (lm_max_udp_flows (cx_limits cx))"

definition flows_own :: "session \<Rightarrow> bool" where
  "flows_own s \<longleftrightarrow>
     (\<forall>i slot. hm_get (se_flows s) i = Some slot \<longrightarrow>
        slot_token slot < se_next_token s \<and> (\<exists>q. slot_permit slot = Some q \<and> q < se_next_token s)) \<and>
     (\<forall>i j a b. hm_get (se_flows s) i = Some a \<longrightarrow> hm_get (se_flows s) j = Some b \<longrightarrow> i \<noteq> j \<longrightarrow>
        slot_token a \<noteq> slot_token b \<and> slot_permit a \<noteq> slot_permit b)"

definition udp_keys :: "(u64, flow_slot) hash_map \<Rightarrow> u64 set" where
  "udp_keys m = {i. \<exists>slot. hm_get m i = Some slot \<and> is_udp_slot slot}"

lemma udp_flow_count_keys: "hm_wf (se_flows s) \<Longrightarrow> udp_flow_count s = card (udp_keys (se_flows s))"
proof -
  assume wf: "hm_wf (se_flows s)"
  let ?u = "filter (\<lambda>(_, slot). is_udp_slot slot) (se_flows s)"
  have "hm_wf ?u" using wf by simp
  then have "udp_flow_count s = card (hm_keys ?u)" by (simp add: udp_flow_count_def hm.len_keys [symmetric] hm_len_def)
  moreover have "hm_keys ?u = udp_keys (se_flows s)"
    using hm_mem_get [OF wf] by (force simp: hm_keys_def udp_keys_def)
  ultimately show ?thesis by simp
qed

lemma finite_udp_keys [simp]: "finite (udp_keys m)"
  by (rule finite_subset [OF _ hm.finite_keys [of m]]) (auto simp: udp_keys_def hm.keys_dom)

lemma udp_keys_ops [simp]:
  "udp_keys [] = {}"
  "udp_keys (hm_insert i slot m) = (if is_udp_slot slot then insert i (udp_keys m) else udp_keys m - {i})"
  "udp_keys (hm_remove i m) = udp_keys m - {i}"
  by (auto simp: udp_keys_def hm.get_insert hm.get_remove split: if_splits)

lemma udp_slots [simp]: "is_udp_slot (OpeningUdp c)" "is_udp_slot (UdpFlow f)" "\<not> is_udp_slot (OpeningTcp c)" "\<not> is_udp_slot (TcpFlow g)"
  by (simp_all add: is_udp_slot_def)

lemma same_slotD:
  "same_slot s a b \<Longrightarrow> slot_token b = slot_token a \<and> slot_permit b = slot_permit a \<and> is_udp_slot b = is_udp_slot a"
  by (cases "(s, a, b)" rule: same_slot.cases) (auto simp: same_flow_def)

lemma in_keys: "hm_get m i = Some slot \<Longrightarrow> i \<in> hm_keys m"
  by (auto simp: hm.keys_dom)

lemma udp_keysI: "hm_get m i = Some slot \<Longrightarrow> is_udp_slot slot \<Longrightarrow> i \<in> udp_keys m"
  by (auto simp: udp_keys_def)

lemma card_remove_le: "card (udp_keys m - {i}) \<le> card (udp_keys m)"
  by (rule card_mono) auto

lemma flows_counted_step:
  assumes step: "small_step cx G s s'" and wf: "session_wf s" and inv: "flows_counted cx s"
  shows "flows_counted cx s'"
proof -
  have m: "hm_wf (se_flows s)" "hm_wf (se_flows s')"
    using wf session_wf_step [OF step wf] by (simp_all add: session_wf_def)
  note defs = flows_counted_def udp_flow_count_keys [OF m(1)] udp_flow_count_keys [OF m(2)]
  have inv': "\<forall>i \<in> hm_keys (se_flows s). is_client_initiated_flow_id i" "hm_len (se_flows s) \<le> unat (lm_max_streams (cx_limits cx))"
    "card (udp_keys (se_flows s)) \<le> unat (lm_max_udp_flows (cx_limits cx))"
    using inv by (simp_all add: defs)
  have rm: "card (udp_keys (se_flows s) - {i}) \<le> unat (lm_max_udp_flows (cx_limits cx))" for i
    using card_remove_le inv'(3) by (rule order.trans)
  note len = hm.len_insert [OF m(1)] hm.keys_insert hm.keys_remove hm.get_None_iff
  from step have "(\<forall>i \<in> hm_keys (se_flows s'). is_client_initiated_flow_id i) \<and> hm_len (se_flows s') \<le> unat (lm_max_streams (cx_limits cx)) \<and>
    card (udp_keys (se_flows s')) \<le> unat (lm_max_udp_flows (cx_limits cx))"
  proof cases
    case (slot_changed i slot slot')
    with inv' show ?thesis
      using in_keys [OF slot_changed(2)] same_slotD [OF slot_changed(3)] udp_keysI [OF slot_changed(2)] rm
      by (auto simp: len set_slot_def insert_absorb)
  next
    case (slot_removed i)
    with inv' rm show ?thesis
      using hm.len_remove_le [OF m(1), of i] by (auto simp: len)
  next
    case (tcp_admitted i ps t)
    with inv' rm show ?thesis
      by (auto simp: len session_ops may_admit_def)
  next
    case (udp_admitted i ps t)
    then have "card (udp_keys (se_flows s)) < unat (lm_max_udp_flows (cx_limits cx))" by (simp add: udp_flow_count_keys [OF m(1)])
    with udp_admitted inv' show ?thesis
      by (auto simp: len session_ops may_admit_def card_insert_if)
  next
    case (tcp_established i c)
    with inv' rm show ?thesis using in_keys [OF tcp_established(2)]
      by (auto simp: len session_ops)
  next
    case (udp_established i c now)
    with inv' show ?thesis using in_keys [OF udp_established(2)] udp_keysI [OF udp_established(2)]
      by (auto simp: len session_ops insert_absorb)
  qed (use inv' in \<open>auto simp: session_ops\<close>)
  then show ?thesis by (simp add: defs)
qed

lemma flows_own_new:
  assumes "flows_own s" "se_next_token s' = se_next_token s + 1" "se_next_token s + 1 \<noteq> 0"
    "se_flows s' = hm_insert i slot (se_flows s)" "slot_token slot = se_next_token s"
    "slot_permit slot = Some (se_next_token s) \<or> (\<exists>old. hm_get (se_flows s) i = Some old \<and> slot_permit slot = slot_permit old)"
  shows "flows_own s'"
proof -
  have lt: "u < se_next_token s \<Longrightarrow> u < se_next_token s'" for u
    using assms(2,3) by (simp add: less_next order.strict_implies_order)
  have now: "se_next_token s < se_next_token s'" using assms(2,3) by (simp add: less_next)
  have own: "slot_token a < se_next_token s \<and> (\<exists>q. slot_permit a = Some q \<and> q < se_next_token s)"
    if "hm_get (se_flows s) j = Some a" for j a using assms(1) that unfolding flows_own_def by blast
  have other: "slot_token a \<noteq> slot_token b \<and> slot_permit a \<noteq> slot_permit b"
    if "hm_get (se_flows s) j = Some a" "hm_get (se_flows s) k = Some b" "j \<noteq> k" for j k a b
    using assms(1) that unfolding flows_own_def by blast
  have fresh: "slot_token a \<noteq> slot_token slot \<and> slot_permit a \<noteq> slot_permit slot"
    if "hm_get (se_flows s) j = Some a" "j \<noteq> i" for j a
    using own [OF that(1)] other [OF that(1)] that(2) assms(5,6) by fastforce
  have "\<exists>q. slot_permit slot = Some q \<and> q < se_next_token s'"
    using assms(6) now own lt by metis
  then show ?thesis
    using own other fresh lt now assms(5) unfolding flows_own_def assms(4) hm.get_insert
    by (auto dest: fresh not_sym) metis+
qed

lemma flows_own_step:
  assumes step: "small_step cx G s s'" and inv: "flows_own s"
  shows "flows_own s'"
  using step
proof cases
  case (slot_changed i slot slot')
  with inv same_slotD [OF slot_changed(3)] show ?thesis
    by (auto simp: flows_own_def set_slot_def hm.get_insert)
next
  case (slot_removed i)
  with inv show ?thesis by (auto simp: flows_own_def hm.get_remove)
next
  case (tcp_admitted i ps t)
  then show ?thesis by (intro flows_own_new [OF inv, of s' i "OpeningTcp \<lparr>oc_token = se_next_token s, oc_permit = Some (se_next_token s)\<rparr>"]) (auto simp: session_ops)
next
  case (udp_admitted i ps t)
  then show ?thesis by (intro flows_own_new [OF inv, of s' i "OpeningUdp \<lparr>oc_token = se_next_token s, oc_permit = Some (se_next_token s)\<rparr>"])
      (auto simp: session_ops)
next
  case (tcp_established i c)
  then show ?thesis
    by (intro flows_own_new [OF inv, of s' i "TcpFlow (target_flow_new (se_next_token s) (oc_permit c))"])
      (auto simp: session_ops target_flow_new_def)
next
  case (udp_established i c now)
  then show ?thesis
    by (intro flows_own_new [OF inv, of s' i "UdpFlow (udp_target_flow_new (se_next_token s) now (oc_permit c))"])
      (auto simp: session_ops udp_target_flow_new_def)
next
  case token_allocated
  with inv show ?thesis
    by (auto simp: flows_own_def session_ops less_next order.strict_implies_order) (metis order.strict_implies_order)
qed (use inv in \<open>simp_all add: flows_own_def session_ops\<close>)


definition flow_table_ok :: "relay_context \<Rightarrow> session \<Rightarrow> bool" where
  "flow_table_ok cx s \<longleftrightarrow> hm_wf (se_flows s) \<and> flows_counted cx s \<and> flows_own s"

interpretation table: session_invariant cx perm "flow_table_ok cx" for cx perm
proof
  fix s s'
  assume "small_step cx perm s s'" "session_wf s" "flow_table_ok cx s"
  then show "flow_table_ok cx s'"
    unfolding flow_table_ok_def using flows_wf_step flows_counted_step flows_own_step by blast
qed

lemma session_start_table: "se_flows (session_start cx bg writes) = []"
  by (simp add: session_start_def maybe_spawn_datagram_reader_def session_new_def transition_def spawn_task_def)

lemma flow_table_start: "flow_table_ok cx (session_start cx bg writes)"
  by (simp add: flow_table_ok_def flows_counted_def flows_own_def session_start_table udp_flow_count_def)

section \<open>What a session sends\<close>

definition sends_valid :: "session \<Rightarrow> bool" where
  "sends_valid s \<longleftrightarrow> list_all (\<lambda>f. \<exists>ft i p. frame_new ft 0 i p = Inr f) (se_out s) \<and>
     list_all (\<lambda>d. \<exists>i p. datagram_encode i p = Inr d) (se_datagrams s)"

interpretation sent: session_invariant cx perm sends_valid for cx perm
proof
  fix s s'
  assume "small_step cx perm s s'" "sends_valid s"
  then show "sends_valid s'"
    by (induction rule: small_step.induct) (auto simp: sends_valid_def session_ops)
qed

lemma varint_encodes: "encoded_len v = Inr n \<Longrightarrow> \<exists>bs. varint_encode v = Inr bs"
  by (simp add: varint_encode_def)

lemma frame_new_encodes: "frame_new ft flags i p = Inr f \<Longrightarrow> \<exists>bs. frame_encode f = Inr bs"
  by (auto simp: frame_new_def frame_header_new_def frame_encode_def frame_encode_into_def frame_header_encode_def result_simps
      dest!: varint_encodes)

lemma sent_parses:
  assumes "list_all (\<lambda>f. \<exists>ft i p. frame_new ft 0 i p = Inr f) fs" "list_all (\<lambda>f. fh_length (fr_header f) \<le> max_frame_size limits) fs"
  shows "\<exists>bytes. encode_frames [] fs = Inr bytes \<and> parse_stream limits \<lparr>ar_bytes = bytes, ar_end = EndEof\<rparr> = (fs, IoClosed)"
proof -
  from assms(1) have "\<exists>bss. list_all2 (\<lambda>f bs. frame_encode f = Inr bs) fs bss"
    by (induction fs) (auto simp: list_all2_Cons1 dest!: frame_new_encodes)
  then show ?thesis using parse_stream_encoded [OF _ assms(2)] by (auto simp: encode_frames_iff)
qed

section \<open>How a session ends\<close>

text \<open>A draining session has a deadline; when it has passed, the loop can only take the event that ends it.\<close>

definition drains_by :: "instant \<Rightarrow> loop_timers \<Rightarrow> session \<Rightarrow> bool" where
  "drains_by t lt s \<longleftrightarrow> se_state s = Draining \<and> lt_drain_deadline_set lt \<and> lt_drain_deadline lt = Some t"

lemma draining_step: "small_step cx (g, b, False) s s' \<Longrightarrow> se_state s = Draining \<Longrightarrow> se_state s' = Draining"
  by (erule small_step.cases) (auto simp: session_ops)

lemma draining_steps: "small_steps cx (g, b, False) s s' \<Longrightarrow> se_state s = Draining \<Longrightarrow> se_state s' = Draining"
  unfolding small_steps_def by (induction rule: rtranclp_induct) (auto intro: draining_step)

lemma ends_when_configured:
  assumes "lm_task_shutdown_timeout (cx_limits cx) \<noteq> None"
  shows "\<exists>s'. end_session cx closing result s = Ended result s'"
proof -
  obtain b s' where c: "close_session cx closing s = (b, s')" by (cases "close_session cx closing s")
  with assms have b by (auto simp: close_session_def drain_session_tasks_def Let_def split: if_splits)
  then show ?thesis by (simp add: end_session_def c)
qed

lemma drain_deadline_ends:
  assumes "lm_task_shutdown_timeout (cx_limits cx) \<noteq> None" "drains_by t lt s" "t \<le> en_now en"
  shows "\<exists>result s'. session_loop cx idle closing [(steps, en, DrainTimeout)] lt s = Ended result s'"
proof -
  have "se_state (task_steps cx steps s) = Draining"
    using assms(2) loop_task_steps [of cx steps s] by (simp add: drains_by_def loop_state_def)
  with assms show ?thesis
    by (auto simp: drains_by_def reached_def receive_event_def Let_def intro: ends_when_configured)
qed


definition timers_follow :: "loop_timers \<Rightarrow> session \<Rightarrow> bool" where
  "timers_follow lt s \<longleftrightarrow> (lt_drain_deadline_set lt \<longleftrightarrow> se_state s = Draining)"

definition loop_ok :: "relay_context \<Rightarrow> nat \<Rightarrow> loop_timers \<Rightarrow> session \<Rightarrow> bool" where
  "loop_ok cx n lt s \<longleftrightarrow> session_wf s \<and> loop_alive s \<and> unat (se_next_token s) + n < 2 ^ 64 \<and> timers_follow lt s"

text \<open>One turn of the loop: it goes on from a new state, or has stopped whatever turns follow.\<close>

lemma loop_turn:
  assumes "loop_ok cx (Suc n) lt s"
  shows "(\<exists>lt' s'. (\<forall>us. session_loop cx idle closing (turn # us) lt s = session_loop cx idle closing us lt' s') \<and>
      loop_ok cx n lt' s' \<and> (\<forall>t. drains_by t lt s \<longrightarrow> drains_by t lt' s')) \<or>
    (\<exists>r. (\<forall>s'. r \<noteq> Waiting s') \<and> (\<forall>us. session_loop cx idle closing (turn # us) lt s = r))"
proof -
  obtain steps en ev where turn: "turn = (steps, en, ev)" by (cases turn)
  let ?t = "task_steps cx steps s"
  obtain r s' where h: "handle_session_event cx en ev (receive_event ev ?t) = (r, s')"
    by (cases "handle_session_event cx en ev (receive_event ev ?t)")
  have g: "policy_granted cx (\<lambda>_. True, True, False) en" by (simp add: policy_granted_def)
  have ok: "session_wf s" "loop_alive s" "unat (se_next_token s) + 1 < 2 ^ 64" "timers_follow lt s"
    using assms by (auto simp: loop_ok_def)
  have t: "small_steps cx (\<lambda>_. True, True, False) s s'" "loop_alive s'" "unat (se_next_token s') \<le> unat (se_next_token s) + 1"
    using turn_steps [OF ok(1-3) g h] by auto
  have wf: "session_wf s'" by (rule session_wf_steps [OF t(1) ok(1)])
  have ends: "end_session cx closing result s1 \<noteq> Waiting s2" for result s1 s2
    by (simp add: end_session_def split: prod.split bool.split)
  have still: "se_state s = Draining \<Longrightarrow> se_state s' = Draining" by (rule draining_steps [OF t(1)])
  define lt' where "lt' = (\<lambda>active. let lt = (if active then lt\<lparr>lt_idle_deadline := deadline_after (cx_latest cx) (en_now en) idle\<rparr> else lt)
    in if se_state s' = Draining \<and> \<not> lt_drain_deadline_set lt
       then lt\<lparr>lt_drain_deadline_set := True,
               lt_drain_deadline := deadline_after (cx_latest cx) (en_now en) (lm_task_shutdown_timeout (cx_limits cx))\<rparr> else lt)"
  have l: "loop_ok cx n (lt' active) s' \<and> (\<forall>t. drains_by t lt s \<longrightarrow> drains_by t (lt' active) s')" for active
    using wf t ok still assms by (auto simp: lt'_def loop_ok_def timers_follow_def drains_by_def)
  have loop: "session_loop cx idle closing (turn # us) lt s = (if \<not> event_enabled cx en lt ?t ev then Refused ?t
      else case r of Stop result \<Rightarrow> end_session cx closing result s'
        | Continue active \<Rightarrow> if se_state s' = Draining \<and> se_flows s' = [] then end_session cx closing (Inr ()) s'
            else session_loop cx idle closing us (lt' active) s')" for us
    by (auto simp: turn h Let_def lt'_def split: session_step.split)
  show ?thesis
  proof (cases "\<exists>active. r = Continue active \<and> event_enabled cx en lt ?t ev \<and> \<not> (se_state s' = Draining \<and> se_flows s' = [])")
    case True
    then obtain active where "r = Continue active" "event_enabled cx en lt ?t ev" "\<not> (se_state s' = Draining \<and> se_flows s' = [])" by blast
    with l show ?thesis by (intro disjI1 exI [of _ "lt' active"] exI [of _ s']) (auto simp: loop)
  next
    case False
    let ?r = "session_loop cx idle closing [turn] lt s"
    have "\<forall>us. session_loop cx idle closing (turn # us) lt s = ?r" "\<forall>s'. ?r \<noteq> Waiting s'"
      using False ends unfolding loop by (auto split: session_step.split)
    then show ?thesis by blast
  qed
qed

lemma loop_prefix:
  assumes "loop_ok cx (length ts + n) lt s"
  shows "(\<exists>lt' s'. session_loop cx idle closing ts lt s = Waiting s' \<and>
      (\<forall>us. session_loop cx idle closing (ts @ us) lt s = session_loop cx idle closing us lt' s') \<and>
      loop_ok cx n lt' s' \<and> (\<forall>t. drains_by t lt s \<longrightarrow> drains_by t lt' s')) \<or>
    (\<forall>s'. session_loop cx idle closing ts lt s \<noteq> Waiting s') \<and>
    (\<forall>us. session_loop cx idle closing (ts @ us) lt s = session_loop cx idle closing ts lt s)"
  using assms
proof (induction ts arbitrary: lt s)
  case (Cons turn ts)
  then have "loop_ok cx (Suc (length ts + n)) lt s" by simp
  from loop_turn [OF this, of idle closing turn] show ?case
  proof (elim disjE exE conjE)
    fix lt' s'
    assume *: "\<forall>us. session_loop cx idle closing (turn # us) lt s = session_loop cx idle closing us lt' s'"
      "loop_ok cx (length ts + n) lt' s'" "\<forall>t. drains_by t lt s \<longrightarrow> drains_by t lt' s'"
    from Cons.IH [OF *(2)] show ?thesis by (simp add: *(1)) (use *(3) in blast)
  next
    fix r
    assume "\<forall>s'. r \<noteq> Waiting s'" "\<forall>us. session_loop cx idle closing (turn # us) lt s = r"
    then show ?thesis by simp
  qed
qed auto

lemma stops_ended:
  assumes "lm_task_shutdown_timeout (cx_limits cx) \<noteq> None"
  shows "(\<exists>s'. session_loop cx idle closing ts lt s = Waiting s') \<or> (\<exists>s'. session_loop cx idle closing ts lt s = Refused s') \<or>
    (\<exists>r s'. session_loop cx idle closing ts lt s = Ended r s')"
proof -
  have e: "\<exists>r s'. end_session cx closing result s = Ended r s'" for result s using ends_when_configured [OF assms] by blast
  show ?thesis
  proof (induction ts arbitrary: lt s)
    case (Cons turn ts)
    obtain steps en ev where "turn = (steps, en, ev)" by (cases turn)
    with Cons.IH show ?case by (auto simp: Let_def e split: session_step.split prod.split)
  qed simp
qed


lemma shutdown_turn:
  assumes "lm_task_shutdown_timeout (cx_limits cx) = Some d" "loop_ok cx (Suc n) lt s"
    "event_enabled cx en lt (task_steps cx steps s) ShutdownEvent" "en_now en + d \<le> cx_latest cx"
  shows "(\<exists>r s'. \<forall>us. session_loop cx idle closing ((steps, en, ShutdownEvent) # us) lt s = Ended r s') \<or>
    (\<exists>lt' s'. (\<forall>us. session_loop cx idle closing ((steps, en, ShutdownEvent) # us) lt s = session_loop cx idle closing us lt' s') \<and>
      loop_ok cx n lt' s' \<and> drains_by (en_now en + d) lt' s')"
proof -
  let ?t = "task_steps cx steps s"
  let ?s = "transition Draining ?t"
  let ?lt = "lt\<lparr>lt_drain_deadline_set := True, lt_drain_deadline := Some (en_now en + d)\<rparr>"
  have ok: "session_wf s" "loop_alive s" "unat (se_next_token s) + Suc n < 2 ^ 64" "timers_follow lt s"
    using assms(2) by (auto simp: loop_ok_def)
  have st: "se_state ?t = Relaying"
    using ok(2) assms(3) loop_task_steps [of cx steps s] by (auto simp: loop_alive_def loop_state_def)
  have nset: "\<not> lt_drain_deadline_set lt"
    using ok(4) st loop_task_steps [of cx steps s] by (simp add: timers_follow_def loop_state_def)
  have "small_steps cx (\<lambda>_. True, True, True) ?t ?s"
    using st by (intro ss_one small_step.state_changed) simp_all
  then have "session_wf ?s" by (rule session_wf_steps) (rule session_wf_steps [OF task_steps_steps [OF ok(1)] ok(1)])
  moreover have "loop_alive ?s" "se_next_token ?s = se_next_token s"
    using ok(2) st loop_task_steps [of cx steps s] by (auto simp: loop_alive_def loop_state_def transition_def)
  ultimately have ok': "loop_ok cx n ?lt ?s" using ok(3) by (simp add: loop_ok_def timers_follow_def transition_def)
  show ?thesis
  proof (cases "se_flows ?s = []")
    case True
    obtain s' where "end_session cx closing (Inr ()) ?s = Ended (Inr ()) s'"
      using ends_when_configured [of cx closing "Inr ()" ?s] assms(1) by auto
    with True st show ?thesis by (auto simp: receive_event_def Let_def)
  next
    case False
    with st nset assms(1,4) ok' show ?thesis
      by (intro disjI2 exI [of _ ?lt] exI [of _ ?s])
        (simp add: receive_event_def Let_def deadline_after_def drains_by_def transition_def)
  qed
qed

lemma deadline_after_shutdown:
  assumes "lm_task_shutdown_timeout (cx_limits cx) = Some d" "loop_ok cx (Suc (length turns)) lt s"
    "\<And>s'. session_loop cx idle closing ((steps, en, ShutdownEvent) # turns) lt s \<noteq> Refused s'"
    "en_now en + d \<le> cx_latest cx" "en_now en + d \<le> en_now en'"
  shows "\<exists>r s'. session_loop cx idle closing ((steps, en, ShutdownEvent) # turns @ [(steps', en', DrainTimeout)]) lt s = Ended r s'"
proof -
  let ?loop = "\<lambda>ts. session_loop cx idle closing ts"
  have on: "event_enabled cx en lt (task_steps cx steps s) ShutdownEvent"
    using assms(3) [of "task_steps cx steps s"] by (auto simp: Let_def split: if_splits)
  from shutdown_turn [OF assms(1,2) on assms(4), of idle closing] show ?thesis
  proof (elim disjE exE conjE)
    fix lt' s'
    assume go: "\<forall>us. ?loop ((steps, en, ShutdownEvent) # us) lt s = ?loop us lt' s'"
      and ok: "loop_ok cx (length turns) lt' s'" and dr: "drains_by (en_now en + d) lt' s'"
    have "loop_ok cx (length turns + 0) lt' s'" using ok by simp
    from loop_prefix [OF this, of idle closing] show ?thesis
    proof (elim disjE exE conjE)
      fix lt2 s2
      assume "\<forall>us. ?loop (turns @ us) lt' s' = ?loop us lt2 s2" "\<forall>t. drains_by t lt' s' \<longrightarrow> drains_by t lt2 s2"
      then show ?thesis using drain_deadline_ends [OF _ _ assms(5), of cx lt2 s2] assms(1) by (simp only: go) (simp add: dr)
    next
      assume "\<forall>s2. ?loop turns lt' s' \<noteq> Waiting s2" "\<forall>us. ?loop (turns @ us) lt' s' = ?loop turns lt' s'"
      then show ?thesis
        using stops_ended [of cx idle closing turns lt' s'] assms(1,3) by (simp only: go) auto
    qed
  qed blast
qed

section \<open>Properties\<close>

text \<open>C3: the flow table stays within its limits and its flows apart. Whatever frames the client sends,
  however targets, tasks and clocks behave, at every point of a session the table holds only flow ids a
  client may use, each once, at most \<open>max_streams\<close> of them and at most \<open>max_udp_flows\<close> UDP ones; every
  entry, opening or open, has a token that was handed out and a permit of the server-wide flow budget,
  and no two entries share either, so an event about one flow can never be taken for another's and the
  number of permits held is the number of flows.\<close>

theorem flow_table_within_limits:
  assumes "length turns + 1 < 2 ^ 64" "s = run_session (relay_session cx now idle bg writes closing turns)"
  shows "hm_wf (se_flows s) \<and> (\<forall>i \<in> hm_keys (se_flows s). is_client_initiated_flow_id i) \<and>
    hm_len (se_flows s) \<le> unat (lm_max_streams (cx_limits cx)) \<and>
    udp_flow_count s \<le> unat (lm_max_udp_flows (cx_limits cx)) \<and>
    (\<forall>i slot. hm_get (se_flows s) i = Some slot \<longrightarrow>
       slot_token slot < se_next_token s \<and> (\<exists>q. slot_permit slot = Some q \<and> q < se_next_token s)) \<and>
    (\<forall>i j a b. hm_get (se_flows s) i = Some a \<longrightarrow> hm_get (se_flows s) j = Some b \<longrightarrow> i \<noteq> j \<longrightarrow>
       slot_token a \<noteq> slot_token b \<and> slot_permit a \<noteq> slot_permit b)"
  using table.inv_run [OF flow_table_start assms(1) refl] unfolding assms(2) flow_table_ok_def flows_counted_def flows_own_def
  by blast

theorem flow_table_within_limits_witness:
  "hm_len (se_flows (run_session sample_run)) \<le> unat (lm_max_streams (cx_limits sample_context)) \<and>
   udp_flow_count (run_session sample_run) \<le> unat (lm_max_udp_flows (cx_limits sample_context))"
  using flow_table_within_limits [OF sample_turns_length refl, of sample_context 0 None no_budgets "[]" "[]"]
  by (simp add: sample_run_def)





end
