(* ===== verification/Relay_Data.thy ===== *)
theory Relay_Data
  imports Relay_Table "HOL-Library.Sublist"
begin

text \<open>
  The data path from the client to the targets over whole runs: what a target has received of the data
  accepted for it, how much a session buffers, and which addresses are dialed.
\<close>

section \<open>Data in flight\<close>

definition in_flight :: "flow_control \<Rightarrow> byte list" where
  "in_flight c = (case fc_writing c of Some p \<Rightarrow> p | None \<Rightarrow> []) @ concat (queue_data (fc_queue c))"

text \<open>Data before the close in a queue, and nothing after it.\<close>

fun queue_ordered :: "target_command list \<Rightarrow> bool" where
  "queue_ordered [] = True"
| "queue_ordered (CmdData _ # q) = queue_ordered q"
| "queue_ordered (CmdClose # q) = (queue_data q = [])"

lemma queue_data_append [simp]: "queue_data (q @ q') = queue_data q @ queue_data q'"
  by (induction q rule: queue_data.induct) simp_all

lemma queue_ordered_close [simp]: "queue_ordered q \<Longrightarrow> queue_ordered (q @ [CmdClose])"
  by (induction q rule: queue_ordered.induct) simp_all

lemma queue_ordered_data [simp]: "CmdClose \<notin> set q \<Longrightarrow> queue_ordered (q @ [CmdData p])"
  by (induction q rule: queue_ordered.induct) simp_all

lemma queue_ordered_tl: "queue_ordered (cmd # q) \<Longrightarrow> queue_ordered q"
proof -
  have "queue_data q = [] \<Longrightarrow> queue_ordered q" for q by (induction q rule: queue_ordered.induct) simp_all
  then show "queue_ordered (cmd # q) \<Longrightarrow> queue_ordered q" by (cases cmd) simp_all
qed

text \<open>The state of one flow: what its target has received is a prefix of what was accepted for it, and
  together with the data in flight all of it as long as the writer runs; the end of the stream comes
  after a close and after all data.\<close>

definition flow_data_ok :: "flow_control \<Rightarrow> byte list \<Rightarrow> byte list \<Rightarrow> bool \<Rightarrow> bool" where
  "flow_data_ok c taken got eof \<longleftrightarrow>
     queue_ordered (fc_queue c) \<and> (CmdClose \<in> set (fc_queue c) \<longrightarrow> fc_closed c) \<and>
     (fc_receiver c \<longrightarrow> got @ in_flight c = taken) \<and>
     prefix got taken \<and> (eof \<longrightarrow> fc_closed c \<and> got = taken)"

definition data_ok :: "session \<Rightarrow> bool" where
  "data_ok s \<longleftrightarrow>
     (\<forall>t. flow_data_ok (se_controls s t) (se_enqueued s t) (se_delivered s t) (t \<in> se_target_eof s)) \<and>
     (\<forall>t. se_next_token s \<le> t \<longrightarrow> se_enqueued s t = [] \<and> se_delivered s t = [] \<and> t \<notin> se_target_eof s)"

lemma flow_data_closed: "flow_data_ok c e d f \<Longrightarrow> flow_data_ok (c\<lparr>fc_closed := True\<rparr>) e d f"
  "flow_data_ok c e d f \<Longrightarrow> flow_data_ok (c\<lparr>fc_aborted := True, fc_closed := True\<rparr>) e d f"
  "flow_data_ok c e d f \<Longrightarrow> flow_data_ok (c\<lparr>fc_sender := False\<rparr>) e d f"
  by (simp_all add: flow_data_ok_def in_flight_def)

lemma flow_data_new: "flow_data_ok flow_control_new [] [] False"
  by (simp add: flow_data_ok_def flow_control_new_def in_flight_def)

lemma flow_data_close_queued:
  "flow_data_ok c e d f \<Longrightarrow> fc_closed c \<Longrightarrow> flow_data_ok (c\<lparr>fc_queue := fc_queue c @ [CmdClose]\<rparr>) e d f"
  by (simp add: flow_data_ok_def in_flight_def)

lemma flow_data_queued:
  assumes "flow_data_ok c e d f" "\<not> fc_closed c" "fc_receiver c"
  shows "flow_data_ok (c\<lparr>fc_queue := fc_queue c @ [CmdData p]\<rparr>) (e @ p) d f"
proof -
  have "in_flight (c\<lparr>fc_queue := fc_queue c @ [CmdData p]\<rparr>) = in_flight c @ p" by (simp add: in_flight_def)
  moreover have "CmdClose \<notin> set (fc_queue c)" "\<not> f" using assms by (auto simp: flow_data_ok_def)
  ultimately show ?thesis using assms by (auto simp: flow_data_ok_def prefix_def)
qed

lemma flow_data_taken:
  "flow_data_ok c e d f \<Longrightarrow> fc_writing c = None \<Longrightarrow> fc_queue c = CmdData p # q \<Longrightarrow>
     flow_data_ok (c\<lparr>fc_queue := q, fc_writing := Some p\<rparr>) e d f"
  by (simp add: flow_data_ok_def in_flight_def)

lemma flow_data_written:
  "flow_data_ok c e d f \<Longrightarrow> fc_receiver c \<Longrightarrow> fc_writing c = Some p \<Longrightarrow>
     flow_data_ok (c\<lparr>fc_writing := None\<rparr>) e (d @ p) f"
  by (auto simp: flow_data_ok_def in_flight_def prefix_def)

lemma flow_data_cut:
  assumes "flow_data_ok c e d f" "fc_receiver c" "fc_writing c = Some p"
  shows "flow_data_ok (c\<lparr>fc_writing := None, fc_queue := [], fc_receiver := False\<rparr>) e (d @ take n p) f"
proof -
  have e: "e = d @ p @ concat (queue_data (fc_queue c))" using assms by (simp add: flow_data_ok_def in_flight_def)
  then have "e = (d @ take n p) @ drop n p @ concat (queue_data (fc_queue c))" by simp
  then have "prefix (d @ take n p) e" unfolding prefix_def by blast
  with assms(1) e show ?thesis by (auto simp: flow_data_ok_def)
qed

lemma flow_data_dropped:
  "flow_data_ok c e d f \<Longrightarrow> flow_data_ok (c\<lparr>fc_queue := [], fc_receiver := False\<rparr>) e d f"
  "flow_data_ok c e d f \<Longrightarrow> flow_data_ok (c\<lparr>fc_queue := [], fc_writing := None, fc_receiver := False\<rparr>) e d f"
  by (simp_all add: flow_data_ok_def)

lemma flow_data_eof:
  assumes "flow_data_ok c e d f" "fc_closed c" "fc_receiver c" "fc_writing c = None" "fc_queue c = [] \<or> (\<exists>q. fc_queue c = CmdClose # q)"
  shows "flow_data_ok c e d True"
  using assms by (auto simp: flow_data_ok_def in_flight_def)

lemma data_ok_at: "data_ok s \<Longrightarrow> flow_data_ok (se_controls s t) (se_enqueued s t) (se_delivered s t) (t \<in> se_target_eof s)"
  by (simp add: data_ok_def)

lemma data_ok_fresh: "data_ok s \<Longrightarrow> se_next_token s \<le> t \<Longrightarrow> se_enqueued s t = [] \<and> se_delivered s t = [] \<and> t \<notin> se_target_eof s"
  by (simp add: data_ok_def)

text \<open>A step that changes one flow keeps the others.\<close>

lemma data_ok_one:
  assumes "data_ok s" "se_next_token s' = se_next_token s" "t < se_next_token s"
    "\<And>u. u \<noteq> t \<Longrightarrow> se_controls s' u = se_controls s u \<and> se_enqueued s' u = se_enqueued s u \<and> se_delivered s' u = se_delivered s u \<and>
       (u \<in> se_target_eof s' \<longleftrightarrow> u \<in> se_target_eof s)"
    "flow_data_ok (se_controls s' t) (se_enqueued s' t) (se_delivered s' t) (t \<in> se_target_eof s')"
  shows "data_ok s'"
  unfolding data_ok_def
proof (intro conjI allI impI)
  fix u
  show "flow_data_ok (se_controls s' u) (se_enqueued s' u) (se_delivered s' u) (u \<in> se_target_eof s')"
    using assms(4) [of u] assms(5) data_ok_at [OF assms(1), of u] by (cases "u = t") auto
  assume u: "se_next_token s' \<le> u"
  then have "u \<noteq> t" using assms(2,3) by auto
  then show "se_enqueued s' u = []" "se_delivered s' u = []" "u \<notin> se_target_eof s'"
    using assms(4) [of u] data_ok_fresh [OF assms(1), of u] u assms(2) by auto
qed

text \<open>A step that changes the control of a flow only.\<close>

lemma data_ok_control:
  assumes "data_ok s" "se_next_token s' = se_next_token s" "se_enqueued s' = se_enqueued s" "se_delivered s' = se_delivered s"
    "se_target_eof s' = se_target_eof s" "\<And>u. u \<noteq> t \<Longrightarrow> se_controls s' u = se_controls s u"
    "flow_data_ok (se_controls s' t) (se_enqueued s t) (se_delivered s t) (t \<in> se_target_eof s)"
  shows "data_ok s'"
proof -
  have "flow_data_ok (se_controls s' u) (se_enqueued s u) (se_delivered s u) (u \<in> se_target_eof s)" for u
    using assms(6) [of u] assms(7) data_ok_at [OF assms(1), of u] by (cases "u = t") auto
  then show ?thesis using assms(1-5) by (simp add: data_ok_def)
qed

lemma data_ok_new:
  assumes "data_ok s" "se_next_token s + 1 \<noteq> 0" "se_next_token s' = se_next_token s + 1" "se_enqueued s' = se_enqueued s"
    "se_delivered s' = se_delivered s" "se_target_eof s' = se_target_eof s"
    "se_controls s' = (se_controls s)(se_next_token s := flow_control_new) \<or> se_controls s' = se_controls s"
  shows "data_ok s'"
proof -
  have "flow_data_ok (se_controls s' u) (se_enqueued s u) (se_delivered s u) (u \<in> se_target_eof s)" for u
    using assms(7) data_ok_at [OF assms(1), of u] data_ok_fresh [OF assms(1), of u] flow_data_new by (cases "u = se_next_token s") auto
  moreover have "se_next_token s \<le> u" if "se_next_token s + 1 \<le> u" for u
    using that assms(2) less_next [of "se_next_token s" u] by (meson linorder_not_le order.strict_implies_order)
  ultimately show ?thesis using assms(1,3-6) by (simp add: data_ok_def)
qed

lemma writer_token:
  assumes "session_wf s" "is_writer s h token"
  shows "token < se_next_token s"
proof -
  from assms(2) obtain i where "TargetWriterTask i token \<in> set (se_tasks s)"
    by (auto simp: is_writer_def) (metis nth_mem)
  with assms(1) show ?thesis by (auto simp: session_wf_def tasks_fresh_def dest: bspec)
qed


lemma idle_at:
  assumes "session_wf s" "is_writer s h token" "se_task_states s h \<in> {TaskRunning, TaskDraining}"
  shows "fc_writing (se_controls s token) = None"
  using assms unfolding session_wf_def writers_consistent_def by blast

lemma data_ok_step:
  assumes step: "small_step cx G s s'" and wf: "session_wf s" and own: "flows_own s" and inv: "data_ok s"
  shows "data_ok s'"
proof -
  note f = data_ok_at [OF inv]
  have open_writer: "fc_receiver (se_controls s token)" if "is_live_writer s h token" for h token
    using wf that unfolding session_wf_def writers_open_def by blast
  note idle = idle_at [OF wf]
  have live: "is_live_writer s h token"
    if "is_writer s h token" "se_task_states s h \<in> {TaskRunning, TaskDraining} \<or> (\<exists>d. se_task_states s h = TaskWriting d)" for h token
    using that unfolding is_live_writer_def by (metis (full_types) insertCI insertE singletonD)
  from step show ?thesis
  proof cases
    case (control_closed token)
    then show ?thesis using flow_data_closed(1) [OF f] by (intro data_ok_control [OF inv, of _ token]) (auto simp: session_ops)
  next
    case (control_aborted token)
    then show ?thesis using flow_data_closed(2) [OF f] by (intro data_ok_control [OF inv, of _ token]) (auto simp: session_ops)
  next
    case (sender_dropped token)
    then show ?thesis using flow_data_closed(3) [OF f] by (intro data_ok_control [OF inv, of _ token]) (auto simp: session_ops)
  next
    case (close_queued token)
    then show ?thesis using flow_data_close_queued [OF f] by (intro data_ok_control [OF inv, of _ token]) (auto simp: session_ops)
  next
    case (data_queued i g p bg)
    then have "tf_token g < se_next_token s" using own unfolding flows_own_def by (metis slot_token.simps(3))
    with data_queued show ?thesis using flow_data_queued [OF f, of "tf_token g" p]
      by (intro data_ok_one [OF inv, of _ "tf_token g"]) (auto simp: session_ops queue_has_room_def)
  next
    case (data_taken h token d p q)
    then have "fc_writing (se_controls s token) = None" using idle [OF data_taken(2)] by simp
    with data_taken show ?thesis using flow_data_taken [OF f, of token p q]
      by (intro data_ok_control [OF inv, of _ token]) (auto simp: session_ops)
  next
    case (data_written h token d p)
    with flow_data_written [OF f, of token p] open_writer [OF live [OF data_written(2)]] writer_token [OF wf data_written(2)] show ?thesis
      by (intro data_ok_one [OF inv, of _ token]) (auto simp: session_ops)
  next
    case (write_cut_short h token d p n)
    with flow_data_cut [OF f, of token p n] open_writer [OF live [OF write_cut_short(2)]] writer_token [OF wf write_cut_short(2)] show ?thesis
      by (intro data_ok_one [OF inv, of _ token]) (auto simp: session_ops)
  next
    case (receiver_dropped h token)
    then show ?thesis using flow_data_dropped(1) [OF f] by (intro data_ok_control [OF inv, of _ token]) (auto simp: session_ops)
  next
    case (writer_aborted h token)
    then show ?thesis using flow_data_dropped(2) [OF f] by (intro data_ok_control [OF inv, of _ token]) (auto simp: session_ops)
  next
    case (end_of_stream h token)
    with flow_data_eof [OF f, of token] open_writer [OF live [OF end_of_stream(2)]] idle [OF end_of_stream(2)] writer_token [OF wf end_of_stream(2)] show ?thesis
      by (intro data_ok_one [OF inv, of _ token]) (auto simp: session_ops)
  next
    case (tcp_admitted i ps t)
    then show ?thesis by (intro data_ok_new [OF inv]) (auto simp: session_ops)
  next
    case (udp_admitted i ps t)
    then show ?thesis by (intro data_ok_new [OF inv]) (auto simp: session_ops)
  next
    case token_allocated
    then show ?thesis by (intro data_ok_new [OF inv]) (auto simp: session_ops)
  next
    case (tcp_established i c)
    then show ?thesis by (intro data_ok_new [OF inv]) (auto simp: session_ops)
  next
    case (udp_established i c now)
    then show ?thesis by (intro data_ok_new [OF inv]) (auto simp: session_ops)
  qed (use inv in \<open>simp_all add: data_ok_def session_ops\<close>)
qed


section \<open>Buffered bytes\<close>

definition held :: "session \<Rightarrow> u64 \<Rightarrow> nat" where
  "held s t = length (in_flight (se_controls s t))"

text \<open>The counters of the budgets, as the counters at the start and what each flow holds.\<close>

definition budgets_at :: "relay_context \<Rightarrow> budgets \<Rightarrow> budgets \<Rightarrow> (u64 \<Rightarrow> nat) \<Rightarrow> bool" where
  "budgets_at cx bg0 bg hold \<longleftrightarrow>
     (\<forall>t. bg_flow bg (budget_key cx t) = bg_flow bg0 (budget_key cx t) + hold t) \<and>
     bg_session bg (cx_session cx) = bg_session bg0 (cx_session cx) + sum hold UNIV \<and>
     bg_global bg = bg_global bg0 + sum hold UNIV \<and>
     (\<forall>k. fst k \<noteq> cx_session cx \<longrightarrow> bg_flow bg k = bg_flow bg0 k) \<and>
     (\<forall>k. k \<noteq> cx_session cx \<longrightarrow> bg_session bg k = bg_session bg0 k)"

lemma sum_upd: "sum (f(t := x)) UNIV + f t = sum f UNIV + (x :: nat)" for f :: "u64 \<Rightarrow> nat"
proof -
  have "sum (f(t := x)) (UNIV - {t}) = sum f (UNIV - {t})" by (rule sum.cong) auto
  then show ?thesis using sum.remove [of UNIV t f] sum.remove [of UNIV t "f(t := x)"] by simp
qed

lemma unat_eq [simp]: "unat t = unat u \<longleftrightarrow> t = u" for t :: u64
  by (rule word_unat_eq_iff [symmetric])

lemma budget_key_eq [simp]: "budget_key cx t = budget_key cx u \<longleftrightarrow> t = u"
  by (simp add: budget_key_def)

lemma budgets_release:
  assumes "budgets_at cx bg0 bg hold" "n \<le> hold t"
  shows "budgets_at cx bg0 (control_release_bytes (budget_key cx t) n bg) (hold(t := hold t - n))"
proof -
  have "sum (hold(t := hold t - n)) UNIV = sum hold UNIV - n" "n \<le> sum hold UNIV"
    using sum_upd [of hold t "hold t - n"] assms(2) member_le_sum [of t UNIV hold] by simp_all
  with assms show ?thesis
    by (auto simp: budgets_at_def control_release_bytes_def release_bytes_def budget_key_def)
qed

lemma budgets_release_all:
  assumes "budgets_at cx bg0 bg hold" "sum_list (map length ps) \<le> hold t"
  shows "budgets_at cx bg0 (fold (\<lambda>p. control_release_bytes (budget_key cx t) (length p)) ps bg) (hold(t := hold t - sum_list (map length ps)))"
  using assms
proof (induction ps arbitrary: bg hold)
  case (Cons p ps)
  have "length p \<le> hold t" using Cons.prems(2) by simp
  from Cons.IH [OF budgets_release [OF Cons.prems(1) this]] Cons.prems(2) show ?case by (simp cong: if_cong)
qed simp

lemma budgets_reserve:
  assumes "budgets_at cx bg0 bg hold" "control_reserve_bytes l (budget_key cx t) n bg = (True, bg')"
  shows "budgets_at cx bg0 bg' (hold(t := hold t + n))"
proof -
  have "sum (hold(t := hold t + n)) UNIV = sum hold UNIV + n" using sum_upd [of hold t "hold t + n"] by simp
  with assms show ?thesis
    by (auto simp: budgets_at_def control_reserve_bytes_def reserve_bytes_def budget_key_def Let_def split: prod.splits bool.splits if_splits)
qed


text \<open>Only a flow with a running writer holds bytes, and every open TCP flow has been given a writer.\<close>

definition served :: "session_task list \<Rightarrow> u64 \<Rightarrow> bool" where
  "served tasks t \<longleftrightarrow> (\<exists>j. TargetWriterTask j t \<in> set tasks)"

definition slots_served :: "session \<Rightarrow> bool" where
  "slots_served s \<longleftrightarrow> (\<forall>i f. hm_get (se_flows s) i = Some (TcpFlow f) \<longrightarrow> served (se_tasks s) (tf_token f))"

definition writers_hold :: "session \<Rightarrow> bool" where
  "writers_hold s \<longleftrightarrow> (\<forall>t. held s t \<noteq> 0 \<longrightarrow> (\<exists>h. is_live_writer s h t))"

lemma served_append [simp]: "served (ts @ us) t \<longleftrightarrow> served ts t \<or> served us t"
  by (auto simp: served_def)

lemma slots_served_step:
  assumes "small_step cx G s s'" "slots_served s"
  shows "slots_served s'"
  using assms(1)
proof cases
  case (slot_changed i slot slot')
  with assms(2) show ?thesis
    by (cases slot; cases slot') (auto simp: slots_served_def set_slot_def hm.get_insert same_flow_def)
next
  case (tcp_established i c)
  have "served [TargetReaderTask i t, TargetWriterTask i t] t" for t by (auto simp: served_def)
  with tcp_established assms(2) show ?thesis
    by (auto simp: slots_served_def session_ops hm.get_insert target_flow_new_def)
qed (use assms(2) in \<open>auto simp: slots_served_def session_ops hm.get_insert hm.get_remove\<close>)

lemma writers_hold_keep:
  assumes "writers_hold s" "\<And>t. held s' t \<noteq> 0 \<Longrightarrow> held s t \<noteq> 0" "\<And>h t. is_live_writer s h t \<Longrightarrow> held s' t \<noteq> 0 \<Longrightarrow> is_live_writer s' h t"
  shows "writers_hold s'"
  using assms unfolding writers_hold_def by metis

lemma served_live:
  assumes "session_wf s" "served (se_tasks s) t" "fc_receiver (se_controls s t)"
  shows "\<exists>h. is_live_writer s h t"
proof -
  from assms(2) obtain h j where h: "h < length (se_tasks s)" "se_tasks s ! h = TargetWriterTask j t"
    unfolding served_def by (auto simp: in_set_conv_nth)
  then have "is_live_writer s h t" using assms(1,3) unfolding session_wf_def writers_ended_def by blast
  then show ?thesis ..
qed

lemma held_new [simp]: "in_flight flow_control_new = []"
  by (simp add: in_flight_def flow_control_new_def)

lemma in_flight_update [simp]:
  "in_flight (c\<lparr>fc_closed := b\<rparr>) = in_flight c" "in_flight (c\<lparr>fc_aborted := b\<rparr>) = in_flight c" "in_flight (c\<lparr>fc_sender := b\<rparr>) = in_flight c"
  "in_flight (c\<lparr>fc_receiver := b\<rparr>) = in_flight c"
  "in_flight (c\<lparr>fc_queue := fc_queue c @ [CmdClose]\<rparr>) = in_flight c"
  "in_flight (c\<lparr>fc_queue := fc_queue c @ [CmdData p]\<rparr>) = in_flight c @ p"
  "in_flight (c\<lparr>fc_queue := [], fc_writing := None\<rparr>) = []" "in_flight (c\<lparr>fc_writing := None, fc_queue := []\<rparr>) = []"
  "fc_writing c = None \<Longrightarrow> fc_queue c = CmdData p # q \<Longrightarrow> in_flight (c\<lparr>fc_queue := q, fc_writing := Some p\<rparr>) = in_flight c"
  "fc_writing c = None \<Longrightarrow> in_flight (c\<lparr>fc_queue := []\<rparr>) = []"
  by (simp_all add: in_flight_def)

lemma writers_hold_step:
  assumes step: "small_step cx G s s'" and wf: "session_wf s" and served: "slots_served s" and inv: "writers_hold s"
  shows "writers_hold s'"
proof -
  have unique: "writers_unique s" using wf by (simp add: session_wf_def)
  note [simp] = held_def session_ops
  note lw = is_live_writer_def is_writer_def
  from step show ?thesis
  proof cases
    case (data_queued i g p bg)
    have "served (se_tasks s) (tf_token g)" using served data_queued(2) by (simp add: slots_served_def)
    then have "\<exists>h. is_live_writer s h (tf_token g)" by (rule served_live [OF wf]) (use data_queued in \<open>simp add: queue_has_room_def\<close>)
    then have "\<exists>h. is_live_writer s h t" if "held s' t \<noteq> 0" for t
      using that inv data_queued by (cases "t = tf_token g") (auto simp: writers_hold_def)
    then show ?thesis by (auto simp: writers_hold_def data_queued lw)
  next
    case (data_taken h token d p q)
    then have "fc_writing (se_controls s token) = None" using idle_at [OF wf data_taken(2)] by simp
    with data_taken show ?thesis by (intro writers_hold_keep [OF inv]) (auto simp: lw split: if_splits)
  next
    case (data_written h token d p)
    then show ?thesis by (intro writers_hold_keep [OF inv]) (auto simp: lw in_flight_def split: if_splits)
  next
    case (write_cut_short h token d p n)
    then show ?thesis by (intro writers_hold_keep [OF inv]) (auto simp: lw split: if_splits)
  next
    case (receiver_dropped h token)
    then show ?thesis by (intro writers_hold_keep [OF inv]) (auto simp: lw split: if_splits)
  next
    case (writer_aborted h token)
    then show ?thesis by (intro writers_hold_keep [OF inv]) (auto simp: lw split: if_splits)
  next
    case (task_finished h st)
    then show ?thesis by (intro writers_hold_keep [OF inv]) (auto simp: lw in_flight_def)
  next
    case (timer_aborted i f h)
    then have "is_timer s h" using wf by (auto simp: session_wf_def timers_ok_def)
    with timer_aborted show ?thesis by (intro writers_hold_keep [OF inv]) (auto simp: lw is_timer_def)
  next
    case (task_aborted h)
    then show ?thesis by (intro writers_hold_keep [OF inv]) (auto simp: lw)
  next
    case (writer_draining h token)
    then show ?thesis by (intro writers_hold_keep [OF inv]) (auto simp: lw)
  qed (intro writers_hold_keep [OF inv]; (auto simp: lw nth_append split: if_splits; fail))+
qed


definition budgets_ok :: "relay_context \<Rightarrow> budgets \<Rightarrow> session \<Rightarrow> bool" where
  "budgets_ok cx bg s \<longleftrightarrow> budgets_at cx bg (se_budgets s) (held s) \<and>
     (\<forall>t. held s t \<le> lm_flow_bytes (cx_limits cx)) \<and>
     sum (held s) UNIV \<le> lm_session_bytes (cx_limits cx) \<and> sum (held s) UNIV \<le> cx_global_bytes cx"

lemma budgets_ok_less:
  assumes "budgets_ok cx bg s" "budgets_at cx bg (se_budgets s') hold" "held s' = hold" "\<And>t. hold t \<le> held s t"
  shows "budgets_ok cx bg s'"
proof -
  have "sum hold UNIV \<le> sum (held s) UNIV" by (rule sum_mono) (rule assms(4))
  with assms show ?thesis unfolding budgets_ok_def by (auto intro: order.trans)
qed

lemma budgets_ok_same:
  assumes "budgets_ok cx bg s" "se_budgets s' = se_budgets s" "held s' = held s"
  shows "budgets_ok cx bg s'"
  using assms by (simp add: budgets_ok_def)

lemma reserve_within:
  "control_reserve_bytes l key n bg = (True, bg') \<Longrightarrow>
     bg_flow bg' key \<le> bl_flow l \<and> bg_session bg' (fst key) \<le> bl_session l \<and> bg_global bg' \<le> bl_global l"
  by (auto simp: control_reserve_bytes_def reserve_bytes_def Let_def split: prod.splits bool.splits if_splits)

lemma budgets_ok_queued:
  assumes "budgets_ok cx bg s" "control_reserve_bytes (budget_limits_of cx) (budget_key cx t) n (se_budgets s) = (True, se_budgets s')"
    "held s' = (held s)(t := held s t + n)"
  shows "budgets_ok cx bg s'"
proof -
  have at: "budgets_at cx bg (se_budgets s') (held s')"
    using budgets_reserve [OF _ assms(2)] assms(1,3) by (simp add: budgets_ok_def)
  have "bg_flow (se_budgets s') (budget_key cx t) \<le> lm_flow_bytes (cx_limits cx)"
    "bg_session (se_budgets s') (cx_session cx) \<le> lm_session_bytes (cx_limits cx)" "bg_global (se_budgets s') \<le> cx_global_bytes cx"
    using reserve_within [OF assms(2)] by (simp_all add: budget_key_def budget_limits_of_def)
  with at have "held s' t \<le> lm_flow_bytes (cx_limits cx)" "sum (held s') UNIV \<le> lm_session_bytes (cx_limits cx)"
    "sum (held s') UNIV \<le> cx_global_bytes cx"
    by (auto simp: budgets_at_def dest: spec [of _ t])
  with at assms(1,3) show ?thesis by (auto simp: budgets_ok_def)
qed

lemma fresh_held:
  assumes "session_wf s" "writers_hold s"
  shows "held s (se_next_token s) = 0"
proof (rule ccontr)
  assume "held s (se_next_token s) \<noteq> 0"
  then obtain h where "is_live_writer s h (se_next_token s)" using assms(2) unfolding writers_hold_def by blast
  then have "is_writer s h (se_next_token s)" by (simp add: is_live_writer_def)
  from writer_token [OF assms(1) this] show False by simp
qed

lemma budgets_ok_step:
  assumes step: "small_step cx G s s'" and wf: "session_wf s" and hold: "writers_hold s" and inv: "budgets_ok cx bg s"
  shows "budgets_ok cx bg s'"
proof -
  have at: "budgets_at cx bg (se_budgets s) (held s)" using inv by (simp add: budgets_ok_def)
  have fresh: "in_flight (se_controls s (se_next_token s)) = []" using fresh_held [OF wf hold] by (simp add: held_def)
  from step show ?thesis
  proof cases
    case (data_queued i g p b)
    then show ?thesis by (intro budgets_ok_queued [OF inv, of "tf_token g" "length p"]) (auto simp: session_ops held_def fun_eq_iff)
  next
    case (data_taken h token d p q)
    then have "fc_writing (se_controls s token) = None" using idle_at [OF wf data_taken(2)] by simp
    with data_taken show ?thesis by (intro budgets_ok_same [OF inv]) (auto simp: session_ops held_def fun_eq_iff)
  next
    case (data_written h token d p)
    then have p: "length p \<le> held s token" "held s' = (held s)(token := held s token - length p)"
      by (auto simp: held_def in_flight_def session_ops fun_eq_iff)
    with data_written budgets_release [OF at p(1)] show ?thesis by (intro budgets_ok_less [OF inv _ p(2)]) (auto simp: session_ops)
  next
    case (write_cut_short h token d p n)
    let ?q = "queue_data (fc_queue (se_controls s token))"
    from write_cut_short have p: "held s token = length p + sum_list (map length ?q)" "held s' = (held s)(token := 0)"
      by (auto simp: held_def in_flight_def session_ops fun_eq_iff length_concat)
    with write_cut_short budgets_release_all [OF at, of "p # ?q" token] show ?thesis
      by (intro budgets_ok_less [OF inv _ p(2)]) (auto simp: session_ops)
  next
    case (receiver_dropped h token)
    let ?q = "queue_data (fc_queue (se_controls s token))"
    from receiver_dropped have p: "held s token = sum_list (map length ?q)" "held s' = (held s)(token := 0)"
      by (auto simp: held_def in_flight_def session_ops fun_eq_iff length_concat)
    with receiver_dropped budgets_release_all [OF at, of ?q token] show ?thesis
      by (intro budgets_ok_less [OF inv _ p(2)]) (auto simp: session_ops)
  next
    case (writer_aborted h token)
    let ?q = "queue_data (fc_queue (se_controls s token))"
    let ?w = "case fc_writing (se_controls s token) of Some p \<Rightarrow> [p] | None \<Rightarrow> []"
    from writer_aborted have p: "held s token = sum_list (map length (?w @ ?q))" "held s' = (held s)(token := 0)"
      by (auto simp: held_def in_flight_def session_ops fun_eq_iff length_concat split: option.splits)
    with writer_aborted budgets_release_all [OF at, of "?w @ ?q" token] show ?thesis
      by (intro budgets_ok_less [OF inv _ p(2)]) (auto simp: session_ops split: option.splits)
  qed (intro budgets_ok_same [OF inv]; (auto simp: session_ops held_def fun_eq_iff fresh; fail))+
qed


interpretation buffered: session_invariant cx perm
  "\<lambda>s. flows_own s \<and> data_ok s \<and> slots_served s \<and> writers_hold s \<and> budgets_ok cx bg s" for cx perm bg
proof
  fix s s'
  assume step: "small_step cx perm s s'" and wf: "session_wf s"
    and inv: "flows_own s \<and> data_ok s \<and> slots_served s \<and> writers_hold s \<and> budgets_ok cx bg s"
  then show "flows_own s' \<and> data_ok s' \<and> slots_served s' \<and> writers_hold s' \<and> budgets_ok cx bg s'"
    using flows_own_step [OF step] data_ok_step [OF step wf] slots_served_step [OF step] writers_hold_step [OF step wf]
      budgets_ok_step [OF step wf] by blast
qed

section \<open>Dials\<close>

definition dial_allowed :: "relay_context \<Rightarrow> (policy_set \<Rightarrow> bool) \<Rightarrow> target \<times> policy_set \<times> socket_addr \<Rightarrow> bool" where
  "dial_allowed cx granted d \<longleftrightarrow> (case d of (t, ps, a) \<Rightarrow> granted ps \<and> \<not> is_metadata_service_ip (sa_ip a) \<and>
     (is_private (sa_ip a) \<longrightarrow> has_unrestricted_private_allow ps) \<and>
     (\<exists>addrs. a \<in> set addrs \<and> evaluate ps (policy_context_for t (cx_identity cx) (resolved_ips t addrs)) = Allow))"

fun task_granted :: "(policy_set \<Rightarrow> bool) \<Rightarrow> session_task \<Rightarrow> bool" where
  "task_granted granted (TcpOpenTask _ _ _ ps) = granted ps"
| "task_granted granted (UdpOpenTask _ _ _ ps) = granted ps"
| "task_granted granted _ = True"

definition dials_ok :: "relay_context \<Rightarrow> (policy_set \<Rightarrow> bool) \<Rightarrow> session \<Rightarrow> bool" where
  "dials_ok cx granted s \<longleftrightarrow> list_all (task_granted granted) (se_tasks s) \<and> list_all (dial_allowed cx granted) (se_dialed s)"

lemma dials_of_allowed:
  assumes "dials_of cx task t ps ts" "task_granted granted task" "a \<in> set (ct_dialed ts)"
  shows "dial_allowed cx granted (t, ps, a)"
proof -
  have g: "granted ps" using assms(1,2) by (auto simp: dials_of_def)
  from assms(1) obtain w :: "unit dial_world" and now where d:
    "ts = snd (snd (connect_allowed_target w t (cx_identity cx) ps now (cx_latest cx) (lm_connect_timeout (cx_limits cx)))) \<or>
     ts = snd (snd (connect_allowed_udp_target w t (cx_identity cx) ps now (cx_latest cx) (lm_connect_timeout (cx_limits cx))))"
    unfolding dials_of_def by blast
  from d obtain r lookups where "(r, lookups, ts) = connect_allowed_target w t (cx_identity cx) ps now (cx_latest cx) (lm_connect_timeout (cx_limits cx)) \<or>
    (r, lookups, ts) = connect_allowed_udp_target w t (cx_identity cx) ps now (cx_latest cx) (lm_connect_timeout (cx_limits cx))"
    by (metis prod.collapse)
  from dialed_address_allowed [OF this assms(3)] g show ?thesis by (simp add: dial_allowed_def)
qed

interpretation dials: session_invariant cx "(granted, b, c)" "dials_ok cx granted" for cx granted b c
proof
  fix s s'
  assume step: "small_step cx (granted, b, c) s s'" and inv: "dials_ok cx granted s"
  from step show "dials_ok cx granted s'"
  proof cases
    case (targets_dialed h t ps ts)
    then have "task_granted granted (se_tasks s ! h)" using inv by (simp add: dials_ok_def list_all_length)
    with targets_dialed inv dials_of_allowed [OF targets_dialed(3)] show ?thesis
      by (auto simp: dials_ok_def record_dials_def list_all_iff)
  qed (use inv in \<open>simp_all add: dials_ok_def session_ops\<close>)
qed


section \<open>Properties\<close>

lemma buffered_start:
  "flows_own (session_start cx bg writes) \<and> data_ok (session_start cx bg writes) \<and> slots_served (session_start cx bg writes) \<and>
   writers_hold (session_start cx bg writes) \<and> budgets_ok cx bg (session_start cx bg writes)"
proof -
  have s: "se_controls (session_start cx bg writes) = (\<lambda>_. flow_control_new)" "se_enqueued (session_start cx bg writes) = (\<lambda>_. [])"
    "se_delivered (session_start cx bg writes) = (\<lambda>_. [])" "se_target_eof (session_start cx bg writes) = {}"
    "se_budgets (session_start cx bg writes) = bg"
    by (simp_all add: session_start_def maybe_spawn_datagram_reader_def session_new_def transition_def spawn_task_def)
  have "held (session_start cx bg writes) = (\<lambda>_. 0)" by (simp add: held_def fun_eq_iff s)
  then show ?thesis
    using flow_table_start [of cx bg writes]
    by (simp add: flow_table_ok_def data_ok_def s flow_data_new slots_served_def session_start_table writers_hold_def budgets_ok_def budgets_at_def)
qed

lemmas run_buffered = buffered.inv_run [OF buffered_start _ refl]



text \<open>C8: what a session buffers is bounded and counted. At every point of a session the bytes held for a
  flow, in its queue and in the hand of its writer, are within the flow limit, all together within the
  session limit and the server-wide limit; and each of the three shared counters is what it was at the
  start plus exactly these bytes, while the counters of other sessions are untouched.\<close>

theorem session_buffers_bounded:
  assumes "length turns + 1 < 2 ^ 64" "s = run_session (relay_session cx now idle bg writes closing turns)"
  shows "held s t \<le> lm_flow_bytes (cx_limits cx) \<and> sum (held s) UNIV \<le> lm_session_bytes (cx_limits cx) \<and>
    sum (held s) UNIV \<le> cx_global_bytes cx \<and>
    bg_flow (se_budgets s) (budget_key cx t) = bg_flow bg (budget_key cx t) + held s t \<and>
    bg_session (se_budgets s) (cx_session cx) = bg_session bg (cx_session cx) + sum (held s) UNIV \<and>
    bg_global (se_budgets s) = bg_global bg + sum (held s) UNIV \<and>
    (\<forall>k. k \<noteq> cx_session cx \<longrightarrow> bg_session (se_budgets s) k = bg_session bg k)"
proof -
  have "budgets_ok cx bg s" using run_buffered [OF assms(1)] unfolding assms(2) by blast
  then show ?thesis unfolding budgets_ok_def budgets_at_def by blast
qed

theorem session_buffers_bounded_witness:
  "held (run_session sample_run) 2 \<le> 1024 \<and> sum (held (run_session sample_run)) UNIV \<le> 4096"
  using session_buffers_bounded [OF sample_turns_length refl, of sample_context 0 None no_budgets "[]" "[]"]
  by (simp add: sample_run_def sample_context_def sample_limits_def)






end
