(* ===== verification/Spec2Isabelle.thy ===== *)
theory Spec2Isabelle
  imports Frame_Io Settings Auth Policy_Props Rate_Limit Mask_Replay Mask_Form Mask_Stream Socks5 Relay_Data
begin

text \<open>
  A verification development for Uncrowned King, a proxy whose client and server exchange frames
  over a TLS or QUIC carrier. The program is the Rust workspace under \<open>src/crates\<close>: the wire protocol
  (\<open>uk-proto\<close>), authentication (\<open>uk-auth\<close>), the access policy (\<open>uk-policy\<close>), the masking layer
  (\<open>uk-mask\<close>), the server (\<open>uk-server\<close>) and the client (\<open>uk-client\<close>). An application speaks SOCKS5 to the
  client; the client authenticates to the server and opens flows with frames; the server checks each
  target against its policy before it resolves and dials it.

  \<^bold>\<open>Conventions.\<close> Bytes and the fixed-width integers are words; a buffer is a list of bytes. A
  fallible function returns a sum with the error on the left, and \<open>and_then\<close> is the \<open>?\<close> operator. A
  struct is a record, an enum a datatype. A mutable object is passed and returned. A hash map is an
  association list behind the \<open>finite_map\<close> interface; where the code iterates over one, the order is an
  argument. Instants and durations are nanoseconds. HMAC, the ChaCha20 keystream, random bytes, clocks
  and the outcomes of polls are arguments of the definitions that use them.

  \<^bold>\<open>Theories.\<close>

  \<^item> \<open>UK_Prelude\<close>: bytes and machine integers, results and the \<open>?\<close> operator, network byte order,
    and the contracts of the wire codecs as locales (\<open>codec\<close>, \<open>stream_codec\<close>, \<open>payload_codec\<close>).
  \<^item> \<open>Hash_Map\<close>: the hash map interface and its association-list provider.
  \<^item> \<open>Std_Net\<close>: IP addresses, their textual forms and the classifications the standard library gives.
  \<^item> \<open>Varint\<close>, \<open>Frame\<close>: \<open>uk-proto/src/varint.rs\<close>, \<open>error.rs\<close>, \<open>flow.rs\<close>, \<open>frame.rs\<close>. One wire form per value,
    and the meaning of the decoding errors.
  \<^item> \<open>Frame_Io\<close>: \<open>uk-proto/src/io.rs\<close>. Frame reading over any chunking and cancellation implements
    decoding of the byte stream.
  \<^item> \<open>Target\<close>, \<open>Relay_Payloads\<close>, \<open>Settings\<close>: \<open>uk-proto/src/target.rs\<close>, \<open>tcp.rs\<close>, \<open>udp.rs\<close>, \<open>datagram.rs\<close>, \<open>status.rs\<close>,
    \<open>settings.rs\<close>. Host name validation, payload forms and the bounds of negotiated settings.
  \<^item> \<open>Replay_Cache\<close>, \<open>Auth\<close>: \<open>uk-auth/src/lib.rs\<close>. The nonce cache refines a bounded queue; verification is
    sound, complete and reveals errors only to a holder of the secret.
  \<^item> \<open>Policy\<close>, \<open>Policy_Props\<close>: \<open>uk-policy/src/lib.rs\<close>. Address classes, rule matching, evaluation before and
    after resolution.
  \<^item> \<open>Rate_Limit\<close>: \<open>uk-server/src/rate_limit.rs\<close>. Bans and the bound of the table.
  \<^item> \<open>Mask_Prelude\<close>, \<open>Mask_Form\<close>: \<open>uk-mask/src/lib.rs\<close>. The authenticated prelude and the client counter.
  \<^item> \<open>Mask_Replay\<close>: \<open>uk-mask/src/replay.rs\<close>. The registry of counters.
  \<^item> \<open>Mask_Stream\<close>: \<open>uk-mask/src/stream.rs\<close>. The stream cipher adapter under partial writes.
  \<^item> \<open>Socks5\<close>: \<open>uk-client/src/socks5.rs\<close>. The handshake and the datagrams of the local listener.

  \<^item> \<open>Security_State\<close>: \<open>uk-server/src/security.rs\<close>. Reloads take effect for the identities they concern.
  \<^item> \<open>Dialer\<close>: \<open>uk-server/src/relay/dialer.rs\<close>. The policy before and after name resolution, and the dial loop.
  \<^item> \<open>Relay_Budget\<close>: the byte and flow budgets of \<open>relay/context.rs\<close>, as exchange loops and as interleaved steps.
  \<^item> \<open>Relay_Context\<close>, \<open>Relay_Tcp\<close>, \<open>Relay_Udp\<close>: \<open>relay/context.rs\<close>, \<open>tcp.rs\<close>, \<open>udp.rs\<close>. The state of a session (record
    \<open>session\<close>) and its handlers of frames and flow events.
  \<^item> \<open>Relay_Tasks\<close>: \<open>relay/tasks.rs\<close>. The tasks of a session, each as its steps from one suspension point to the
    next (\<open>task_step\<close>), and the draining and aborting of the task set.
  \<^item> \<open>Relay_Session\<close>: \<open>relay/session.rs\<close>. The loop (\<open>session_loop\<close>), its events and timers, and the teardown;
    \<open>relay_session\<close> is a run from the start of a session.
  \<^item> \<open>Relay_Steps\<close>, \<open>Relay_Runs\<close>: every handler, task step and the teardown as a sequence of small steps
    (\<open>small_step\<close>), and the locale \<open>session_invariant\<close> that carries what each small step keeps to whole runs.
  \<^item> \<open>Relay_Table\<close>, \<open>Relay_Data\<close>: interpretations of that locale and the properties of runs: the limits of the
    flow table, the wire format of the output, the end of a draining session, the order of the data a
    target receives, the bounds on buffered bytes, what an ended session leaves, and which addresses
    are dialed.
  \<^item> \<open>Relay_Samples\<close>: a concrete session evaluated in the model.

  \<^bold>\<open>Runs of a session.\<close> A run is given by a list of turns. A turn holds the steps the tasks take before the
  loop wakes up, what the loop then meets (the clock, the security state, whether a flow permit is free,
  the order of a hash map) and the event it takes; an event that cannot occur there ends the run as
  \<open>Refused\<close>. The properties quantify over all lists of turns, that is, over all schedulings, clocks, clients
  and targets. The one bound is that a run has fewer than \<open>2 ^ 64\<close> turns, so that the 64-bit counter of flow
  tokens does not wrap: a turn takes one token at most. Tasks and the loop interleave between their
  suspension points only; several tasks writing to the carrier are ordered by its lock. Other
  sessions appear through the values of the shared counters at the start of a run and are still
  during it; \<open>Relay_Budget\<close> treats the counters under interference from every session.

  \<^bold>\<open>Termination.\<close> No definition uses fuel: the loops of the source recurse on the data they consume
  or carry a termination proof, and loops that wait for the outside end with the script of what it does.

  \<^bold>\<open>Not modelled.\<close> Start-up, signals and accept loops (\<open>main.rs\<close>, \<open>lib.rs\<close> of both binaries), TLS and QUIC set-up
  (\<open>tls.rs\<close>, \<open>quic.rs\<close>, \<open>uk-mask/src/udp.rs\<close>), logging, metrics and probes, the benches and fuzz targets are I/O
  or calls of third-party packages. Configuration files (\<open>config.rs\<close>, \<open>endpoint.rs\<close>) are read by serde; what they
  yield are arguments here. The sequence of the server's handshake (\<open>uk-server/src/lib.rs\<close>), the
  masking gate (\<open>masking.rs\<close>) and the client's session pool and relay (\<open>uk-client/src/session.rs\<close>, \<open>relay/\<close>) build
  on the parts above, but their own state, which is shared between tasks under locks, is not modelled.
\<close>

end
